(* ===== verification/Prelude.thy ===== *)
theory Prelude
  imports Main "HOL-Library.Word" "HOL-Library.Sublist"
begin

section \<open>Shared vocabulary of the development\<close>

text \<open>
  The C conventions every component uses.  A NUL-terminated string is the \<^typ>\<open>string\<close> of its
  characters before the terminator, a pointer that may be NULL is an \<open>option\<close>, a status return
  of 0 or a negative number is an \<^typ>\<open>int\<close>.  Memory comes from \<open>calloc\<close>, which may fail at
  any call: functions with allocation branches take an oracle of type \<open>alloc\<close> that answers
  the i-th request of the call.  (\<open>util_strdup_s\<close> aborts the process instead of returning
  NULL, so a duplicated string is always there: src/src/utils/cutils/utils.c, lines 267-281.)
\<close>

type_synonym alloc = "nat \<Rightarrow> bool"

definition all_ok :: alloc where
  "all_ok = (\<lambda>_. True)"

lemma all_ok_apply [simp]: "all_ok i"
  by (simp add: all_ok_def)

subsection \<open>Limits of the platform (LP64)\<close>

definition SIZE_MAX :: nat where "SIZE_MAX = 2 ^ 64 - 1"

definition MAX_MEMORY_SIZE :: nat where "MAX_MEMORY_SIZE = 2 ^ 47"

definition INT64_MAX :: int where "INT64_MAX = 2 ^ 63 - 1"

definition INT64_MIN :: int where "INT64_MIN = - (2 ^ 63)"

definition INT_MAX :: int where "INT_MAX = 2 ^ 31 - 1"

definition INT_MIN :: int where "INT_MIN = - (2 ^ 31)"

definition UINT32_MAX :: int where "UINT32_MAX = 2 ^ 32 - 1"

definition UINT64_MAX :: int where "UINT64_MAX = 2 ^ 64 - 1"

text \<open>\<open>util_common_calloc_s\<close> and \<open>util_smart_calloc_s\<close>: refuse an empty or an absurd size before
  asking the allocator.\<close>

definition util_common_calloc_s :: "bool \<Rightarrow> nat \<Rightarrow> bool" where
  "util_common_calloc_s calloc n = (if n = 0 \<or> n > MAX_MEMORY_SIZE then False else calloc)"

definition util_smart_calloc_s :: "bool \<Rightarrow> nat \<Rightarrow> nat \<Rightarrow> bool" where
  "util_smart_calloc_s calloc unit_size count =
     (if unit_size = 0 then False
      else if count > MAX_MEMORY_SIZE div unit_size then False else calloc)"

lemma util_common_calloc_sD: "util_common_calloc_s c n \<Longrightarrow> c \<and> 0 < n \<and> n \<le> MAX_MEMORY_SIZE"
  by (auto simp: util_common_calloc_s_def split: if_splits)

subsection \<open>Characters and strings of the C locale\<close>

definition code :: "char \<Rightarrow> nat" where
  "code c = of_char c"

definition c_str :: "string \<Rightarrow> bool" where
  "c_str s \<longleftrightarrow> CHR 0x00 \<notin> set s"

lemma c_str_simps [simp]:
  "c_str []" "c_str (c # s) \<longleftrightarrow> c \<noteq> CHR 0x00 \<and> c_str s" "c_str (s @ t) \<longleftrightarrow> c_str s \<and> c_str t"
  by (auto simp: c_str_def)

lemma code_inject [simp]: "code a = code b \<longleftrightarrow> a = b"
  by (simp add: code_def)

lemma code_less_256: "code c < 256"
  by (simp add: code_def)

definition isdigit :: "char \<Rightarrow> bool" where
  "isdigit c \<longleftrightarrow> 48 \<le> code c \<and> code c \<le> 57"

definition isspace :: "char \<Rightarrow> bool" where
  "isspace c \<longleftrightarrow> code c = 32 \<or> 9 \<le> code c \<and> code c \<le> 13"

definition tolower :: "char \<Rightarrow> char" where
  "tolower c = (if 65 \<le> code c \<and> code c \<le> 90 then char_of (code c + 32) else c)"

definition toupper :: "char \<Rightarrow> char" where
  "toupper c = (if 97 \<le> code c \<and> code c \<le> 122 then char_of (code c - 32) else c)"

lemma code_char_of [simp]: "n < 256 \<Longrightarrow> code (char_of n) = n"
  by (simp add: code_def)

lemma code_tolower: "code (tolower c) = (if 65 \<le> code c \<and> code c \<le> 90 then code c + 32 else code c)"
  using code_less_256 [of c] by (simp add: tolower_def)

lemma code_toupper: "code (toupper c) = (if 97 \<le> code c \<and> code c \<le> 122 then code c - 32 else code c)"
  using code_less_256 [of c] by (simp add: toupper_def)

lemma tolower_idem [simp]: "tolower (tolower c) = tolower c"
  by (rule code_inject [THEN iffD1]) (auto simp: code_tolower)

lemma toupper_tolower [simp]: "tolower (toupper c) = tolower c"
  by (rule code_inject [THEN iffD1]) (auto simp: code_tolower code_toupper)

text \<open>\<open>strcasecmp(a, b) == 0\<close>.\<close>

definition strcaseeq :: "string \<Rightarrow> string \<Rightarrow> bool" where
  "strcaseeq a b \<longleftrightarrow> map tolower a = map tolower b"

text \<open>\<open>strstr\<close>: the suffix of the haystack that starts at the first occurrence, or NULL.\<close>

fun strstr :: "string \<Rightarrow> string \<Rightarrow> string option" where
  "strstr [] needle = (if needle = [] then Some [] else None)"
| "strstr (c # rest) needle = (if prefix needle (c # rest) then Some (c # rest) else strstr rest needle)"

lemma strstr_Some: "strstr h n = Some t \<Longrightarrow> suffix t h \<and> prefix n t"
  by (induction h n rule: strstr.induct) (auto simp: suffix_ConsI split: if_splits)

lemma strstr_None: "strstr h n = None \<longleftrightarrow> \<not> sublist n h"
  by (induction h n rule: strstr.induct) (auto simp: sublist_Cons_right)

subsection \<open>Lists\<close>

lemma takeWhile_dropWhile_length:
  "length (takeWhile P xs) + length (dropWhile P xs) = length xs"
  by (metis length_append takeWhile_dropWhile_id)

lemma dropWhile_hd_not: "dropWhile P xs = y # ys \<Longrightarrow> \<not> P y"
  by (metis dropWhile_eq_Cons_conv)

lemma length_dropWhile_le' [simp]: "length (dropWhile P xs) \<le> length xs"
  by (rule length_dropWhile_le)

lemma distinct_singleton: "distinct xs \<Longrightarrow> set xs = {x} \<Longrightarrow> xs = [x]"
proof (cases xs)
  case (Cons y ys)
  assume "distinct xs" "set xs = {x}"
  with Cons have "y = x" "x \<notin> set ys" "set ys \<subseteq> {x}" by auto
  then have "ys = []" by (cases ys) auto
  with Cons \<open>y = x\<close> show ?thesis by simp
qed simp

end
