(* ===== verification/Path.thy ===== *)
theory Path
  imports Prelude
begin

section \<open>Path cleaning and symlink resolution in a scope (src/src/utils/cutils/path.c)\<close>

text \<open>
  The C code works on a buffer \<open>respath\<close> with a write pointer \<open>dest\<close>; the model keeps the
  bytes written so far, \<open>respath[0 .. dest)\<close>, as the list \<open>out\<close>, so that \<open>dest - respath\<close> is
  \<open>length out\<close>.  The input pointer \<open>stpos\<close> is the rest of the input string.  The file system is
  a parameter: \<open>is_lnk\<close> says for which paths \<open>lstat\<close> succeeds and reports a symbolic link,
  \<open>rdlink\<close> is what \<open>readlink\<close> reads there.
\<close>

definition PATH_MAX :: nat where "PATH_MAX = 4096"

definition MAXSYMLINKS :: nat where "MAXSYMLINKS = 20"

definition ISSLASH :: "char \<Rightarrow> bool" where
  "ISSLASH c \<longleftrightarrow> c = CHR ''/''"

text \<open>\<open>ISSLASH(dest[-1])\<close>.\<close>

definition ends_slash :: "string \<Rightarrow> bool" where
  "ends_slash out \<longleftrightarrow> out \<noteq> [] \<and> ISSLASH (last out)"

text \<open>The loop \<open>for (; dest > respath && !ISSLASH(dest[-1]); --dest)\<close>, on the offset of \<open>dest\<close>.\<close>

fun back_to_slash :: "string \<Rightarrow> nat \<Rightarrow> nat" where
  "back_to_slash buf 0 = 0"
| "back_to_slash buf (Suc d) = (if ISSLASH (buf ! d) then Suc d else back_to_slash buf d)"

definition unwind :: "string \<Rightarrow> string" where
  "unwind out = take (back_to_slash out (length out - 1)) out"

definition do_clean_path_continue :: "string \<Rightarrow> string \<Rightarrow> bool \<times> string" where
  "do_clean_path_continue nm out =
     (if nm = ''.'' then (True, out)
      else if nm = ''..'' then
        (if length out \<le> 1 then (True, out) else (True, unwind out))
      else (False, out))"

text \<open>
  The two inner loops of an iteration, \<open>while (ISSLASH(*stpos)) ++stpos\<close> and
  \<open>for (endpos = stpos; *endpos && !ISSLASH(*endpos); ++endpos)\<close> (also
  \<open>do_eval_symlinks_skip_slash\<close>): \<open>seg\<close> is the text between the two pointers they leave,
  \<open>seg_end\<close> the text from \<open>endpos\<close>.
\<close>

definition seg :: "string \<Rightarrow> string" where
  "seg s = takeWhile (\<lambda>c. \<not> ISSLASH c) (dropWhile ISSLASH s)"

definition seg_end :: "string \<Rightarrow> string" where
  "seg_end s = dropWhile (\<lambda>c. \<not> ISSLASH c) (dropWhile ISSLASH s)"

lemma seg_length: "length (seg s) + length (seg_end s) = length (dropWhile ISSLASH s)"
  by (simp add: seg_def seg_end_def takeWhile_dropWhile_length)

lemma seg_end_shorter: "seg s \<noteq> [] \<Longrightarrow> length (seg_end s) < length s"
proof -
  assume "seg s \<noteq> []"
  then have "0 < length (seg s)" by simp
  with seg_length [of s] length_dropWhile_le [of ISSLASH s] show ?thesis by linarith
qed

function do_clean_path :: "nat \<Rightarrow> string \<Rightarrow> string \<Rightarrow> string option" where
  "do_clean_path limit stpos out =
     (if stpos = [] then Some out
      else if seg stpos = [] then Some out
      else if fst (do_clean_path_continue (seg stpos) out)
        then do_clean_path limit (seg_end stpos) (snd (do_clean_path_continue (seg stpos) out))
      else
        let out1 = (if \<not> ends_slash out then out @ ''/'' else out)
        in if length out1 + length (seg stpos) \<ge> limit then None
           else do_clean_path limit (seg_end stpos) (out1 @ seg stpos))"
  by pat_completeness auto

termination do_clean_path
  by (relation "measure (\<lambda>(limit, stpos, out). length stpos)") (auto simp: seg_end_shorter)

declare do_clean_path.simps [simp del]

text \<open>
  \<open>util_clean_path path realpath realpath_len\<close>: \<open>cwd\<close> is the current directory (None when
  \<open>getcwd\<close> fails), \<open>buflen\<close> the length of the caller's buffer (None for a NULL buffer).
\<close>

definition getcwd :: "string option \<Rightarrow> nat \<Rightarrow> string option" where
  "getcwd cwd n = (case cwd of None \<Rightarrow> None | Some d \<Rightarrow> if length d < n then Some d else None)"

definition strip_last_slash :: "nat \<Rightarrow> string \<Rightarrow> string" where
  "strip_last_slash keep out = (if length out > keep \<and> ends_slash out then butlast out else out)"

definition util_clean_path :: "string option \<Rightarrow> string option \<Rightarrow> nat option \<Rightarrow> string option" where
  "util_clean_path cwd path buflen =
     (case (path, buflen) of
        (Some p, Some n) \<Rightarrow>
          if p = [] \<or> n < PATH_MAX then None
          else if \<not> ISSLASH (hd p) then
            (case getcwd cwd PATH_MAX of
               None \<Rightarrow> None
             | Some d \<Rightarrow>
                 if length p \<ge> (PATH_MAX - 1) - length d then None
                 else map_option (strip_last_slash 1) (do_clean_path PATH_MAX p d))
          else map_option (strip_last_slash 1) (do_clean_path PATH_MAX p ''/'')
      | _ \<Rightarrow> None)"

text \<open>The equations that evaluate the cleaning loop on a concrete path.\<close>

lemmas path_eval = util_clean_path_def do_clean_path.simps do_clean_path_continue_def seg_def seg_end_def
  ends_slash_def strip_last_slash_def getcwd_def unwind_def PATH_MAX_def nth_Cons' ISSLASH_def

subsection \<open>Specification: a path is a stack of components\<close>

function comps :: "string \<Rightarrow> string list" where
  "comps s = (if seg s = [] then [] else seg s # comps (seg_end s))"
  by pat_completeness auto

termination comps
  by (relation "measure length") (auto simp: seg_end_shorter)

declare comps.simps [simp del]

fun norm_step :: "string list \<Rightarrow> string \<Rightarrow> string list" where
  "norm_step st c =
     (if c = ''.'' then st else if c = ''..'' then butlast st else st @ [c])"

fun join_slash :: "string list \<Rightarrow> string" where
  "join_slash [] = []"
| "join_slash (c # cs) = ''/'' @ c @ join_slash cs"

definition render :: "string list \<Rightarrow> string" where
  "render st = (if st = [] then ''/'' else join_slash st)"

definition good_comp :: "string \<Rightarrow> bool" where
  "good_comp c \<longleftrightarrow> c \<noteq> [] \<and> CHR ''/'' \<notin> set c"

definition proper_comp :: "string \<Rightarrow> bool" where
  "proper_comp c \<longleftrightarrow> good_comp c \<and> c \<noteq> ''.'' \<and> c \<noteq> ''..''"

lemma join_slash_append [simp]: "join_slash (xs @ ys) = join_slash xs @ join_slash ys"
  by (induction xs) auto

text \<open>The buffer holds a stack of components, possibly with the slash that unwinding leaves.\<close>

definition rep :: "string \<Rightarrow> string list \<Rightarrow> bool" where
  "rep out st \<longleftrightarrow> list_all good_comp st \<and> (out = render st \<or> st \<noteq> [] \<and> out = render st @ ''/'')"

lemma ISSLASH_iff [simp]: "ISSLASH c \<longleftrightarrow> c = CHR ''/''"
  by (simp add: ISSLASH_def)

lemma ISSLASH_eq: "ISSLASH = (\<lambda>c. c = CHR ''/'')"
  by (simp add: fun_eq_iff)

lemma seg_Nil [simp]: "seg [] = []"
  by (simp add: seg_def)

lemma comps_Nil: "seg s = [] \<Longrightarrow> comps s = []"
  by (simp add: comps.simps [of s])

lemma comps_Cons: "seg s \<noteq> [] \<Longrightarrow> comps s = seg s # comps (seg_end s)"
  by (simp add: comps.simps [of s])

lemma good_seg: "seg s \<noteq> [] \<Longrightarrow> good_comp (seg s)"
  by (auto simp: good_comp_def seg_def dest: set_takeWhileD)

lemma comps_good: "list_all good_comp (comps s)"
  by (induction s rule: comps.induct) (subst comps.simps, auto simp: good_seg)

lemma render_snoc: "render (st @ [c]) = join_slash st @ ''/'' @ c"
  by (simp add: render_def)

lemma render_Cons_hd: "\<exists>r. render st = CHR ''/'' # r"
  by (cases st) (auto simp: render_def)

lemma render_not_Nil [simp]: "render st \<noteq> []"
  using render_Cons_hd [of st] by auto

lemma hd_render [simp]: "hd (render st) = CHR ''/''"
  using render_Cons_hd [of st] by auto

lemma good_comp_last: "good_comp c \<Longrightarrow> last c \<noteq> CHR ''/''"
  by (metis good_comp_def last_in_set)

lemma ends_slash_render: "list_all good_comp st \<Longrightarrow> ends_slash (render st) \<longleftrightarrow> st = []"
  by (cases st rule: rev_cases)
    (auto simp: ends_slash_def render_snoc render_def [of "[]"] good_comp_def dest: last_in_set)

lemma ends_slash_snoc [simp]: "ends_slash (out @ ''/'')"
  by (simp add: ends_slash_def)

lemma rep_not_Nil: "rep out st \<Longrightarrow> out \<noteq> []"
  using render_not_Nil [of st] by (auto simp: rep_def simp del: render_not_Nil)

subsection \<open>Unwinding drops the last component\<close>

lemma back_to_slash_stop:
  assumes "CHR ''/'' \<notin> set c" and "k \<le> length c"
  shows "back_to_slash (P @ ''/'' @ c) (length P + 1 + k) = length P + 1"
  using assms(2)
proof (induction k)
  case 0
  then show ?case by (simp add: nth_append)
next
  case (Suc k)
  then have "c ! k \<noteq> CHR ''/''"
    using assms(1) by (metis Suc_le_lessD nth_mem)
  with Suc show ?case by (simp add: nth_append)
qed

lemma unwind_last:
  assumes "CHR ''/'' \<notin> set c"
  shows "c \<noteq> [] \<Longrightarrow> unwind (P @ ''/'' @ c) = P @ ''/''"
    and "c \<noteq> [] \<Longrightarrow> unwind (P @ ''/'' @ c @ ''/'') = P @ ''/''"
proof -
  assume c: "c \<noteq> []"
  have "back_to_slash (P @ ''/'' @ c) (length P + 1 + (length c - 1)) = length P + 1"
    using assms by (intro back_to_slash_stop) auto
  moreover have "length (P @ ''/'' @ c) - 1 = length P + 1 + (length c - 1)"
    using c by (cases c) auto
  ultimately have "back_to_slash (P @ ''/'' @ c) (length (P @ ''/'' @ c) - 1) = length P + 1"
    by metis
  then show "unwind (P @ ''/'' @ c) = P @ ''/''"
    by (simp only: unwind_def) simp
next
  have buf: "back_to_slash (xs @ ys) d = back_to_slash xs d" if "d \<le> length xs" for xs ys d
    using that by (induction d) (auto simp: nth_append)
  have "back_to_slash (P @ ''/'' @ c) (length P + 1 + length c) = length P + 1"
    using assms by (intro back_to_slash_stop) auto
  then have "back_to_slash ((P @ ''/'' @ c) @ ''/'') (length P + 1 + length c) = length P + 1"
    by (subst buf) auto
  then show "unwind (P @ ''/'' @ c @ ''/'') = P @ ''/''"
    by (simp add: unwind_def)
qed

lemma rep_join_slash: "list_all good_comp st \<Longrightarrow> rep (join_slash st @ ''/'') st"
  by (auto simp: rep_def render_def)

lemma unwind_rep:
  assumes "rep out (st @ [c])"
  shows "unwind out = join_slash st @ ''/''" and "rep (unwind out) st"
proof -
  have gc: "good_comp c" "list_all good_comp st"
    using assms by (auto simp: rep_def)
  then show *: "unwind out = join_slash st @ ''/''"
    using assms unwind_last [of c "join_slash st"]
    by (auto simp: rep_def render_snoc good_comp_def)
  show "rep (unwind out) st"
    unfolding * using gc by (simp add: rep_join_slash)
qed

lemma rep_short:
  assumes "rep out st"
  shows "length out \<le> 1 \<longleftrightarrow> st = []"
proof (cases st rule: rev_cases)
  case Nil
  then show ?thesis using assms by (auto simp: rep_def render_def)
next
  case (snoc ys c)
  then have "good_comp c" "length out \<ge> length (join_slash ys @ ''/'' @ c)"
    using assms by (auto simp: rep_def render_snoc)
  then show ?thesis using snoc by (cases c) (auto simp: good_comp_def)
qed

lemma rep_dotdot:
  assumes "rep out st"
  shows "rep (snd (do_clean_path_continue ''..'' out)) (butlast st)"
proof (cases st rule: rev_cases)
  case Nil
  then show ?thesis using assms rep_short [OF assms] by (simp add: do_clean_path_continue_def)
next
  case (snoc ys c)
  then show ?thesis
    using assms rep_short [OF assms] unwind_rep [of out ys c]
    by (simp add: do_clean_path_continue_def)
qed

lemma rep_push:
  assumes "rep out st" and "good_comp c"
  shows "rep ((if \<not> ends_slash out then out @ ''/'' else out) @ c) (st @ [c])"
proof -
  have st: "list_all good_comp st" using assms(1) by (simp add: rep_def)
  have "(if \<not> ends_slash out then out @ ''/'' else out) = join_slash st @ ''/''"
    using assms(1) ends_slash_render [OF st]
    by (auto simp: rep_def render_def ends_slash_def split: if_splits)
  with st assms(2) show ?thesis by (simp add: rep_def render_snoc)
qed

lemma strip_rep: "rep out st \<Longrightarrow> strip_last_slash 1 out = render st"
  using ends_slash_render [of st]
  by (auto simp: rep_def strip_last_slash_def butlast_append) (auto simp: render_def split: if_splits)

subsection \<open>The loop computes the normalised stack\<close>

lemma foldl_norm_good: "list_all good_comp st \<Longrightarrow> list_all good_comp cs \<Longrightarrow> list_all good_comp (foldl norm_step st cs)"
proof (induction cs arbitrary: st)
  case (Cons c cs)
  have "list_all good_comp (norm_step st c)"
    using Cons.prems by (auto simp: list_all_iff dest: in_set_butlastD)
  with Cons.IH Cons.prems show ?case by (simp del: norm_step.simps)
qed simp

lemma foldl_norm_proper:
  "list_all proper_comp st \<Longrightarrow> list_all good_comp cs \<Longrightarrow> list_all proper_comp (foldl norm_step st cs)"
proof (induction cs arbitrary: st)
  case (Cons c cs)
  have "list_all proper_comp (norm_step st c)"
    using Cons.prems by (auto simp: list_all_iff proper_comp_def dest: in_set_butlastD)
  with Cons.IH Cons.prems show ?case by (simp del: norm_step.simps)
qed simp

lemma do_clean_path_end: "seg s = [] \<Longrightarrow> do_clean_path limit s out = Some out"
  by (simp add: do_clean_path.simps [of limit s out])

lemma do_clean_path_skip:
  "seg s \<noteq> [] \<Longrightarrow> fst (do_clean_path_continue (seg s) out) \<Longrightarrow>
   do_clean_path limit s out = do_clean_path limit (seg_end s) (snd (do_clean_path_continue (seg s) out))"
  by (auto simp: do_clean_path.simps [of limit s out])

abbreviation with_slash :: "string \<Rightarrow> string" where
  "with_slash out \<equiv> (if \<not> ends_slash out then out @ ''/'' else out)"

lemma do_clean_path_push:
  "seg s \<noteq> [] \<Longrightarrow> \<not> fst (do_clean_path_continue (seg s) out) \<Longrightarrow>
   do_clean_path limit s out =
     (if length (with_slash out) + length (seg s) \<ge> limit then None
      else do_clean_path limit (seg_end s) (with_slash out @ seg s))"
  by (auto simp: do_clean_path.simps [of limit s out] Let_def)

lemma norm_step_skip:
  assumes "rep out st" and "fst (do_clean_path_continue c out)"
  shows "rep (snd (do_clean_path_continue c out)) (norm_step st c)"
  using assms rep_dotdot [OF assms(1)] by (auto simp: do_clean_path_continue_def split: if_splits)

lemma norm_step_push: "\<not> fst (do_clean_path_continue c out) \<Longrightarrow> norm_step st c = st @ [c]"
  by (auto simp: do_clean_path_continue_def split: if_splits)

lemma do_clean_path_rep:
  assumes "do_clean_path limit s out = Some out'" and "rep out st"
  shows "rep out' (foldl norm_step st (comps s))"
  using assms
proof (induction s arbitrary: out st rule: comps.induct)
  case (1 s)
  consider (stop) "seg s = []"
    | (skip) "seg s \<noteq> []" "fst (do_clean_path_continue (seg s) out)"
    | (push) "seg s \<noteq> []" "\<not> fst (do_clean_path_continue (seg s) out)"
    by blast
  then show ?case
  proof cases
    case stop
    with 1 show ?thesis by (simp add: do_clean_path_end comps_Nil)
  next
    case skip
    with 1 norm_step_skip [OF 1(3)] show ?thesis
      by (simp add: do_clean_path_skip comps_Cons del: norm_step.simps)
  next
    case push
    have "rep (with_slash out @ seg s) (norm_step st (seg s))"
      unfolding norm_step_push [OF push(2)] using 1(3) good_seg [OF push(1)] by (rule rep_push)
    moreover have "do_clean_path limit (seg_end s) (with_slash out @ seg s) = Some out'"
      using 1(2) push by (simp add: do_clean_path_push split: if_split_asm)
    ultimately show ?thesis
      using 1(1) push by (simp add: comps_Cons del: norm_step.simps)
  qed
qed

subsection \<open>When the buffer is large enough\<close>

lemma seg_end_slash: "seg_end s \<noteq> [] \<Longrightarrow> length (dropWhile ISSLASH (seg_end s)) < length (seg_end s)"
  unfolding seg_end_def
  by (metis (mono_tags, lifting) dropWhile.simps(2) hd_dropWhile le_imp_less_Suc length_Cons
      length_dropWhile_le list.collapse)

lemma unwind_length: "length (unwind out) \<le> length out"
  by (simp add: unwind_def)

lemma skip_length:
  assumes "rep out st"
  shows "length (with_slash (snd (do_clean_path_continue c out))) \<le> length (with_slash out)"
proof (cases "c = ''..'' \<and> length out > 1")
  case True
  with rep_short [OF assms] have "st \<noteq> []" by auto
  then obtain ys y where "st = ys @ [y]" by (cases st rule: rev_cases) auto
  with assms unwind_rep(1) [of out ys y] have "ends_slash (unwind out)" by simp
  with True unwind_length [of out] show ?thesis
    by (auto simp: do_clean_path_continue_def)
next
  case False
  then show ?thesis by (auto simp: do_clean_path_continue_def)
qed

definition fits :: "nat \<Rightarrow> string \<Rightarrow> string \<Rightarrow> bool" where
  "fits limit out s \<longleftrightarrow> (seg s = [] \<or> length (with_slash out) + length (dropWhile ISSLASH s) < limit)"

lemma fits_skip:
  assumes "fits limit out s" "seg s \<noteq> []" "length (with_slash out') \<le> length (with_slash out)"
  shows "fits limit out' (seg_end s)"
proof -
  have "length (dropWhile ISSLASH (seg_end s)) \<le> length (dropWhile ISSLASH s)"
    using seg_length [of s] length_dropWhile_le [of ISSLASH "seg_end s"] by linarith
  with assms show ?thesis by (auto simp: fits_def simp del: length_append)
qed

lemma fits_push:
  assumes "fits limit out s" "seg s \<noteq> []"
  shows "length (with_slash out) + length (seg s) < limit" "fits limit (with_slash out @ seg s) (seg_end s)"
proof -
  have len: "length (with_slash out) + length (seg s) + length (seg_end s) < limit"
    using assms seg_length [of s] by (simp add: fits_def)
  then show "length (with_slash out) + length (seg s) < limit" by linarith
  have "\<not> ends_slash (with_slash out @ seg s)"
    using assms(2) good_comp_last [OF good_seg [OF assms(2)]] by (simp add: ends_slash_def)
  then show "fits limit (with_slash out @ seg s) (seg_end s)"
    using len seg_end_slash [of s] by (cases "seg_end s = []") (auto simp: fits_def)
qed

lemma do_clean_path_fits:
  "rep out st \<Longrightarrow> fits limit out s \<Longrightarrow> \<exists>out'. do_clean_path limit s out = Some out'"
proof (induction s arbitrary: out st rule: comps.induct)
  case (1 s)
  consider (stop) "seg s = []"
    | (skip) "seg s \<noteq> []" "fst (do_clean_path_continue (seg s) out)"
    | (push) "seg s \<noteq> []" "\<not> fst (do_clean_path_continue (seg s) out)"
    by blast
  then show ?case
  proof cases
    case stop
    then show ?thesis by (simp add: do_clean_path_end)
  next
    case skip
    let ?o = "snd (do_clean_path_continue (seg s) out)"
    have "fits limit ?o (seg_end s)"
      using 1(3) skip(1) skip_length [OF 1(2)] by (rule fits_skip)
    with 1(1) [OF skip(1) norm_step_skip [OF 1(2) skip(2)]] skip show ?thesis
      by (simp add: do_clean_path_skip)
  next
    case push
    have "rep (with_slash out @ seg s) (st @ [seg s])"
      using 1(2) good_seg [OF push(1)] by (rule rep_push)
    from 1(1) [OF push(1) this fits_push(2) [OF 1(3) push(1)]] fits_push(1) [OF 1(3) push(1)] push
    show ?thesis by (simp add: do_clean_path_push)
  qed
qed

lemma do_clean_path_length:
  "do_clean_path limit s out = Some out' \<Longrightarrow> length out < limit \<Longrightarrow> length out' < limit"
proof (induction s arbitrary: out rule: comps.induct)
  case (1 s)
  consider (stop) "seg s = []"
    | (skip) "seg s \<noteq> []" "fst (do_clean_path_continue (seg s) out)"
    | (push) "seg s \<noteq> []" "\<not> fst (do_clean_path_continue (seg s) out)"
    by blast
  then show ?case
  proof cases
    case stop
    with 1 show ?thesis by (simp add: do_clean_path_end)
  next
    case skip
    have "length (snd (do_clean_path_continue (seg s) out)) \<le> length out"
      using unwind_length [of out] by (simp add: do_clean_path_continue_def)
    with 1 skip show ?thesis by (simp add: do_clean_path_skip)
  next
    case push
    have "length (with_slash out @ seg s) < limit"
      using 1(2) push by (simp add: do_clean_path_push split: if_split_asm)
    moreover have "do_clean_path limit (seg_end s) (with_slash out @ seg s) = Some out'"
      using 1(2) push by (simp add: do_clean_path_push split: if_split_asm)
    ultimately show ?thesis using 1(1) push(1) by blast
  qed
qed

subsection \<open>Correctness of \<open>util_clean_path\<close>\<close>

lemma seg_Cons:
  assumes "good_comp c" and "r = [] \<or> hd r = CHR ''/''"
  shows "seg (CHR ''/'' # c @ r) = c" and "seg_end (CHR ''/'' # c @ r) = r"
proof -
  obtain x xs where c: "c = x # xs" "x \<noteq> CHR ''/''"
    using assms(1) by (cases c) (auto simp: good_comp_def)
  have d: "dropWhile ISSLASH (CHR ''/'' # c @ r) = c @ r"
    using c by simp
  have all: "\<forall>y\<in>set c. y \<noteq> CHR ''/''"
    using assms(1) by (auto simp: good_comp_def)
  then show "seg (CHR ''/'' # c @ r) = c"
    unfolding seg_def d using assms(2) by (cases r) auto
  from all show "seg_end (CHR ''/'' # c @ r) = r"
    unfolding seg_end_def d using assms(2) by (cases r) auto
qed

lemma join_slash_hd: "join_slash st = [] \<or> hd (join_slash st) = CHR ''/''"
  by (cases st) auto

lemma comps_join_slash: "list_all good_comp st \<Longrightarrow> comps (join_slash st) = st"
proof (induction st)
  case Nil
  show ?case by (simp add: comps_Nil)
next
  case (Cons c st)
  then have "seg (join_slash (c # st)) = c" "seg_end (join_slash (c # st)) = join_slash st"
    using seg_Cons [of c "join_slash st"] join_slash_hd [of st] by auto
  with Cons show ?case by (simp add: comps_Cons good_comp_def)
qed

lemma comps_render: "list_all good_comp st \<Longrightarrow> comps (render st) = st"
  by (auto simp: render_def comps_join_slash comps_Nil seg_def)

lemma foldl_norm_id: "list_all proper_comp cs \<Longrightarrow> foldl norm_step st cs = st @ cs"
  by (induction cs arbitrary: st) (auto simp: proper_comp_def)

lemma proper_good: "list_all proper_comp st \<Longrightarrow> list_all good_comp st"
  by (auto simp: list_all_iff proper_comp_def)

lemma rep_render: "list_all good_comp st \<Longrightarrow> rep (render st) st"
  by (simp add: rep_def)

lemma with_slash_length: "length (with_slash out) \<le> length out + 1"
  by simp

lemma fits_relative: "length out + 1 + length p < limit \<Longrightarrow> fits limit out p"
  using with_slash_length [of out] length_dropWhile_le [of ISSLASH p] unfolding fits_def by linarith

lemma fits_absolute:
  assumes "p \<noteq> []" "ISSLASH (hd p)" "length p < limit"
  shows "fits limit ''/'' p"
proof -
  obtain q where "p = CHR ''/'' # q" using assms by (cases p) auto
  with assms(3) length_dropWhile_le [of ISSLASH q] show ?thesis
    by (simp add: fits_def ends_slash_def del: length_dropWhile_le')
qed

text \<open>
  The stack a path starts from: the root for an absolute path, the components of the current
  directory (which POSIX promises to be absolute and free of \<open>.\<close> and \<open>..\<close>) for a relative one.
\<close>

definition clean_input :: "string option \<Rightarrow> string \<Rightarrow> string list \<Rightarrow> bool" where
  "clean_input cwd p base \<longleftrightarrow> p \<noteq> [] \<and> list_all proper_comp base \<and>
     (if ISSLASH (hd p) then base = [] else cwd = Some (render base))"

definition clean_room :: "string \<Rightarrow> string list \<Rightarrow> bool" where
  "clean_room p base \<longleftrightarrow>
     (if ISSLASH (hd p) then length p < PATH_MAX else length (render base) + length p + 1 < PATH_MAX)"

lemma util_clean_path_eq:
  assumes "clean_input cwd p base" and "PATH_MAX \<le> n"
  shows "util_clean_path cwd (Some p) (Some n) =
    (if \<not> ISSLASH (hd p) \<and> length (render base) + length p + 1 \<ge> PATH_MAX then None
     else map_option (strip_last_slash 1) (do_clean_path PATH_MAX p (render base)))"
proof -
  have "render [] = ''/''" by (simp add: render_def)
  moreover have "length p \<ge> PATH_MAX - 1 - length d \<longleftrightarrow> length d + length p + 1 \<ge> PATH_MAX"
    if "length d < PATH_MAX" for d :: string
    using that by (auto simp: PATH_MAX_def)
  ultimately show ?thesis
    using assms by (auto simp: util_clean_path_def clean_input_def getcwd_def)
qed

lemma util_clean_path_normal_form:
  assumes "clean_input cwd p base" and "clean_room p base" and "PATH_MAX \<le> n"
  shows "util_clean_path cwd (Some p) (Some n) = Some (render (foldl norm_step base (comps p)))"
proof -
  have rep: "rep (render base) base"
    using assms(1) by (auto simp: clean_input_def intro: rep_render proper_good)
  have "fits PATH_MAX (render base) p"
  proof (cases "ISSLASH (hd p)")
    case True
    with assms fits_absolute [of p PATH_MAX] show ?thesis
      by (auto simp: clean_input_def clean_room_def render_def)
  next
    case False
    with assms show ?thesis by (intro fits_relative) (auto simp: clean_room_def)
  qed
  from do_clean_path_fits [OF rep this] obtain out' where
    out': "do_clean_path PATH_MAX p (render base) = Some out'" by blast
  from do_clean_path_rep [OF this rep] have "rep out' (foldl norm_step base (comps p))" .
  from strip_rep [OF this] out' assms(2) show ?thesis
    by (auto simp: util_clean_path_eq [OF assms(1,3)] clean_room_def split: if_splits)
qed

text \<open>
  C7. \<open>util_clean_path\<close> computes the lexical normal form of a path: with the current directory
  as the starting stack for a relative path, every \<open>.\<close> is dropped, every \<open>..\<close> pops a component
  (and stays at the root), repeated and trailing slashes vanish, and the result is the absolute
  path of the remaining stack, whenever the path fits into \<open>PATH_MAX\<close>.
\<close>

theorem util_clean_path_normalises:
  assumes "clean_input cwd p base" and "clean_room p base" and "PATH_MAX \<le> n"
  shows "util_clean_path cwd (Some p) (Some n) = Some (render (foldl norm_step base (comps p)))"
  using assms by (rule util_clean_path_normal_form)

theorem util_clean_path_normalises_witness:
  "clean_input (Some ''/w'') ''../a/./b//../c/'' [''w''] \<and> clean_room ''../a/./b//../c/'' [''w''] \<and>
   PATH_MAX \<le> 4096 \<and> util_clean_path (Some ''/w'') (Some ''../a/./b//../c/'') (Some 4096) = Some ''/a/c''"
proof -
  have h: "clean_input (Some ''/w'') ''../a/./b//../c/'' [''w'']" "clean_room ''../a/./b//../c/'' [''w'']"
    "PATH_MAX \<le> 4096"
    by (simp_all add: clean_input_def clean_room_def proper_comp_def good_comp_def render_def PATH_MAX_def)
  have "render (foldl norm_step [''w''] (comps ''../a/./b//../c/'')) = ''/a/c''"
    by (simp add: comps.simps seg_def seg_end_def render_def)
  with util_clean_path_normalises [OF h] h show ?thesis by simp
qed

lemma util_clean_path_result:
  assumes "clean_input cwd p base" and "util_clean_path cwd (Some p) (Some n) = Some r"
  shows "\<exists>st. list_all proper_comp st \<and> r = render st \<and> length r < PATH_MAX"
proof -
  have n: "PATH_MAX \<le> n"
    using assms by (auto simp: util_clean_path_def clean_input_def split: if_splits)
  have rep: "rep (render base) base"
    using assms(1) by (auto simp: clean_input_def intro: rep_render proper_good)
  from assms(2) obtain out' where out': "do_clean_path PATH_MAX p (render base) = Some out'"
    and r: "r = strip_last_slash 1 out'"
    and len: "ISSLASH (hd p) \<or> length (render base) + length p + 1 < PATH_MAX"
    by (auto simp: util_clean_path_eq [OF assms(1) n] split: if_splits)
  let ?st = "foldl norm_step base (comps p)"
  have "list_all proper_comp ?st"
    using assms(1) by (auto simp: clean_input_def intro: foldl_norm_proper comps_good)
  moreover have "r = render ?st"
    unfolding r using do_clean_path_rep [OF out' rep] by (rule strip_rep)
  moreover have "length (render base) < PATH_MAX"
    using len assms(1) by (auto simp: clean_input_def PATH_MAX_def render_def)
  then have "length r < PATH_MAX"
    using do_clean_path_length [OF out'] by (auto simp: r strip_last_slash_def)
  ultimately show ?thesis by blast
qed

lemma util_clean_path_again:
  assumes "clean_input cwd p base" and "util_clean_path cwd (Some p) (Some n) = Some r"
  shows "list_all proper_comp (comps r)" "r = render (comps r)" "length r < PATH_MAX"
    "util_clean_path cwd' (Some r) (Some n) = Some r"
proof -
  from util_clean_path_result [OF assms] obtain st where
    st: "list_all proper_comp st" "r = render st" "length r < PATH_MAX" by blast
  have n: "PATH_MAX \<le> n"
    using assms by (auto simp: util_clean_path_def clean_input_def split: if_splits)
  have cs: "comps r = st"
    using st by (auto intro: comps_render proper_good)
  have "clean_input cwd' r []" "clean_room r []"
    using st by (auto simp: clean_input_def clean_room_def)
  from util_clean_path_normal_form [OF this n] show "util_clean_path cwd' (Some r) (Some n) = Some r"
    using st by (simp add: cs [unfolded st(2)] foldl_norm_id)
  show "list_all proper_comp (comps r)" "r = render (comps r)" "length r < PATH_MAX"
    using st cs by simp_all
qed

text \<open>
  Whatever \<open>util_clean_path\<close> returns is a clean absolute path shorter than \<open>PATH_MAX\<close>, and
  cleaning it again, from any directory, gives it back unchanged.
\<close>

theorem util_clean_path_idempotent:
  assumes "clean_input cwd p base" and "util_clean_path cwd (Some p) (Some n) = Some r"
  shows "list_all proper_comp (comps r) \<and> r = render (comps r) \<and> length r < PATH_MAX \<and>
         util_clean_path cwd' (Some r) (Some n) = Some r"
  using util_clean_path_again [OF assms] by simp

theorem util_clean_path_idempotent_witness:
  "clean_input None ''/a/../b/'' [] \<and> util_clean_path None (Some ''/a/../b/'') (Some 4096) = Some ''/b'' \<and>
   util_clean_path (Some ''/w'') (Some ''/b'') (Some 4096) = Some ''/b''"
proof -
  have h: "clean_input None ''/a/../b/'' []" "util_clean_path None (Some ''/a/../b/'') (Some 4096) = Some ''/b''"
    by (simp_all add: clean_input_def path_eval)
  from h util_clean_path_idempotent [OF h, of "Some ''/w''"] show ?thesis by simp
qed

section \<open>Following symbolic links inside a root\<close>

text \<open>
  The state of the loop of \<open>do_eval_symlinks_in_scope\<close>: the unread input, the bytes of \<open>rpath\<close>
  written so far, the size of the \<open>rpath\<close> buffer, the number of links followed, whether
  \<open>extra_buf\<close> is allocated, and how many allocations were made.
\<close>

record es =
  es_rest :: string
  es_out :: string
  es_cap :: nat
  es_links :: nat
  es_extra :: bool
  es_mem :: nat

datatype es_result = Stop string | Fail | Next es

text \<open>
  \<open>do_path_realloc\<close>: grow the buffer when the next component does not fit.  \<open>util_mem_realloc\<close>
  is always told that the old buffer holds \<open>PATH_MAX\<close> bytes, so only those are copied.
\<close>

definition copy_old :: "string \<Rightarrow> string" where
  "copy_old out = take PATH_MAX out @ replicate (length out - PATH_MAX) (CHR 0x00)"

definition do_path_realloc :: "alloc \<Rightarrow> string \<Rightarrow> es \<Rightarrow> es option" where
  "do_path_realloc mem nm s =
     (if length (es_out s) + length nm < es_cap s then Some s
      else
        let gap = length nm + 1 in
        if es_cap s > SIZE_MAX - gap then None
        else
          let new_size = (if gap > PATH_MAX then es_cap s + gap else es_cap s + PATH_MAX) in
          if \<not> util_common_calloc_s (mem (es_mem s)) new_size then None
          else Some (s\<lparr>es_out := copy_old (es_out s), es_cap := new_size, es_mem := Suc (es_mem s)\<rparr>))"

definition skip_dest_trailing_slash :: "nat \<Rightarrow> string \<Rightarrow> string" where
  "skip_dest_trailing_slash prefix_len out = (if length out > prefix_len + 1 then unwind out else out)"

definition do_get_symlinks_copy_buf :: "string \<Rightarrow> string \<Rightarrow> nat \<Rightarrow> string \<Rightarrow> string" where
  "do_get_symlinks_copy_buf buf pre prefix_len out =
     (if buf \<noteq> [] \<and> ISSLASH (hd buf) then take prefix_len pre @ ''/''
      else if length out > prefix_len + 1 then unwind out else out)"

definition do_get_symlinks ::
  "(string \<Rightarrow> string option) \<Rightarrow> alloc \<Rightarrow> string \<Rightarrow> nat \<Rightarrow> es \<Rightarrow> es option" where
  "do_get_symlinks rdlink mem pre prefix_len s =
     (let num_links = Suc (es_links s); k = es_mem s in
      if num_links > MAXSYMLINKS then None
      else if \<not> util_common_calloc_s (mem k) PATH_MAX then None
      else case rdlink (es_out s) of
        None \<Rightarrow> None
      | Some target \<Rightarrow>
          let buf = take (PATH_MAX - 1) target in
          if \<not> es_extra s \<and> \<not> util_common_calloc_s (mem (Suc k)) PATH_MAX then None
          else if length (es_rest s) \<ge> PATH_MAX - length buf then None
          else Some (s\<lparr>es_rest := buf @ es_rest s,
                       es_out := do_get_symlinks_copy_buf buf pre prefix_len (es_out s),
                       es_links := num_links, es_extra := True,
                       es_mem := (if es_extra s then Suc k else Suc (Suc k))\<rparr>))"

text \<open>
  One iteration of the loop.  Note that \<open>do_eval_symlinks_in_scope_is_symlink\<close> answers true
  when the path is \<^emph>\<open>not\<close> a link, which is why the loop then continues.
\<close>

definition do_eval_symlinks_in_scope_is_symlink :: "(string \<Rightarrow> bool) \<Rightarrow> string \<Rightarrow> bool" where
  "do_eval_symlinks_in_scope_is_symlink is_lnk path = (\<not> is_lnk path)"

definition eval_step ::
  "(string \<Rightarrow> bool) \<Rightarrow> (string \<Rightarrow> string option) \<Rightarrow> alloc \<Rightarrow> string \<Rightarrow> nat \<Rightarrow> es \<Rightarrow> es_result" where
  "eval_step is_lnk rdlink mem pre prefix_len s =
     (let nm = seg (es_rest s); e = seg_end (es_rest s) in
      if es_rest s = [] then Stop (es_out s)
      else if nm = [] then Stop (es_out s)
      else if nm = ''.'' then Next (s\<lparr>es_rest := e\<rparr>)
      else if nm = ''..'' then
        Next (s\<lparr>es_rest := e, es_out := skip_dest_trailing_slash prefix_len (es_out s)\<rparr>)
      else
        case do_path_realloc mem nm (s\<lparr>es_out := with_slash (es_out s)\<rparr>) of
          None \<Rightarrow> Fail
        | Some s1 \<Rightarrow>
            let s2 = s1\<lparr>es_rest := e, es_out := es_out s1 @ nm\<rparr> in
            if do_eval_symlinks_in_scope_is_symlink is_lnk (es_out s2) then Next s2
            else case do_get_symlinks rdlink mem pre prefix_len s2 of
              None \<Rightarrow> Fail | Some s3 \<Rightarrow> Next s3)"

lemma do_path_realloc_frame:
  "do_path_realloc mem nm s = Some s1 \<Longrightarrow>
   es_rest s1 = es_rest s \<and> es_links s1 = es_links s \<and> es_extra s1 = es_extra s"
  by (auto simp: do_path_realloc_def Let_def split: if_splits)

lemma do_get_symlinks_links:
  "do_get_symlinks rdlink mem pre pl s = Some s3 \<Longrightarrow>
   es_links s3 = Suc (es_links s) \<and> es_links s3 \<le> MAXSYMLINKS"
  by (auto simp: do_get_symlinks_def Let_def split: if_splits option.splits)

lemma eval_step_progress:
  assumes "eval_step is_lnk rdlink mem pre pl s = Next s'"
  shows "es_links s' = es_links s \<and> length (es_rest s') < length (es_rest s) \<or>
         es_links s' = Suc (es_links s) \<and> es_links s' \<le> MAXSYMLINKS"
proof -
  have sh: "seg (es_rest s) \<noteq> [] \<Longrightarrow> length (seg_end (es_rest s)) < length (es_rest s)"
    by (rule seg_end_shorter)
  show ?thesis
    using assms sh
    by (auto simp: eval_step_def Let_def split: if_splits option.splits
        dest!: do_path_realloc_frame do_get_symlinks_links)
qed

function do_eval_symlinks_in_scope ::
  "(string \<Rightarrow> bool) \<Rightarrow> (string \<Rightarrow> string option) \<Rightarrow> alloc \<Rightarrow> string \<Rightarrow> nat \<Rightarrow> es \<Rightarrow> string option" where
  "do_eval_symlinks_in_scope is_lnk rdlink mem pre prefix_len s =
     (case eval_step is_lnk rdlink mem pre prefix_len s of
        Stop out \<Rightarrow> Some out
      | Fail \<Rightarrow> None
      | Next s' \<Rightarrow> do_eval_symlinks_in_scope is_lnk rdlink mem pre prefix_len s')"
  by pat_completeness auto

termination do_eval_symlinks_in_scope
proof (relation "measures [\<lambda>(i, r, m, p, n, s). Suc MAXSYMLINKS - es_links s, \<lambda>(i, r, m, p, n, s). length (es_rest s)]")
  fix is_lnk rdlink mem pre pl s s'
  assume "eval_step is_lnk rdlink mem pre pl s = Next s'"
  from eval_step_progress [OF this]
  show "((is_lnk, rdlink, mem, pre, pl, s'), is_lnk, rdlink, mem, pre, pl, s)
     \<in> measures [\<lambda>(i, r, m, p, n, s). Suc MAXSYMLINKS - es_links s, \<lambda>(i, r, m, p, n, s). length (es_rest s)]"
    by auto
qed simp

declare do_eval_symlinks_in_scope.simps [simp del]

definition eval_symlinks_in_scope ::
  "(string \<Rightarrow> bool) \<Rightarrow> (string \<Rightarrow> string option) \<Rightarrow> alloc \<Rightarrow> string option \<Rightarrow>
   string option \<Rightarrow> string option \<Rightarrow> string option" where
  "eval_symlinks_in_scope is_lnk rdlink mem cwd fullpath rootpath =
     (case (fullpath, rootpath) of
        (Some full, Some _) \<Rightarrow>
          (case util_clean_path cwd rootpath (Some PATH_MAX) of
             None \<Rightarrow> None
           | Some root \<Rightarrow>
               if full = root then Some full
               else if strstr full root = None then None
               else if \<not> util_common_calloc_s (mem 0) PATH_MAX then None
               else
                 let prefix_len = (if root = ''/'' then 0 else length root) in
                 if prefix_len \<ge> PATH_MAX - 1 then None
                 else map_option (strip_last_slash (prefix_len + 1))
                        (do_eval_symlinks_in_scope is_lnk rdlink mem root prefix_len
                           \<lparr>es_rest = drop prefix_len full, es_out = take prefix_len root @ ''/'',
                            es_cap = PATH_MAX, es_links = 0, es_extra = False, es_mem = 1\<rparr>))
      | _ \<Rightarrow> None)"

definition util_follow_symlink_in_scope ::
  "(string \<Rightarrow> bool) \<Rightarrow> (string \<Rightarrow> string option) \<Rightarrow> alloc \<Rightarrow> string option \<Rightarrow>
   string option \<Rightarrow> string option \<Rightarrow> string option" where
  "util_follow_symlink_in_scope is_lnk rdlink mem cwd fullpath rootpath =
     (case util_clean_path cwd fullpath (Some PATH_MAX) of
        None \<Rightarrow> None
      | Some full \<Rightarrow>
          (case util_clean_path cwd rootpath (Some PATH_MAX) of
             None \<Rightarrow> None
           | Some root \<Rightarrow> eval_symlinks_in_scope is_lnk rdlink mem cwd (Some full) (Some root)))"

subsection \<open>The invariant of the loop\<close>

text \<open>
  Below the prefix \<open>P\<close> of the root, the buffer holds a stack \<open>st\<close> of proper components, and no
  prefix of that stack is a symbolic link.  The input and the buffer together stay below two
  \<open>PATH_MAX\<close>, so that the buffer is grown at most once and nothing is lost in the copy.
\<close>

definition scoped :: "(string \<Rightarrow> bool) \<Rightarrow> string \<Rightarrow> es \<Rightarrow> string list \<Rightarrow> bool" where
  "scoped is_lnk P s st \<longleftrightarrow>
     (\<exists>o'. es_out s = P @ o' \<and> rep o' st) \<and> list_all proper_comp st \<and>
     (\<forall>i \<le> length st. 0 < i \<longrightarrow> \<not> is_lnk (P @ join_slash (take i st)))"

definition roomy :: "es \<Rightarrow> bool" where
  "roomy s \<longleftrightarrow>
     (ends_slash (es_out s) \<or> es_rest s = [] \<or> ISSLASH (hd (es_rest s))) \<and>
     length (es_out s) + length (es_rest s) \<le> 2 * PATH_MAX - 2 \<and>
     (es_cap s = PATH_MAX \<or> es_cap s \<ge> 2 * PATH_MAX) \<and> length (es_out s) < es_cap s"

lemma unwind_prefix:
  assumes "rep o' (st @ [c])"
  shows "unwind (P @ o') = P @ join_slash st @ ''/''"
proof -
  have "CHR ''/'' \<notin> set c" "c \<noteq> []"
    using assms by (auto simp: rep_def good_comp_def)
  with assms unwind_last [of c "P @ join_slash st"] show ?thesis
    by (auto simp: rep_def render_snoc)
qed

lemma with_slash_prefix: "rep o' st \<Longrightarrow> with_slash (P @ o') = P @ join_slash st @ ''/''"
  using ends_slash_render [of st] rep_not_Nil [of o' st]
  by (auto simp: rep_def ends_slash_def render_def split: if_splits)

lemma seg_end_hd: "seg_end s = [] \<or> ISSLASH (hd (seg_end s))"
  unfolding seg_end_def by (metis (mono_tags, lifting) hd_dropWhile)

lemma seg_with_slash_length:
  assumes "ends_slash out \<or> r = [] \<or> ISSLASH (hd r)" "seg r \<noteq> []"
  shows "length (with_slash out) + length (seg r) + length (seg_end r) \<le> length out + length r"
proof (cases "ends_slash out")
  case True
  with seg_length [of r] length_dropWhile_le [of ISSLASH r] show ?thesis by simp
next
  case False
  with assms obtain q where r: "r = CHR ''/'' # q" by (cases r) auto
  have "length (dropWhile ISSLASH r) \<le> length q"
    using length_dropWhile_le [of ISSLASH q] by (simp add: r)
  with False seg_length [of r] r show ?thesis by simp
qed

lemma do_path_realloc_lossless:
  assumes "do_path_realloc mem nm s = Some s1" "length (es_out s) \<le> es_cap s"
    and "es_cap s = PATH_MAX \<or> es_cap s \<ge> 2 * PATH_MAX"
    and "length (es_out s) + length nm \<le> 2 * PATH_MAX - 2"
  shows "es_out s1 = es_out s \<and> (es_cap s1 = PATH_MAX \<or> es_cap s1 \<ge> 2 * PATH_MAX) \<and>
         length (es_out s) + length nm < es_cap s1"
  using assms
  by (auto simp: do_path_realloc_def copy_old_def Let_def PATH_MAX_def split: if_splits)

lemma scoped_push:
  assumes "scoped is_lnk P s st" and "proper_comp c" and "\<not> is_lnk (P @ join_slash (st @ [c]))"
    and "es_out s' = P @ join_slash st @ ''/'' @ c"
  shows "scoped is_lnk P s' (st @ [c])"
proof -
  have "rep (render (st @ [c])) (st @ [c])"
    using assms(1,2) by (intro rep_render) (auto simp: scoped_def proper_comp_def intro: proper_good)
  with assms show ?thesis
    by (auto simp: scoped_def render_snoc le_Suc_eq proper_comp_def)
qed

lemma scoped_pop:
  assumes "scoped is_lnk P s st" and "es_out s' = P @ join_slash (take i st) @ ''/''"
  shows "scoped is_lnk P s' (take i st)"
proof -
  have "list_all proper_comp (take i st)"
    using assms(1) by (auto simp: scoped_def list_all_iff dest: in_set_takeD)
  moreover from this have "rep (join_slash (take i st) @ ''/'') (take i st)"
    by (intro rep_join_slash proper_good)
  ultimately show ?thesis
    using assms by (auto simp: scoped_def min_def)
qed

lemma eval_step_Next:
  assumes "eval_step is_lnk rdlink mem pre pl s = Next s'"
  obtains (dot) "seg (es_rest s) = ''.''" "s' = s\<lparr>es_rest := seg_end (es_rest s)\<rparr>"
  | (dotdot) "seg (es_rest s) = ''..''"
      "s' = s\<lparr>es_rest := seg_end (es_rest s), es_out := skip_dest_trailing_slash pl (es_out s)\<rparr>"
  | (push) s1 where "proper_comp (seg (es_rest s))"
      "do_path_realloc mem (seg (es_rest s)) (s\<lparr>es_out := with_slash (es_out s)\<rparr>) = Some s1"
      "\<not> is_lnk (es_out s1 @ seg (es_rest s))"
      "s' = s1\<lparr>es_rest := seg_end (es_rest s), es_out := es_out s1 @ seg (es_rest s)\<rparr>"
  | (link) s1 where "proper_comp (seg (es_rest s))"
      "do_path_realloc mem (seg (es_rest s)) (s\<lparr>es_out := with_slash (es_out s)\<rparr>) = Some s1"
      "is_lnk (es_out s1 @ seg (es_rest s))"
      "do_get_symlinks rdlink mem pre pl
         (s1\<lparr>es_rest := seg_end (es_rest s), es_out := es_out s1 @ seg (es_rest s)\<rparr>) = Some s'"
proof -
  have "seg (es_rest s) \<noteq> [] \<Longrightarrow> seg (es_rest s) \<noteq> ''.'' \<Longrightarrow> seg (es_rest s) \<noteq> ''..'' \<Longrightarrow>
        proper_comp (seg (es_rest s))"
    by (simp add: proper_comp_def good_seg)
  with assms that show thesis
    by (auto simp: eval_step_def do_eval_symlinks_in_scope_is_symlink_def Let_def
        split: if_splits option.splits)
qed

lemma roomy_shrink:
  assumes "roomy s" "length (es_out s') \<le> length (es_out s)" "length (es_rest s') \<le> length (es_rest s)"
    and "es_cap s' = es_cap s" "ends_slash (es_out s') \<or> es_rest s' = [] \<or> ISSLASH (hd (es_rest s'))"
  shows "roomy s'"
  using assms by (auto simp: roomy_def)

lemma skip_dest_scoped:
  assumes "scoped is_lnk P s st"
  shows "skip_dest_trailing_slash (length P) (es_out s) =
           (if st = [] then es_out s else P @ join_slash (butlast st) @ ''/'')"
    and "ends_slash (skip_dest_trailing_slash (length P) (es_out s))"
proof -
  from assms obtain o' where o': "es_out s = P @ o'" "rep o' st" by (auto simp: scoped_def)
  show *: "skip_dest_trailing_slash (length P) (es_out s) =
           (if st = [] then es_out s else P @ join_slash (butlast st) @ ''/'')"
    using o' rep_short [OF o'(2)] unwind_prefix [of o' "butlast st" "last st" P]
    by (auto simp: skip_dest_trailing_slash_def)
  have "st = [] \<Longrightarrow> o' = ''/''" using o'(2) by (simp add: rep_def render_def)
  then show "ends_slash (skip_dest_trailing_slash (length P) (es_out s))"
    unfolding * using o' by (auto simp: ends_slash_def)
qed

lemma realloc_scoped:
  assumes "scoped is_lnk P s st" "roomy s" "seg (es_rest s) \<noteq> []"
    and "do_path_realloc mem (seg (es_rest s)) (s\<lparr>es_out := with_slash (es_out s)\<rparr>) = Some s1"
  shows "es_out s1 = P @ join_slash st @ ''/''"
    and "es_cap s1 = PATH_MAX \<or> es_cap s1 \<ge> 2 * PATH_MAX"
    and "length (es_out s1) + length (seg (es_rest s)) < es_cap s1"
    and "length (es_out s1) + length (seg (es_rest s)) + length (seg_end (es_rest s)) \<le> 2 * PATH_MAX - 2"
proof -
  from assms(1) obtain o' where o': "es_out s = P @ o'" "rep o' st" by (auto simp: scoped_def)
  have len: "length (with_slash (es_out s)) + length (seg (es_rest s)) + length (seg_end (es_rest s))
             \<le> 2 * PATH_MAX - 2"
    using seg_with_slash_length [of "es_out s" "es_rest s"] assms(2,3) by (simp add: roomy_def)
  have "es_out s1 = with_slash (es_out s) \<and> (es_cap s1 = PATH_MAX \<or> es_cap s1 \<ge> 2 * PATH_MAX) \<and>
        length (with_slash (es_out s)) + length (seg (es_rest s)) < es_cap s1"
    using do_path_realloc_lossless [OF assms(4)] assms(2) len by (auto simp: roomy_def)
  moreover have w: "with_slash (es_out s) = P @ join_slash st @ ''/''"
    unfolding o'(1) by (rule with_slash_prefix [OF o'(2)])
  ultimately show "es_out s1 = P @ join_slash st @ ''/''"
    and "es_cap s1 = PATH_MAX \<or> es_cap s1 \<ge> 2 * PATH_MAX"
    and "length (es_out s1) + length (seg (es_rest s)) < es_cap s1"
    and "length (es_out s1) + length (seg (es_rest s)) + length (seg_end (es_rest s)) \<le> 2 * PATH_MAX - 2"
    using len unfolding w by simp_all
qed

lemma do_get_symlinks_Some:
  assumes "do_get_symlinks rdlink mem pre pl s = Some s'"
  shows "\<exists>buf. es_out s' = do_get_symlinks_copy_buf buf pre pl (es_out s) \<and>
      es_rest s' = buf @ es_rest s \<and> es_cap s' = es_cap s \<and> length (es_rest s') < PATH_MAX"
  using assms by (auto simp: do_get_symlinks_def Let_def split: if_splits option.splits)

lemma copy_buf_scoped:
  assumes "take (length P) pre = P" "list_all proper_comp st" "proper_comp c"
  shows "do_get_symlinks_copy_buf buf pre (length P) (P @ join_slash (st @ [c])) \<in>
         {P @ ''/'', P @ join_slash st @ ''/''}"
proof -
  have "rep (render (st @ [c])) (st @ [c])"
    using assms by (intro rep_render) (auto simp: proper_comp_def list_all_iff)
  then have "unwind (P @ join_slash (st @ [c])) = P @ join_slash st @ ''/''"
    using unwind_prefix [of "render (st @ [c])" st c P] by (simp add: render_def)
  moreover have "length (P @ join_slash (st @ [c])) > length P + 1"
    using assms(3) by (cases c) (auto simp: proper_comp_def good_comp_def)
  ultimately show ?thesis
    using assms(1) by (auto simp: do_get_symlinks_copy_buf_def)
qed

lemma eval_step_inv:
  assumes inv: "scoped is_lnk P s st" "roomy s"
    and P: "take (length P) pre = P" "length P < PATH_MAX - 1"
    and long: "\<And>p. length p \<ge> PATH_MAX \<Longrightarrow> \<not> is_lnk p"
    and step: "eval_step is_lnk rdlink mem pre (length P) s = Next s'"
  shows "\<exists>st'. scoped is_lnk P s' st' \<and> roomy s'"
  using step
proof (cases rule: eval_step_Next)
  case dot
  then have "scoped is_lnk P s' st" using inv(1) by (simp add: scoped_def)
  moreover have "roomy s'"
    using inv(2) dot seg_end_shorter [of "es_rest s"] seg_end_hd [of "es_rest s"]
    by (auto intro!: roomy_shrink [OF inv(2)])
  ultimately show ?thesis by blast
next
  case dotdot
  have "scoped is_lnk P s' (butlast st)"
    using scoped_pop [of is_lnk P s st s' "length st - 1"] skip_dest_scoped(1) [OF inv(1)] inv(1) dotdot
    by (cases "st = []") (auto simp: butlast_conv_take scoped_def)
  moreover have "roomy s'"
    using dotdot seg_end_shorter [of "es_rest s"] skip_dest_scoped(2) [OF inv(1)] unwind_length
    by (auto intro!: roomy_shrink [OF inv(2)] simp: skip_dest_trailing_slash_def)
  ultimately show ?thesis by blast
next
  case (push s1)
  let ?c = "seg (es_rest s)"
  have ne: "?c \<noteq> []" using push(1) by (auto simp: proper_comp_def good_comp_def)
  note r = realloc_scoped [OF inv ne push(2)]
  have "scoped is_lnk P s' (st @ [?c])"
    using push r(1) by (intro scoped_push [OF inv(1)]) auto
  moreover have "roomy s'"
    using r(2-4) seg_end_hd [of "es_rest s"] unfolding roomy_def push(4) by auto
  ultimately show ?thesis by blast
next
  case (link s1)
  let ?c = "seg (es_rest s)"
  have ne: "?c \<noteq> []" using link(1) by (auto simp: proper_comp_def good_comp_def)
  note r = realloc_scoped [OF inv ne link(2)]
  have out: "es_out s1 @ ?c = P @ join_slash (st @ [?c])" using r(1) by simp
  have short: "length (es_out s1 @ ?c) < PATH_MAX"
    using link(3) long not_le by blast
  from do_get_symlinks_Some [OF link(4)] obtain buf where
    s': "es_out s' = do_get_symlinks_copy_buf buf pre (length P) (P @ join_slash (st @ [?c]))"
      "es_cap s' = es_cap s1" "length (es_rest s') < PATH_MAX"
    unfolding out by auto
  have st: "list_all proper_comp st" using inv(1) by (simp add: scoped_def)
  from copy_buf_scoped [OF P(1) st link(1), of buf] s'(1)
  have "es_out s' = P @ join_slash (take 0 st) @ ''/'' \<or>
        es_out s' = P @ join_slash (take (length st) st) @ ''/''"
    by auto
  then obtain i where i: "es_out s' = P @ join_slash (take i st) @ ''/''" "i \<in> {0, length st}"
    by blast
  have "length (es_out s') \<le> PATH_MAX - 1"
    using i short P(2) ne unfolding out by (auto simp: PATH_MAX_def)
  then have "roomy s'"
    using s'(2,3) r(2) i(1) by (auto simp: roomy_def PATH_MAX_def ends_slash_def)
  with scoped_pop [OF inv(1) i(1)] show ?thesis by blast
qed

lemma do_eval_scoped:
  assumes "do_eval_symlinks_in_scope is_lnk rdlink mem pre (length P) s = Some out"
    and "scoped is_lnk P s st" "roomy s" "take (length P) pre = P" "length P < PATH_MAX - 1"
    and "\<And>p. length p \<ge> PATH_MAX \<Longrightarrow> \<not> is_lnk p"
  shows "\<exists>s' st'. out = es_out s' \<and> scoped is_lnk P s' st'"
  using assms
proof (induction is_lnk rdlink mem pre "length P" s arbitrary: st rule: do_eval_symlinks_in_scope.induct)
  case (1 is_lnk rdlink mem pre s)
  show ?case
  proof (cases "eval_step is_lnk rdlink mem pre (length P) s")
    case (Stop x)
    then have "x = es_out s"
      by (auto simp: eval_step_def Let_def split: if_splits option.splits)
    with Stop 1 show ?thesis
      by (auto simp: do_eval_symlinks_in_scope.simps [of is_lnk rdlink mem pre "length P" s])
  next
    case Fail
    with 1 show ?thesis
      by (simp add: do_eval_symlinks_in_scope.simps [of is_lnk rdlink mem pre "length P" s])
  next
    case (Next s')
    from eval_step_inv [OF 1(3,4,5,6) 1(7) Next] obtain st' where
      "scoped is_lnk P s' st'" "roomy s'" by blast
    with 1 Next show ?thesis
      by (simp add: do_eval_symlinks_in_scope.simps [of is_lnk rdlink mem pre "length P" s])
  qed
qed

lemma strip_scoped: "rep o' st \<Longrightarrow> strip_last_slash (length P + 1) (P @ o') = P @ render st"
  using strip_rep [of o' st] rep_not_Nil [of o' st]
  by (auto simp: strip_last_slash_def butlast_append ends_slash_def)

lemma comps_trailing: "list_all good_comp st \<Longrightarrow> comps (join_slash st @ ''/'') = st"
proof (induction st)
  case Nil
  show ?case by (simp add: comps_Nil seg_def)
next
  case (Cons c st)
  have "join_slash st @ ''/'' = [] \<or> hd (join_slash st @ ''/'') = CHR ''/''"
    by (cases st) auto
  with Cons have "seg (join_slash (c # st) @ ''/'') = c"
    "seg_end (join_slash (c # st) @ ''/'') = join_slash st @ ''/''"
    using seg_Cons [of c "join_slash st @ ''/''"] by auto
  with Cons show ?case by (simp add: comps_Cons good_comp_def)
qed

lemma comps_below:
  assumes "list_all good_comp rt" "list_all good_comp st"
  shows "comps (join_slash rt @ render st) = rt @ st"
  using assms comps_join_slash [of "rt @ st"] comps_trailing [of rt] by (simp add: render_def)

text \<open>
  A path is confined below a root when its components are those of the root followed by proper
  ones (no \<open>.\<close>, no \<open>..\<close>), and no directory on the way down from the root is a symbolic link.
\<close>

definition confined :: "(string \<Rightarrow> bool) \<Rightarrow> string \<Rightarrow> string \<Rightarrow> bool" where
  "confined is_lnk root r \<longleftrightarrow> prefix root r \<and>
     (\<exists>st. list_all proper_comp st \<and> comps r = comps root @ st \<and>
       (\<forall>i \<le> length st. 0 < i \<longrightarrow> \<not> is_lnk (join_slash (comps root @ take i st))))"

lemma eval_symlinks_confined:
  assumes root: "clean_input cwd root base" "util_clean_path cwd (Some root) (Some PATH_MAX) = Some root"
    and long: "\<And>p. length p \<ge> PATH_MAX \<Longrightarrow> \<not> is_lnk p" and full: "length full < PATH_MAX"
    and res: "eval_symlinks_in_scope is_lnk rdlink mem cwd (Some full) (Some root) = Some r"
  shows "confined is_lnk root r"
proof (cases "full = root")
  case True
  with res root show ?thesis
    by (auto simp: eval_symlinks_in_scope_def confined_def intro!: exI [of _ "[]"])
next
  case False
  note clean = util_clean_path_again [OF root]
  define P where "P = join_slash (comps root)"
  define pl where "pl = (if root = ''/'' then 0 else length root)"
  have "comps ''/'' = []" by (simp add: comps_Nil seg_def)
  then have P: "take pl root = P" "pl = length P"
    using clean(1,2) unfolding P_def pl_def by (auto simp: render_def split: if_splits)
  define s0 where "s0 = \<lparr>es_rest = drop pl full, es_out = take pl root @ ''/'',
     es_cap = PATH_MAX, es_links = 0, es_extra = False, es_mem = 1\<rparr>"
  from res False root(2) obtain out where pl: "pl < PATH_MAX - 1"
    and out: "do_eval_symlinks_in_scope is_lnk rdlink mem root pl s0 = Some out"
    and r: "r = strip_last_slash (pl + 1) out"
    by (auto simp: eval_symlinks_in_scope_def s0_def pl_def Let_def split: if_splits)
  have s0: "es_out s0 = P @ ''/''" "es_rest s0 = drop pl full" "es_cap s0 = PATH_MAX"
    by (simp_all add: s0_def P(1))
  have "scoped is_lnk P s0 []"
    by (simp add: scoped_def s0 rep_def render_def)
  moreover have "roomy s0"
    using pl full P(2) by (auto simp: roomy_def s0 PATH_MAX_def ends_slash_def)
  ultimately obtain s' st where fin: "out = es_out s'" "scoped is_lnk P s' st"
    using do_eval_scoped [of is_lnk rdlink mem root P s0 out "[]"] out P pl long by metis
  from fin(2) obtain o' where o': "out = P @ o'" "rep o' st" "list_all proper_comp st"
    "\<forall>i \<le> length st. 0 < i \<longrightarrow> \<not> is_lnk (P @ join_slash (take i st))"
    unfolding fin(1) by (auto simp: scoped_def)
  have r': "r = P @ render st"
    unfolding r o'(1) P(2) using o'(2) by (rule strip_scoped)
  have "prefix root r"
    unfolding r' P_def using clean(2) render_Cons_hd [of st] by (auto simp: render_def split: if_splits)
  moreover have "comps r = comps root @ st"
    unfolding r' P_def using clean(1) o'(3) by (intro comps_below) (auto intro: proper_good)
  ultimately show ?thesis
    using o'(3,4) by (auto simp: confined_def P_def)
qed

lemma follow_symlink_confined:
  assumes "clean_input cwd full fbase" and "clean_input cwd root rbase"
    and "\<forall>p. PATH_MAX \<le> length p \<longrightarrow> \<not> is_lnk p"
    and "util_follow_symlink_in_scope is_lnk rdlink mem cwd (Some full) (Some root) = Some r"
  shows "\<exists>cleaned_root. util_clean_path cwd (Some root) (Some PATH_MAX) = Some cleaned_root \<and>
           confined is_lnk cleaned_root r"
proof -
  from assms(4) obtain f c where
    f: "util_clean_path cwd (Some full) (Some PATH_MAX) = Some f" and
    c: "util_clean_path cwd (Some root) (Some PATH_MAX) = Some c" and
    r: "eval_symlinks_in_scope is_lnk rdlink mem cwd (Some f) (Some c) = Some r"
    by (auto simp: util_follow_symlink_in_scope_def split: option.splits)
  note fc = util_clean_path_again [OF assms(1) f] and cc = util_clean_path_again [OF assms(2) c]
  have "clean_input cwd c []"
    by (subst cc(2)) (auto simp: clean_input_def)
  then have "confined is_lnk c r"
    using cc(4) assms(3) fc(3) r by (intro eval_symlinks_confined) auto
  with c show ?thesis by blast
qed

text \<open>
  C1. \<open>util_follow_symlink_in_scope\<close> never leaves its root.  Whatever the symbolic links on
  disk point to (absolute targets, chains of \<open>..\<close>, links to links), a path it returns lies below
  the cleaned root, contains no \<open>.\<close> or \<open>..\<close>, and no directory between the root and the result
  is a symbolic link any more.  The file system is only assumed to refuse names of \<open>PATH_MAX\<close>
  bytes or more (ENAMETOOLONG), which is what keeps the buffer growth of \<open>do_path_realloc\<close> from
  losing bytes.
\<close>

theorem util_follow_symlink_in_scope_confined:
  assumes "clean_input cwd full fbase" and "clean_input cwd root rbase"
    and "\<forall>p. PATH_MAX \<le> length p \<longrightarrow> \<not> is_lnk p"
    and "util_follow_symlink_in_scope is_lnk rdlink mem cwd (Some full) (Some root) = Some r"
  shows "\<exists>cleaned_root. util_clean_path cwd (Some root) (Some PATH_MAX) = Some cleaned_root \<and>
           confined is_lnk cleaned_root r"
  using assms by (rule follow_symlink_confined)

lemmas symlink_eval = util_follow_symlink_in_scope_def eval_symlinks_in_scope_def
  do_eval_symlinks_in_scope.simps eval_step_def do_path_realloc_def do_get_symlinks_def
  do_get_symlinks_copy_buf_def skip_dest_trailing_slash_def do_eval_symlinks_in_scope_is_symlink_def
  util_common_calloc_s_def MAX_MEMORY_SIZE_def MAXSYMLINKS_def Let_def

theorem util_follow_symlink_in_scope_confined_witness:
  "\<exists>c. util_clean_path None (Some ''/r'') (Some PATH_MAX) = Some c \<and>
       confined (\<lambda>p. p = ''/r/a'') c ''/r/etc/b''"
proof -
  let ?is_lnk = "\<lambda>p. p = ''/r/a''"
  have h: "clean_input None ''/r/a/b'' []" "clean_input None ''/r'' []"
    "\<forall>p. PATH_MAX \<le> length p \<longrightarrow> \<not> ?is_lnk p"
    by (auto simp: clean_input_def PATH_MAX_def)
  have "util_follow_symlink_in_scope ?is_lnk (\<lambda>_. Some ''../../etc'') all_ok None
          (Some ''/r/a/b'') (Some ''/r'') = Some ''/r/etc/b''"
    by (simp add: symlink_eval path_eval)
  from util_follow_symlink_in_scope_confined [OF h this] show ?thesis .
qed

end
