(* ===== verification/Path_Resolve.thy ===== *)
theory Path_Resolve
  imports Path
begin

section \<open>Resolving container paths (src/src/utils/cutils/path.c, second half)\<close>

text \<open>
  \<open>util_resolve_path\<close> and \<open>util_get_resource_path\<close> turn a path inside a container into a path of
  the host below the container's root; \<open>util_realpath_in_scope\<close> is a second, independent
  implementation of the same idea.  The file system parameters are those of \<^verbatim>\<open>Path\<close>.
\<close>

subsection \<open>\<open>basename\<close> and \<open>dirname\<close> of libgen\<close>

definition strip_slashes :: "string \<Rightarrow> string" where
  "strip_slashes p = rev (dropWhile ISSLASH (rev p))"

definition basename :: "string \<Rightarrow> string" where
  "basename p =
     (if p = [] then ''.''
      else let q = strip_slashes p in
        if q = [] then ''/'' else drop (back_to_slash q (length q)) q)"

definition dirname :: "string \<Rightarrow> string" where
  "dirname p =
     (let q = strip_slashes p; i = back_to_slash q (length q); d = strip_slashes (take i q) in
      if q = [] then (if p = [] then ''.'' else if p = ''//'' then ''//'' else ''/'')
      else if i = 0 then ''.''
      else if d = [] then (if i = 2 then ''//'' else ''/'') else d)"

subsection \<open>Definitions\<close>

definition util_specify_current_dir :: "string option \<Rightarrow> bool" where
  "util_specify_current_dir path =
     (case path of
        None \<Rightarrow> False
      | Some p \<Rightarrow> if p = [] then True else basename p = ''.'')"

definition util_has_trailing_path_separator :: "string option \<Rightarrow> bool" where
  "util_has_trailing_path_separator path =
     (case path of None \<Rightarrow> False | Some p \<Rightarrow> p \<noteq> [] \<and> last p = CHR ''/'')"

definition util_preserve_trailing_dot_or_separator :: "string option \<Rightarrow> string option \<Rightarrow> string option" where
  "util_preserve_trailing_dot_or_separator cleanedpath originalpath =
     (case (cleanedpath, originalpath) of
        (Some cleaned, Some original) \<Rightarrow>
          if cleaned = [] \<or> original = [] then None
          else if length cleaned \<ge> PATH_MAX then None
          else
            let r1 = (if \<not> util_specify_current_dir (Some cleaned) \<and> util_specify_current_dir (Some original)
                      then (if \<not> util_has_trailing_path_separator (Some cleaned) then cleaned @ ''/'' else cleaned) @ ''.''
                      else cleaned);
                r2 = (if \<not> util_has_trailing_path_separator (Some r1) \<and> util_has_trailing_path_separator (Some original)
                      then r1 @ ''/'' else r1)
            in Some r2
      | _ \<Rightarrow> None)"

text \<open>\<open>util_filepath_split\<close>: the loop leaves \<open>i + 1\<close> = \<open>back_to_slash p (strlen p)\<close>.\<close>

definition util_filepath_split :: "string option \<Rightarrow> (string \<times> string) option" where
  "util_filepath_split path =
     (case path of
        None \<Rightarrow> None
      | Some p \<Rightarrow>
          let j = back_to_slash p (length p) in
          Some (if j \<noteq> 0 then take j p else ''.'', drop j p))"

definition util_split_dir_and_base_name :: "string option \<Rightarrow> (string \<times> string) option" where
  "util_split_dir_and_base_name path = map_option (\<lambda>p. (dirname p, basename p)) path"

definition util_get_resource_path ::
  "(string \<Rightarrow> bool) \<Rightarrow> (string \<Rightarrow> string option) \<Rightarrow> alloc \<Rightarrow> string option \<Rightarrow> string \<Rightarrow> string \<Rightarrow> string option" where
  "util_get_resource_path is_lnk rdlink mem cwd rootpath path =
     (let tmppath = ''/'' @ rootpath @ ''/'' @ path in
      if length tmppath \<ge> PATH_MAX then None
      else case util_clean_path cwd (Some tmppath) (Some PATH_MAX) of
        None \<Rightarrow> None
      | Some fullpath \<Rightarrow> util_follow_symlink_in_scope is_lnk rdlink mem cwd (Some fullpath) (Some rootpath))"

text \<open>\<open>util_resolve_path\<close> returns \<open>(*resolvedpath, *abspath)\<close>; \<open>calloc\<close> answers the allocation of
  the result.\<close>

definition util_resolve_path ::
  "(string \<Rightarrow> bool) \<Rightarrow> (string \<Rightarrow> string option) \<Rightarrow> alloc \<Rightarrow> bool \<Rightarrow> string option \<Rightarrow> string \<Rightarrow> string \<Rightarrow>
   (string \<times> string) option" where
  "util_resolve_path is_lnk rdlink mem calloc cwd rootpath path =
     (let tmppath = ''/'' @ path in
      if length tmppath \<ge> PATH_MAX then None
      else case util_clean_path cwd (Some tmppath) (Some PATH_MAX) of
        None \<Rightarrow> None
      | Some cleanedpath \<Rightarrow>
          (case util_preserve_trailing_dot_or_separator (Some cleanedpath) (Some tmppath) of
             None \<Rightarrow> None
           | Some abspath \<Rightarrow>
               (case util_filepath_split (Some abspath) of
                  None \<Rightarrow> None
                | Some (dirpath, basepath) \<Rightarrow>
                    (case util_get_resource_path is_lnk rdlink mem cwd rootpath dirpath of
                       None \<Rightarrow> None
                     | Some resolved_dir_path \<Rightarrow>
                         if \<not> util_common_calloc_s calloc
                               (length resolved_dir_path + 1 + length basepath + 1) then None
                         else Some (resolved_dir_path @ ''/'' @ basepath, abspath)))))"

definition util_split_path_dir_entry :: "string option \<Rightarrow> string option \<Rightarrow> (string \<times> string) option" where
  "util_split_path_dir_entry cwd path =
     (case util_clean_path cwd path (Some PATH_MAX) of
        None \<Rightarrow> None
      | Some cleaned \<Rightarrow>
          let c = (if util_specify_current_dir path then cleaned @ ''/.'' else cleaned)
          in Some (dirname c, basename c))"

text \<open>src/src/utils/cutils/utils\_file.c, \<open>util_path_join\<close> and \<open>util_path_dir\<close>.\<close>

definition util_path_join :: "string option \<Rightarrow> string option \<Rightarrow> string option \<Rightarrow> string option" where
  "util_path_join cwd dir file =
     (case (dir, file) of
        (Some d, Some f) \<Rightarrow>
          let path = d @ ''/'' @ f in
          if length path \<ge> PATH_MAX then None
          else util_clean_path cwd (Some path) (Some PATH_MAX)
      | _ \<Rightarrow> None)"

text \<open>\<open>for (i = len - 1; i > 0; i--) if (dir[i] == '/') break;\<close>: the final value of \<open>i\<close>.\<close>

fun last_slash_above_0 :: "string \<Rightarrow> nat \<Rightarrow> nat" where
  "last_slash_above_0 p 0 = 0"
| "last_slash_above_0 p (Suc i) = (if p ! Suc i = CHR ''/'' then Suc i else last_slash_above_0 p i)"

definition util_path_dir :: "string option \<Rightarrow> string option" where
  "util_path_dir path =
     (case path of
        None \<Rightarrow> None
      | Some p \<Rightarrow>
          if p = [] then Some ''.''
          else
            let i = last_slash_above_0 p (length p - 1) in
            if i > 0 then Some (take i p)
            else if hd p = CHR ''/'' then Some ''/'' else Some p)"

text \<open>
  \<open>find_realpath\<close>: \<open>lnk p\<close> says that \<open>lstat\<close> succeeds on \<open>p\<close> and reports a link.  \<open>budget\<close> is
  \<open>max_symlink_iter + 1 - i\<close>; the loop gives up when it reaches 0.
\<close>

fun find_realpath_loop ::
  "(string \<Rightarrow> bool) \<Rightarrow> (string \<Rightarrow> string option) \<Rightarrow> string option \<Rightarrow> nat \<Rightarrow> string \<Rightarrow> string option" where
  "find_realpath_loop lnk rdlink cwd 0 iter_path = None"
| "find_realpath_loop lnk rdlink cwd (Suc budget) iter_path =
     (if \<not> lnk iter_path then Some iter_path
      else case rdlink iter_path of
        None \<Rightarrow> None
      | Some t \<Rightarrow>
          let target = take (PATH_MAX - 1) t in
          if target \<noteq> [] \<and> hd target \<noteq> CHR ''/'' then
            (case util_split_path_dir_entry cwd (Some iter_path) of
               None \<Rightarrow> None
             | Some (parent, _) \<Rightarrow>
                 (case util_path_join cwd (Some parent) (Some target) of
                    None \<Rightarrow> None
                  | Some p \<Rightarrow> find_realpath_loop lnk rdlink cwd budget p))
          else find_realpath_loop lnk rdlink cwd budget target)"

definition find_realpath ::
  "(string \<Rightarrow> bool) \<Rightarrow> (string \<Rightarrow> string option) \<Rightarrow> string option \<Rightarrow> string \<Rightarrow> string option" where
  "find_realpath lnk rdlink cwd path = find_realpath_loop lnk rdlink cwd 11 path"

definition util_realpath_in_scope ::
  "(string \<Rightarrow> bool) \<Rightarrow> (string \<Rightarrow> string option) \<Rightarrow> string option \<Rightarrow> string \<Rightarrow> string \<Rightarrow> string option" where
  "util_realpath_in_scope lnk rdlink cwd rootfs path =
     (let full_path = rootfs @ path in
      if length full_path \<ge> PATH_MAX then None
      else case util_clean_path cwd (Some full_path) (Some PATH_MAX) of
        None \<Rightarrow> None
      | Some cleaned \<Rightarrow>
          (case find_realpath lnk rdlink cwd cleaned of
             None \<Rightarrow> None
           | Some tmp \<Rightarrow> if \<not> prefix rootfs tmp then None else Some tmp))"

subsection \<open>Splitting off the last component\<close>

lemma util_filepath_split_slash:
  assumes "CHR ''/'' \<notin> set b"
  shows "util_filepath_split (Some (d @ ''/'' @ b)) = Some (d @ ''/'', b)"
  using back_to_slash_stop [of b "length b" d] assms by (simp add: util_filepath_split_def)

lemma preserve_base:
  assumes "util_preserve_trailing_dot_or_separator (Some (render st)) (Some orig) = Some a"
    and "list_all proper_comp st"
  shows "\<exists>d b. a = d @ ''/'' @ b \<and> (b = [] \<or> b = ''.'' \<or> proper_comp b)"
proof -
  have st: "\<exists>d b. render st = d @ ''/'' @ b \<and> (b = [] \<or> proper_comp b)"
  proof (cases st rule: rev_cases)
    case Nil
    then show ?thesis by (auto simp: render_def)
  next
    case (snoc ys y)
    with assms(2) show ?thesis by (auto simp: render_snoc)
  qed
  define x where "x = (if \<not> util_has_trailing_path_separator (Some (render st)) then render st @ ''/'' else render st)"
  have "\<exists>q. x = q @ ''/''"
  proof (cases "util_has_trailing_path_separator (Some (render st))")
    case True
    then have "last (render st) = CHR ''/''"
      by (simp add: util_has_trailing_path_separator_def)
    then have "x = butlast (render st) @ ''/''"
      using True append_butlast_last_id [OF render_not_Nil, of st] by (simp add: x_def)
    then show ?thesis ..
  qed (simp add: x_def)
  then obtain q where q: "x = q @ ''/''" ..
  from assms(1) have "a \<in> {render st, render st @ ''/'', x @ ''.'', (x @ ''.'') @ ''/''}"
    by (auto simp: util_preserve_trailing_dot_or_separator_def x_def Let_def split: if_splits)
  then consider "a = render st" | d where "a = d @ ''/'' @ []" | "a = q @ ''/'' @ ''.''"
    unfolding q by fastforce
  then show ?thesis
    by cases (use st in blast)+
qed

lemma slash_free: "b = [] \<or> b = ''.'' \<or> proper_comp b \<Longrightarrow> CHR ''/'' \<notin> set b"
  by (auto simp: proper_comp_def good_comp_def)

lemma clean_input_slash: "clean_input cwd (CHR ''/'' # p) []"
  by (simp add: clean_input_def)

lemma util_get_resource_path_confined:
  assumes "clean_input cwd root base" and "\<forall>p. PATH_MAX \<le> length p \<longrightarrow> \<not> is_lnk p"
    and "util_get_resource_path is_lnk rdlink mem cwd root path = Some r"
  shows "\<exists>c. util_clean_path cwd (Some root) (Some PATH_MAX) = Some c \<and> confined is_lnk c r"
proof -
  from assms(3) obtain f where
    f: "util_clean_path cwd (Some (CHR ''/'' # root @ ''/'' @ path)) (Some PATH_MAX) = Some f" and
    r: "util_follow_symlink_in_scope is_lnk rdlink mem cwd (Some f) (Some root) = Some r"
    by (auto simp: util_get_resource_path_def Let_def split: if_splits option.splits)
  have "clean_input cwd f []"
    by (subst util_clean_path_again(2) [OF clean_input_slash f]) (simp add: clean_input_def)
  from follow_symlink_confined [OF this assms(1,2) r] show ?thesis .
qed

text \<open>
  C8. \<open>util_resolve_path\<close>, which \<open>isula cp\<close> uses to find a file of a container on the host,
  returns the resolved directory, which is confined below the container's root, followed by a
  last component that is a proper name, empty or \<open>.\<close>: it can not climb out of the root.
\<close>

theorem util_resolve_path_confined:
  assumes "clean_input cwd root base" and "\<forall>p. PATH_MAX \<le> length p \<longrightarrow> \<not> is_lnk p"
    and "util_resolve_path is_lnk rdlink mem calloc cwd root path = Some (resolved, abspath)"
  shows "\<exists>c d b. util_clean_path cwd (Some root) (Some PATH_MAX) = Some c \<and> confined is_lnk c d \<and>
           resolved = d @ ''/'' @ b \<and> (b = [] \<or> b = ''.'' \<or> proper_comp b)"
proof -
  from assms(3) obtain cl dir d b where
    cl: "util_clean_path cwd (Some (CHR ''/'' # path)) (Some PATH_MAX) = Some cl" and
    pr: "util_preserve_trailing_dot_or_separator (Some cl) (Some (CHR ''/'' # path)) = Some abspath" and
    sp: "util_filepath_split (Some abspath) = Some (dir, b)" and
    d: "util_get_resource_path is_lnk rdlink mem cwd root dir = Some d" and
    res: "resolved = d @ ''/'' @ b"
    by (auto simp: util_resolve_path_def Let_def split: if_splits option.splits prod.splits)
  note clean = util_clean_path_again [OF clean_input_slash cl]
  from preserve_base [of "comps cl" "CHR ''/'' # path" abspath] pr clean(1,2) obtain d' b' where
    ab: "abspath = d' @ ''/'' @ b'" "b' = [] \<or> b' = ''.'' \<or> proper_comp b'" by auto
  with sp util_filepath_split_slash [OF slash_free [OF ab(2)], of d'] have "b = b'" by simp
  with util_get_resource_path_confined [OF assms(1,2) d] ab(2) res show ?thesis by auto
qed

theorem util_resolve_path_confined_witness:
  "\<exists>c d b. util_clean_path None (Some ''/r'') (Some PATH_MAX) = Some c \<and>
     confined (\<lambda>p. p = ''/r/a'') c d \<and> ''/r/etc/f'' = d @ ''/'' @ b \<and> (b = [] \<or> b = ''.'' \<or> proper_comp b)"
proof -
  let ?is_lnk = "\<lambda>p. p = ''/r/a''"
  have h: "clean_input None ''/r'' []" "\<forall>p. PATH_MAX \<le> length p \<longrightarrow> \<not> ?is_lnk p"
    by (auto simp: clean_input_def PATH_MAX_def)
  have "util_resolve_path ?is_lnk (\<lambda>_. Some ''/etc'') all_ok True None ''/r'' ''a/f'' = Some (''/r/etc/f'', ''/a/f'')"
    by (simp add: util_resolve_path_def util_get_resource_path_def util_filepath_split_def
        util_preserve_trailing_dot_or_separator_def util_specify_current_dir_def basename_def
        strip_slashes_def util_has_trailing_path_separator_def symlink_eval path_eval)
  from util_resolve_path_confined [OF h this] show ?thesis .
qed

text \<open>
  C39. \<open>util_realpath_in_scope\<close> compares the resolved path with the root as strings, not as
  paths, so it accepts a directory next to the root whose name merely starts with the root's
  name: for a root ending in \<open>c\<close>, the request \<open>/../cx/y\<close> is answered with the path \<open>y\<close> in the
  sibling directory \<open>cx\<close>, which does not lie below the root.
\<close>

theorem util_realpath_in_scope_escapes:
  assumes "list_all proper_comp (rt @ [c, c @ x, y])" and "x \<noteq> []" and "\<And>p. \<not> lnk p"
    and "length (render (rt @ [c])) + length (''/../'' @ c @ x @ ''/'' @ y) < PATH_MAX"
  shows "util_realpath_in_scope lnk rdlink cwd (render (rt @ [c])) (''/../'' @ c @ x @ ''/'' @ y)
           = Some (render (rt @ [c @ x, y])) \<and>
         \<not> prefix (comps (render (rt @ [c]))) (comps (render (rt @ [c @ x, y])))"
proof -
  let ?cs = "rt @ [c, ''..'', c @ x, y]"
  have good: "list_all good_comp ?cs" "list_all good_comp (rt @ [c])" "list_all good_comp (rt @ [c @ x, y])"
    using assms(1) by (auto simp: list_all_iff proper_comp_def) (simp_all add: good_comp_def)
  have full: "render (rt @ [c]) @ ''/../'' @ c @ x @ ''/'' @ y = render ?cs"
    by (simp add: render_def)
  have "util_clean_path cwd (Some (render ?cs)) (Some PATH_MAX)
      = Some (render (foldl norm_step [] (comps (render ?cs))))"
    using assms(4) unfolding full [symmetric]
    by (intro util_clean_path_normal_form) (auto simp: clean_input_def clean_room_def)
  also have "foldl norm_step [] (comps (render ?cs)) = rt @ [c @ x, y]"
    using assms(1) foldl_norm_id [of rt "[]"]
    unfolding comps_render [OF good(1)] by (auto simp: proper_comp_def butlast_append)
  finally have clean: "util_clean_path cwd (Some (render ?cs)) (Some PATH_MAX) = Some (render (rt @ [c @ x, y]))" .
  have "prefix (render (rt @ [c])) (render (rt @ [c @ x, y]))"
    by (simp add: render_def prefix_def)
  then have "util_realpath_in_scope lnk rdlink cwd (render (rt @ [c])) (''/../'' @ c @ x @ ''/'' @ y)
           = Some (render (rt @ [c @ x, y]))"
    using assms(3,4) clean unfolding util_realpath_in_scope_def full Let_def
    by (simp add: full [symmetric] find_realpath_def eval_nat_numeral)
  moreover have "\<not> prefix (comps (render (rt @ [c]))) (comps (render (rt @ [c @ x, y])))"
    using assms(2) good by (simp add: comps_render prefix_def)
  ultimately show ?thesis by simp
qed

theorem util_realpath_in_scope_escapes_witness:
  "util_realpath_in_scope (\<lambda>_. False) (\<lambda>_. None) None ''/r'' ''/../r2/x'' = Some ''/r2/x'' \<and>
   \<not> prefix (comps ''/r'') (comps ''/r2/x'')"
proof -
  have "list_all proper_comp ([] @ [''r'', ''r'' @ ''2'', ''x''])"
    by (simp add: proper_comp_def good_comp_def)
  from util_realpath_in_scope_escapes [OF this, of "\<lambda>_. False" "\<lambda>_. None" None] show ?thesis
    by (simp add: render_def PATH_MAX_def)
qed

end
