(* ===== verification/Map_Store.thy ===== *)
theory Map_Store
  imports Prelude
begin

section \<open>The ordered key/value store behind \<open>map_t\<close>\<close>

text \<open>
  src/src/utils/cutils/map/map.c is a thin layer over the red-black tree of rb\_tree.c.  This
  theory has the comparators of rb\_tree.c, the ordered association list that specifies the
  contents of a tree (\<open>rbtree_insert\<close>, \<open>rbtree_replace\<close>, \<open>rbtree_remove\<close>, \<open>rbtree_search\<close> and
  the iterator as operations on the entries in key order), and map.c on top of it.  The tree
  itself, on a heap of linked nodes, is in \<^verbatim>\<open>RB_Tree\<close>, which proves that it implements the
  entries.
\<close>

subsection \<open>Comparators\<close>

text \<open>A plain \<open>char\<close> is signed on the target (x86-64).\<close>

definition char_int :: "char \<Rightarrow> int" where
  "char_int c = (if code c < 128 then int (code c) else int (code c) - 256)"

definition c_sign :: "int \<Rightarrow> int \<Rightarrow> int" where
  "c_sign a b = (if a > b then 1 else 0) - (if a < b then 1 else 0)"

definition rbtree_ptr_cmp :: "nat \<Rightarrow> nat \<Rightarrow> int" where
  "rbtree_ptr_cmp first lst = c_sign (int first) (int lst)"

definition rbtree_int_cmp :: "int \<Rightarrow> int \<Rightarrow> int" where
  "rbtree_int_cmp first lst = c_sign first lst"

text \<open>The character read at the front of a C string: the terminator when it is empty.\<close>

definition c_hd :: "string \<Rightarrow> char" where
  "c_hd s = (case s of [] \<Rightarrow> CHR 0x00 | c # _ \<Rightarrow> c)"

function rbtree_str_cmp :: "string \<Rightarrow> string \<Rightarrow> int" where
  "rbtree_str_cmp key1 key2 =
     (let a = c_hd key1; b = c_hd key2 in
      if a = CHR 0x00 \<or> a \<noteq> b then c_sign (char_int a) (char_int b)
      else rbtree_str_cmp (tl key1) (tl key2))"
  by pat_completeness auto

termination rbtree_str_cmp
proof (relation "measure (\<lambda>(key1, key2). length key1)")
  fix key1 key2 :: string and a b
  assume "a = c_hd key1" "\<not> (a = CHR 0x00 \<or> a \<noteq> b)"
  then have "key1 \<noteq> []" by (auto simp: c_hd_def)
  then show "((tl key1, tl key2), key1, key2) \<in> measure (\<lambda>(key1, key2). length key1)"
    by (cases key1) auto
qed simp

declare rbtree_str_cmp.simps [simp del]

subsection \<open>The comparators are total orders\<close>

text \<open>
  What the tree relies on, for the keys that satisfy \<open>K\<close>: equality exactly at 0, and the sign
  of the result is a strict total order.
\<close>

locale key_cmp =
  fixes cmp :: "'k \<Rightarrow> 'k \<Rightarrow> int" and K :: "'k \<Rightarrow> bool"
  assumes cmp_eq: "K a \<Longrightarrow> K b \<Longrightarrow> cmp a b = 0 \<longleftrightarrow> a = b"
    and cmp_flip: "K a \<Longrightarrow> K b \<Longrightarrow> cmp a b < 0 \<longleftrightarrow> cmp b a > 0"
    and cmp_trans: "K a \<Longrightarrow> K b \<Longrightarrow> K c \<Longrightarrow> cmp a b < 0 \<Longrightarrow> cmp b c < 0 \<Longrightarrow> cmp a c < 0"
begin

lemma cmp_refl: "K a \<Longrightarrow> cmp a a = 0"
  by (simp add: cmp_eq)

lemma cmp_less_not_less: "K a \<Longrightarrow> K b \<Longrightarrow> cmp a b < 0 \<Longrightarrow> \<not> cmp b a < 0"
  using cmp_flip by force

lemma cmp_total: "K a \<Longrightarrow> K b \<Longrightarrow> a \<noteq> b \<Longrightarrow> \<not> cmp a b < 0 \<Longrightarrow> cmp b a < 0"
  by (metis cmp_eq cmp_flip linorder_neqE_linordered_idom)

end

lemma char_int_inject [simp]: "char_int a = char_int b \<longleftrightarrow> a = b"
  using code_less_256 [of a] code_less_256 [of b] by (auto simp: char_int_def simp flip: code_inject split: if_splits)

lemma c_sign_simps [simp]:
  "c_sign a b = 0 \<longleftrightarrow> a = b" "c_sign a b < 0 \<longleftrightarrow> a < b" "0 < c_sign a b \<longleftrightarrow> b < a"
  by (auto simp: c_sign_def)

interpretation ptr_cmp: key_cmp rbtree_ptr_cmp "\<lambda>_. True"
  by unfold_locales (auto simp: rbtree_ptr_cmp_def)

interpretation int_cmp: key_cmp rbtree_int_cmp "\<lambda>_. True"
  by unfold_locales (auto simp: rbtree_int_cmp_def)

lemma str_cmp_Nil: "c_str b \<Longrightarrow> rbtree_str_cmp [] b = c_sign 0 (char_int (c_hd b))"
  by (subst rbtree_str_cmp.simps) (simp add: c_hd_def char_int_def code_def)

lemma str_cmp_Cons: "x \<noteq> CHR 0x00 \<Longrightarrow> rbtree_str_cmp (x # a) b =
   (if x = c_hd b then rbtree_str_cmp a (tl b) else c_sign (char_int x) (char_int (c_hd b)))"
  by (subst rbtree_str_cmp.simps) (simp add: c_hd_def)

lemma char_int_0 [simp]: "char_int (CHR 0x00) = 0"
  by (simp add: char_int_def code_def)

lemma c_hd_simps [simp]: "c_hd [] = CHR 0x00" "c_hd (x # s) = x"
  by (simp_all add: c_hd_def)

lemma char_int_eq_0 [simp]: "char_int c = 0 \<longleftrightarrow> c = CHR 0x00"
  using char_int_inject [of c "CHR 0x00"] by simp

lemma str_cmp_eq: "c_str a \<Longrightarrow> c_str b \<Longrightarrow> rbtree_str_cmp a b = 0 \<longleftrightarrow> a = b"
proof (induction a arbitrary: b)
  case Nil
  then show ?case by (cases b) (auto simp: str_cmp_Nil)
next
  case (Cons x a)
  then show ?case by (cases b) (auto simp: str_cmp_Cons)
qed

lemma str_cmp_flip: "c_str a \<Longrightarrow> c_str b \<Longrightarrow> rbtree_str_cmp a b < 0 \<longleftrightarrow> rbtree_str_cmp b a > 0"
proof (induction a arbitrary: b)
  case Nil
  then show ?case by (cases b) (auto simp: str_cmp_Nil str_cmp_Cons)
next
  case (Cons x a)
  then show ?case by (cases b) (auto simp: str_cmp_Nil str_cmp_Cons)
qed

text \<open>The first character decides unless both strings start alike.\<close>

lemma str_cmp_less:
  "c_str a \<Longrightarrow> c_str b \<Longrightarrow> rbtree_str_cmp a b < 0 \<longleftrightarrow>
     char_int (c_hd a) < char_int (c_hd b) \<or> c_hd a = c_hd b \<and> a \<noteq> [] \<and> rbtree_str_cmp (tl a) (tl b) < 0"
  by (cases a) (auto simp: str_cmp_Nil str_cmp_Cons)

lemma str_cmp_trans:
  "c_str a \<Longrightarrow> c_str b \<Longrightarrow> c_str c \<Longrightarrow> rbtree_str_cmp a b < 0 \<Longrightarrow> rbtree_str_cmp b c < 0 \<Longrightarrow>
   rbtree_str_cmp a c < 0"
proof (induction a arbitrary: b c)
  case Nil
  then show ?case
    using str_cmp_less [of "[]" b] str_cmp_less [of b c] str_cmp_less [of "[]" c] by auto
next
  case (Cons x a)
  have tls: "c_str a" "c_str (tl b)" "c_str (tl c)"
    using Cons.prems(1-3) by (cases b; cases c; simp)+
  show ?case
    using Cons.IH [OF tls] Cons.prems str_cmp_less [of "x # a" b] str_cmp_less [of b c] str_cmp_less [of "x # a" c]
    by auto
qed

interpretation str_cmp: key_cmp rbtree_str_cmp c_str
  by unfold_locales (fact str_cmp_eq str_cmp_flip str_cmp_trans)+

subsection \<open>The entries of a tree, in key order\<close>

fun store_find :: "('k \<Rightarrow> 'k \<Rightarrow> int) \<Rightarrow> 'k \<Rightarrow> ('k \<times> 'v) list \<Rightarrow> 'v option" where
  "store_find cmp k [] = None"
| "store_find cmp k ((k', v) # m) = (if cmp k k' = 0 then Some v else store_find cmp k m)"

fun store_ins :: "('k \<Rightarrow> 'k \<Rightarrow> int) \<Rightarrow> 'k \<Rightarrow> 'v \<Rightarrow> ('k \<times> 'v) list \<Rightarrow> ('k \<times> 'v) list" where
  "store_ins cmp k v [] = [(k, v)]"
| "store_ins cmp k v ((k', v') # m) =
     (if cmp k k' < 0 then (k, v) # (k', v') # m else (k', v') # store_ins cmp k v m)"

fun store_upd :: "('k \<Rightarrow> 'k \<Rightarrow> int) \<Rightarrow> 'k \<Rightarrow> 'v \<Rightarrow> ('k \<times> 'v) list \<Rightarrow> ('k \<times> 'v) list" where
  "store_upd cmp k v [] = []"
| "store_upd cmp k v ((k', v') # m) = (if cmp k k' = 0 then (k', v) # m else (k', v') # store_upd cmp k v m)"

fun store_del :: "('k \<Rightarrow> 'k \<Rightarrow> int) \<Rightarrow> 'k \<Rightarrow> ('k \<times> 'v) list \<Rightarrow> ('k \<times> 'v) list" where
  "store_del cmp k [] = []"
| "store_del cmp k ((k', v') # m) = (if cmp k k' = 0 then m else (k', v') # store_del cmp k m)"

definition store_ok :: "('k \<Rightarrow> 'k \<Rightarrow> int) \<Rightarrow> ('k \<Rightarrow> bool) \<Rightarrow> ('k \<times> 'v) list \<Rightarrow> bool" where
  "store_ok cmp K m \<longleftrightarrow> (\<forall>e \<in> set m. K (fst e)) \<and> sorted_wrt (\<lambda>e e'. cmp (fst e) (fst e') < 0) m"

lemma store_ok_simps [simp]:
  "store_ok cmp K []"
  "store_ok cmp K ((k, v) # m) \<longleftrightarrow> K k \<and> (\<forall>e \<in> set m. cmp k (fst e) < 0) \<and> store_ok cmp K m"
  by (auto simp: store_ok_def)

context key_cmp
begin

lemma set_store_ins: "set (store_ins cmp k v m) = insert (k, v) (set m)"
  by (induction m rule: store_ins.induct [where ?a0.0 = cmp and ?a1.0 = k and ?a2.0 = v]) auto

lemma store_find_None:
  "K k \<Longrightarrow> store_ok cmp K m \<Longrightarrow> store_find cmp k m = None \<longleftrightarrow> k \<notin> fst ` set m"
  by (induction m) (force simp: cmp_eq split: if_splits)+

lemma store_find_Some:
  "K k \<Longrightarrow> store_ok cmp K m \<Longrightarrow> store_find cmp k m = Some v \<longleftrightarrow> (k, v) \<in> set m"
proof (induction m)
  case (Cons e m)
  obtain k' v' where e: "e = (k', v')" by (cases e)
  show ?case
  proof (cases "k = k'")
    case True
    with Cons.prems cmp_refl have "\<forall>e \<in> set m. fst e \<noteq> k" unfolding e by fastforce
    with True Cons.prems cmp_refl show ?thesis by (auto simp: e)
  next
    case False
    with Cons cmp_eq show ?thesis by (auto simp: e)
  qed
qed simp

lemma store_ins_ok:
  "K k \<Longrightarrow> store_ok cmp K m \<Longrightarrow> store_find cmp k m = None \<Longrightarrow> store_ok cmp K (store_ins cmp k v m)"
proof (induction m)
  case (Cons e m)
  obtain k' v' where e: "e = (k', v')" by (cases e)
  have K: "K k'" "store_ok cmp K m" "\<forall>e\<in>set m. K (fst e) \<and> cmp k' (fst e) < 0"
    using Cons.prems(2) unfolding e by (auto simp: store_ok_def)
  have ne: "cmp k k' \<noteq> 0" "store_find cmp k m = None"
    using Cons.prems(3) unfolding e by (auto split: if_splits)
  show ?case
  proof (cases "cmp k k' < 0")
    case True
    with K Cons.prems(1) show ?thesis by (auto simp: e intro: cmp_trans)
  next
    case False
    with ne Cons.prems(1) K(1) cmp_eq cmp_total have "cmp k' k < 0" by blast
    with False K ne Cons.IH [OF Cons.prems(1) K(2) ne(2)] show ?thesis
      by (auto simp: e set_store_ins)
  qed
qed simp

lemma store_find_ins:
  assumes "K k" "K k'" "store_ok cmp K m" "store_find cmp k m = None"
  shows "store_find cmp k' (store_ins cmp k v m) = (if k' = k then Some v else store_find cmp k' m)"
proof (cases "k' = k")
  case True
  with store_find_Some [OF assms(1) store_ins_ok [OF assms(1,3,4)], of v v] show ?thesis
    by (simp add: set_store_ins)
next
  case False
  have "store_find cmp k' (store_ins cmp k v m) = Some w \<longleftrightarrow> store_find cmp k' m = Some w" for w
    using False store_find_Some [OF assms(2) store_ins_ok [OF assms(1,3,4)], of v w]
      store_find_Some [OF assms(2,3), of w] by (simp add: set_store_ins)
  with False show ?thesis by (metis option.exhaust)
qed

lemma store_upd_keys: "map fst (store_upd cmp k v m) = map fst m"
  by (induction m rule: store_upd.induct [where ?a0.0 = cmp and ?a1.0 = k and ?a2.0 = v]) auto

lemma store_ok_keys: "store_ok cmp K m \<longleftrightarrow> (\<forall>k \<in> set (map fst m). K k) \<and> sorted_wrt (\<lambda>a b. cmp a b < 0) (map fst m)"
  by (auto simp: store_ok_def sorted_wrt_map)

lemma store_upd_ok: "store_ok cmp K m \<Longrightarrow> store_ok cmp K (store_upd cmp k v m)"
  unfolding store_ok_keys store_upd_keys .

lemma store_find_upd:
  "K k \<Longrightarrow> K k' \<Longrightarrow> store_ok cmp K m \<Longrightarrow> store_find cmp k m \<noteq> None \<Longrightarrow>
   store_find cmp k' (store_upd cmp k v m) = (if k' = k then Some v else store_find cmp k' m)"
  by (induction m) (auto simp: cmp_eq)

lemma store_del_filter: "K k \<Longrightarrow> store_ok cmp K m \<Longrightarrow> store_del cmp k m = filter (\<lambda>e. fst e \<noteq> k) m"
proof (induction m)
  case (Cons e m)
  obtain k' v' where e: "e = (k', v')" by (cases e)
  show ?case
  proof (cases "k = k'")
    case True
    with Cons.prems cmp_refl have "\<forall>e \<in> set m. fst e \<noteq> k" unfolding e by fastforce
    with True Cons.prems show ?thesis by (simp add: e cmp_refl)
  next
    case False
    with Cons show ?thesis by (simp add: e cmp_eq)
  qed
qed simp

lemma store_del_ok: "K k \<Longrightarrow> store_ok cmp K m \<Longrightarrow> store_ok cmp K (store_del cmp k m)"
  by (simp add: store_del_filter) (auto simp: store_ok_def intro: sorted_wrt_filter)

lemma store_find_del:
  assumes "K k" "K k'" "store_ok cmp K m"
  shows "store_find cmp k' (store_del cmp k m) = (if k' = k then None else store_find cmp k' m)"
proof -
  have "store_find cmp k' (store_del cmp k m) = Some w \<longleftrightarrow> k' \<noteq> k \<and> store_find cmp k' m = Some w" for w
    using store_find_Some [OF assms(2) store_del_ok [OF assms(1,3)], of w] store_find_Some [OF assms(2,3), of w]
      assms by (auto simp: store_del_filter)
  then show ?thesis by (metis option.exhaust)
qed

lemma store_distinct: "store_ok cmp K m \<Longrightarrow> distinct (map fst m)"
proof (induction m)
  case (Cons e m)
  then show ?case by (cases e) (auto simp: cmp_refl dest!: bspec)
qed simp

end

subsection \<open>What the map interface promises\<close>

text \<open>
  The contract of map.c for its clients, over the entries in key order: an insertion
  refuses a key that is present (and fails when the node cannot be allocated), a
  replacement overwrites or inserts, a removal reports whether the key was there.
\<close>

definition spec_insert :: "('k \<Rightarrow> 'k \<Rightarrow> int) \<Rightarrow> bool \<Rightarrow> 'k \<Rightarrow> 'v \<Rightarrow> ('k \<times> 'v) list \<Rightarrow> bool \<times> ('k \<times> 'v) list" where
  "spec_insert cmp ok k v m =
     (if store_find cmp k m \<noteq> None then (False, m) else if ok then (True, store_ins cmp k v m) else (False, m))"

definition spec_replace :: "('k \<Rightarrow> 'k \<Rightarrow> int) \<Rightarrow> bool \<Rightarrow> 'k \<Rightarrow> 'v \<Rightarrow> ('k \<times> 'v) list \<Rightarrow> bool \<times> ('k \<times> 'v) list" where
  "spec_replace cmp ok k v m =
     (if store_find cmp k m \<noteq> None then (True, store_upd cmp k v m) else spec_insert cmp ok k v m)"

definition spec_remove :: "('k \<Rightarrow> 'k \<Rightarrow> int) \<Rightarrow> 'k \<Rightarrow> ('k \<times> 'v) list \<Rightarrow> bool \<times> ('k \<times> 'v) list" where
  "spec_remove cmp k m = (if store_find cmp k m = None then (False, m) else (True, store_del cmp k m))"

lemmas spec_defs = spec_insert_def spec_replace_def spec_remove_def

locale map_laws =
  fixes find :: "'k \<Rightarrow> 'm \<Rightarrow> 'v option"
    and ins :: "bool \<Rightarrow> 'k \<Rightarrow> 'v \<Rightarrow> 'm \<Rightarrow> bool \<times> 'm"
    and rep :: "bool \<Rightarrow> 'k \<Rightarrow> 'v \<Rightarrow> 'm \<Rightarrow> bool \<times> 'm"
    and rem :: "'k \<Rightarrow> 'm \<Rightarrow> bool \<times> 'm"
    and inv :: "'m \<Rightarrow> bool"
    and K :: "'k \<Rightarrow> bool"
  assumes ins_ret: "K k \<Longrightarrow> inv m \<Longrightarrow> fst (ins ok k v m) \<longleftrightarrow> ok \<and> find k m = None"
    and ins_fail: "K k \<Longrightarrow> inv m \<Longrightarrow> \<not> fst (ins ok k v m) \<Longrightarrow> snd (ins ok k v m) = m"
    and ins_find: "K k \<Longrightarrow> K k' \<Longrightarrow> inv m \<Longrightarrow> fst (ins ok k v m) \<Longrightarrow>
          find k' (snd (ins ok k v m)) = (if k' = k then Some v else find k' m)"
    and ins_inv: "K k \<Longrightarrow> inv m \<Longrightarrow> inv (snd (ins ok k v m))"
    and rep_ret: "K k \<Longrightarrow> inv m \<Longrightarrow> fst (rep ok k v m) \<longleftrightarrow> ok \<or> find k m \<noteq> None"
    and rep_fail: "K k \<Longrightarrow> inv m \<Longrightarrow> \<not> fst (rep ok k v m) \<Longrightarrow> snd (rep ok k v m) = m"
    and rep_find: "K k \<Longrightarrow> K k' \<Longrightarrow> inv m \<Longrightarrow> fst (rep ok k v m) \<Longrightarrow>
          find k' (snd (rep ok k v m)) = (if k' = k then Some v else find k' m)"
    and rep_inv: "K k \<Longrightarrow> inv m \<Longrightarrow> inv (snd (rep ok k v m))"
    and rem_ret: "K k \<Longrightarrow> inv m \<Longrightarrow> fst (rem k m) \<longleftrightarrow> find k m \<noteq> None"
    and rem_find: "K k \<Longrightarrow> K k' \<Longrightarrow> inv m \<Longrightarrow>
          find k' (snd (rem k m)) = (if k' = k then None else find k' m)"
    and rem_inv: "K k \<Longrightarrow> inv m \<Longrightarrow> inv (snd (rem k m))"
begin

lemma ins_find_self: "K k \<Longrightarrow> inv m \<Longrightarrow> fst (ins ok k v m) \<Longrightarrow> find k (snd (ins ok k v m)) = Some v"
  by (simp add: ins_find)

lemma ins_find_any: "K k \<Longrightarrow> K k' \<Longrightarrow> inv m \<Longrightarrow>
    find k' (snd (ins ok k v m)) = (if ok \<and> find k m = None \<and> k' = k then Some v else find k' m)"
  by (cases "fst (ins ok k v m)") (auto simp: ins_find ins_ret ins_fail)

lemma ins_rem: "K k \<Longrightarrow> K k' \<Longrightarrow> inv m \<Longrightarrow> fst (ins ok k v m) \<Longrightarrow>
    find k' (snd (rem k (snd (ins ok k v m)))) = find k' m"
  by (auto simp: rem_find ins_inv ins_find ins_ret)

end

context key_cmp
begin

lemma spec_map_laws: "map_laws (store_find cmp) (spec_insert cmp) (spec_replace cmp) (spec_remove cmp) (store_ok cmp K) K"
  by unfold_locales
    (auto simp: spec_defs store_find_ins store_find_upd store_find_del store_ins_ok store_upd_ok store_del_ok)

end

type_synonym 'v smap = "(string \<times> 'v) list"

abbreviation smap_find :: "string \<Rightarrow> 'v smap \<Rightarrow> 'v option" where
  "smap_find \<equiv> store_find rbtree_str_cmp"

abbreviation smap_insert :: "bool \<Rightarrow> string \<Rightarrow> 'v \<Rightarrow> 'v smap \<Rightarrow> bool \<times> 'v smap" where
  "smap_insert \<equiv> spec_insert rbtree_str_cmp"

abbreviation smap_replace :: "bool \<Rightarrow> string \<Rightarrow> 'v \<Rightarrow> 'v smap \<Rightarrow> bool \<times> 'v smap" where
  "smap_replace \<equiv> spec_replace rbtree_str_cmp"

abbreviation smap_remove :: "string \<Rightarrow> 'v smap \<Rightarrow> bool \<times> 'v smap" where
  "smap_remove \<equiv> spec_remove rbtree_str_cmp"

abbreviation smap_ok :: "'v smap \<Rightarrow> bool" where
  "smap_ok \<equiv> store_ok rbtree_str_cmp c_str"

interpretation smap: map_laws smap_find smap_insert smap_replace smap_remove smap_ok c_str
  by (rule str_cmp.spec_map_laws)

end
