(* ===== verification/Convert.thy ===== *)
theory Convert
  imports Prelude
begin

section \<open>Conversions between strings and numbers\<close>

text \<open>
  src/src/utils/cutils/utils_convert.c on top of a model of the C library functions it calls:
  \<open>strtol\<close>, \<open>strtoll\<close>, \<open>strtoul\<close> and \<open>strtoull\<close> (64 bit \<open>long\<close>) with bases 0 and 8,
  and the conversions \<open>%llu\<close> and \<open>%lld\<close> of \<open>snprintf\<close>.  A function that returns a
  status and writes \<open>*converted\<close> gives a \<open>conv\<close>: either the negative errno value it
  returns, or the converted value.  A NULL \<open>numstr\<close> is None; the callers always pass a
  destination.
\<close>

definition EINVAL :: int where "EINVAL = 22"

definition ERANGE :: int where "ERANGE = 34"

definition ENOMEM :: int where "ENOMEM = 12"

type_synonym 'a conv = "int + 'a"

subsection \<open>The C library\<close>

text \<open>The value of a digit in any base up to 36.\<close>

definition digit_val :: "char \<Rightarrow> nat option" where
  "digit_val c =
     (if 48 \<le> code c \<and> code c \<le> 57 then Some (code c - 48)
      else if 97 \<le> code c \<and> code c \<le> 122 then Some (code c - 87)
      else if 65 \<le> code c \<and> code c \<le> 90 then Some (code c - 55)
      else None)"

definition is_digit_of :: "nat \<Rightarrow> char \<Rightarrow> bool" where
  "is_digit_of base c = (case digit_val c of None \<Rightarrow> False | Some d \<Rightarrow> d < base)"

fun digits_val :: "nat \<Rightarrow> nat \<Rightarrow> string \<Rightarrow> nat" where
  "digits_val base acc [] = acc"
| "digits_val base acc (c # cs) = digits_val base (acc * base + the (digit_val c)) cs"

text \<open>The sign, if any: whether it is a minus, and what follows it.\<close>

definition split_sign :: "string \<Rightarrow> bool \<times> string" where
  "split_sign s =
     (case s of
        [] \<Rightarrow> (False, [])
      | c # r \<Rightarrow> if c = CHR ''-'' then (True, r) else if c = CHR ''+'' then (False, r) else (False, s))"

text \<open>Base 0 reads the base off the prefix; a prefix \<open>0x\<close> counts only when a hexadecimal digit
  follows it.\<close>

definition split_base :: "nat \<Rightarrow> string \<Rightarrow> nat \<times> string" where
  "split_base base s =
     (if base = 0 then
        (case s of
           c # x # d # r \<Rightarrow>
             if c = CHR ''0'' \<and> (x = CHR ''x'' \<or> x = CHR ''X'') \<and> is_digit_of 16 d then (16, d # r)
             else if c = CHR ''0'' then (8, s) else (10, s)
         | c # r \<Rightarrow> if c = CHR ''0'' then (8, s) else (10, s)
         | [] \<Rightarrow> (10, s))
      else (base, s))"

text \<open>What the four functions share: the sign, the magnitude, and the rest of the string at
  \<open>*endptr\<close>; None when no digit was read, in which case \<open>*endptr\<close> is the start of the string.\<close>

definition strto :: "nat \<Rightarrow> string \<Rightarrow> (bool \<times> nat \<times> string) option" where
  "strto base s =
     (let (neg, r) = split_sign (dropWhile isspace s);
          (b, ds) = split_base base r;
          digits = takeWhile (is_digit_of b) ds
      in if digits = [] then None
         else Some (neg, digits_val b 0 digits, dropWhile (is_digit_of b) ds))"

text \<open>The value, the errno (0 or \<^const>\<open>ERANGE\<close>), and whether \<open>is_invalid_error_str\<close> holds of
  \<open>*endptr\<close>: nothing was read or something is left.\<close>

definition strtoll :: "nat \<Rightarrow> string \<Rightarrow> int \<times> int \<times> bool" where
  "strtoll base s =
     (case strto base s of
        None \<Rightarrow> (0, 0, True)
      | Some (neg, m, rest) \<Rightarrow>
          let v = (if neg then - int m else int m)
          in if v > INT64_MAX then (INT64_MAX, ERANGE, rest \<noteq> [])
             else if v < INT64_MIN then (INT64_MIN, ERANGE, rest \<noteq> [])
             else (v, 0, rest \<noteq> []))"

definition strtoull :: "nat \<Rightarrow> string \<Rightarrow> int \<times> int \<times> bool" where
  "strtoull base s =
     (case strto base s of
        None \<Rightarrow> (0, 0, True)
      | Some (neg, m, rest) \<Rightarrow>
          if int m > UINT64_MAX then (UINT64_MAX, ERANGE, rest \<noteq> [])
          else (if neg then (- int m) mod 2 ^ 64 else int m, 0, rest \<noteq> []))"

fun show_nat :: "nat \<Rightarrow> string" where
  "show_nat n = (if n < 10 then [char_of (48 + n)] else show_nat (n div 10) @ [char_of (48 + n mod 10)])"

declare show_nat.simps [simp del]

definition show_int :: "int \<Rightarrow> string" where
  "show_int n = (if n < 0 then CHR ''-'' # show_nat (nat (- n)) else show_nat (nat n))"

subsection \<open>utils\_convert.c\<close>

definition MAX_NUM_STR_LEN :: nat where "MAX_NUM_STR_LEN = 21"

definition util_safe_u16 :: "string option \<Rightarrow> int conv" where
  "util_safe_u16 numstr =
     (case numstr of
        None \<Rightarrow> Inl (- EINVAL)
      | Some s \<Rightarrow>
          let (ui, errno, invalid) = strtoull 0 s
          in if errno > 0 then Inl (- errno)
             else if invalid then Inl (- EINVAL)
             else if ui > 65535 then Inl (- ERANGE)
             else Inr ui)"

definition util_safe_int :: "string option \<Rightarrow> int conv" where
  "util_safe_int num_str =
     (case num_str of
        None \<Rightarrow> Inl (- EINVAL)
      | Some s \<Rightarrow>
          let (li, errno, invalid) = strtoll 0 s
          in if errno > 0 then Inl (- errno)
             else if invalid then Inl (- EINVAL)
             else if li > INT_MAX \<or> li < INT_MIN then Inl (- ERANGE)
             else Inr li)"

definition util_safe_uint :: "string option \<Rightarrow> int conv" where
  "util_safe_uint numstr =
     (case numstr of
        None \<Rightarrow> Inl (- EINVAL)
      | Some s \<Rightarrow>
          let (ull, errno, invalid) = strtoull 0 s
          in if errno > 0 then Inl (- errno)
             else if invalid then Inl (- EINVAL)
             else if ull > UINT32_MAX then Inl (- ERANGE)
             else Inr ull)"

definition util_safe_uint64 :: "string option \<Rightarrow> int conv" where
  "util_safe_uint64 numstr =
     (case numstr of
        None \<Rightarrow> Inl (- EINVAL)
      | Some s \<Rightarrow>
          let (ull, errno, invalid) = strtoull 0 s
          in if errno > 0 then Inl (- errno)
             else if invalid then Inl (- EINVAL)
             else Inr ull)"

definition util_parse_octal_uint32 :: "string option \<Rightarrow> int conv" where
  "util_parse_octal_uint32 numstr =
     (case numstr of
        None \<Rightarrow> Inl (- EINVAL)
      | Some s \<Rightarrow>
          let (ll, errno, invalid) = strtoll 8 s
          in if errno > 0 then Inl (- errno)
             else if invalid \<or> ll < 0 \<or> ll > UINT32_MAX then Inl (- EINVAL)
             else Inr ll)"

definition util_safe_llong :: "string option \<Rightarrow> int conv" where
  "util_safe_llong numstr =
     (case numstr of
        None \<Rightarrow> Inl (- EINVAL)
      | Some s \<Rightarrow>
          let (ll, errno, invalid) = strtoll 0 s
          in if errno > 0 then Inl (- errno)
             else if invalid then Inl (- EINVAL)
             else Inr ll)"

definition is_valid_str_bool_true :: "string \<Rightarrow> bool" where
  "is_valid_str_bool_true str \<longleftrightarrow>
     str = ''1'' \<or> str = ''t'' \<or> str = ''T'' \<or> str = ''true'' \<or> str = ''TRUE'' \<or> str = ''True''"

definition is_valid_str_bool_false :: "string \<Rightarrow> bool" where
  "is_valid_str_bool_false str \<longleftrightarrow>
     str = ''0'' \<or> str = ''f'' \<or> str = ''F'' \<or> str = ''false'' \<or> str = ''FALSE'' \<or> str = ''False''"

definition util_str_to_bool :: "string option \<Rightarrow> bool conv" where
  "util_str_to_bool boolstr =
     (case boolstr of
        None \<Rightarrow> Inl (- EINVAL)
      | Some s \<Rightarrow> if is_valid_str_bool_true s then Inr True
                 else if is_valid_str_bool_false s then Inr False
                 else Inl (- EINVAL))"

text \<open>\<open>snprintf\<close> returns the length of the full text and stores as much of it as fits.\<close>

definition util_uint_to_string :: "nat \<Rightarrow> string option" where
  "util_uint_to_string d =
     (if length (show_nat d) \<ge> MAX_NUM_STR_LEN then None else Some (show_nat d))"

definition util_int_to_string :: "int \<Rightarrow> string option" where
  "util_int_to_string d =
     (if length (show_int d) \<ge> MAX_NUM_STR_LEN then None else Some (show_int d))"

subsection \<open>Printing and reading\<close>

lemma digit_val_char [simp]: "n < 10 \<Longrightarrow> digit_val (char_of (48 + n)) = Some n"
  by (simp add: digit_val_def)

lemma is_digit_char [simp]: "n < 10 \<Longrightarrow> n < b \<Longrightarrow> is_digit_of b (char_of (48 + n))"
  by (simp add: is_digit_of_def)

lemma digits_val_append: "digits_val b acc (s @ t) = digits_val b (digits_val b acc s) t"
  by (induction s arbitrary: acc) simp_all

lemma digits_val_show_nat: "digits_val 10 0 (show_nat n) = n"
proof (induction n rule: show_nat.induct)
  case (1 n)
  show ?case
  proof (cases "n < 10")
    case False
    have "digits_val 10 0 (show_nat n) = digits_val 10 0 (show_nat (n div 10)) * 10 + n mod 10"
      using False by (subst show_nat.simps) (simp add: digits_val_append)
    with False 1 show ?thesis by simp
  qed (subst show_nat.simps, simp)
qed

lemma show_nat_digits: "list_all (is_digit_of 10) (show_nat n)"
proof (induction n rule: show_nat.induct)
  case (1 n)
  then show ?case by (subst show_nat.simps) simp
qed

lemma show_nat_Cons: "\<exists>(d::nat) r. show_nat n = char_of (48 + d) # r \<and> d < 10 \<and> (d = 0 \<longrightarrow> n = 0 \<and> r = [])"
proof (induction n rule: show_nat.induct)
  case (1 n)
  show ?case
  proof (cases "n < 10")
    case True
    then have "show_nat n = char_of (48 + n) # []" by (subst show_nat.simps) simp
    with True show ?thesis by blast
  next
    case False
    with 1 obtain d :: nat and r where "show_nat (n div 10) = char_of (48 + d) # r" "d < 10" "d = 0 \<longrightarrow> n div 10 = 0"
      by blast
    moreover from this False have "show_nat n = char_of (48 + d) # (r @ [char_of (48 + n mod 10)])"
      by (subst show_nat.simps) simp
    ultimately show ?thesis using False by (metis div_eq_0_iff zero_neq_numeral)
  qed
qed

lemma show_nat_length: "n < 10 ^ k \<Longrightarrow> 0 < k \<Longrightarrow> length (show_nat n) \<le> k"
proof (induction k arbitrary: n)
  case (Suc k)
  show ?case
  proof (cases "n < 10")
    case False
    with Suc.prems have "0 < k" "n div 10 < 10 ^ k" by (cases k; auto)+
    with Suc.IH False show ?thesis by (subst show_nat.simps) simp
  qed (subst show_nat.simps, simp)
qed simp

lemma takeWhile_all: "list_all P xs \<Longrightarrow> takeWhile P xs = xs \<and> dropWhile P xs = []"
  by (induction xs) auto

lemma char_of_digit_not [simp]:
  "(d::nat) < 10 \<Longrightarrow> \<not> isspace (char_of (48 + d))"
  "d < 10 \<Longrightarrow> char_of (48 + d) \<noteq> CHR ''-''"
  "d < 10 \<Longrightarrow> char_of (48 + d) \<noteq> CHR ''+''"
  "d < 10 \<Longrightarrow> char_of (48 + d) = CHR ''0'' \<longleftrightarrow> d = 0"
proof -
  assume d: "d < 10"
  then have c: "code (char_of (48 + d)) = 48 + d" by simp
  then show "\<not> isspace (char_of (48 + d))" by (simp add: isspace_def)
  have "code (CHR ''-'') = 45" "code (CHR ''+'') = 43" "code (CHR ''0'') = 48"
    by (simp_all add: code_def)
  then show "char_of (48 + d) \<noteq> CHR ''-''" "char_of (48 + d) \<noteq> CHR ''+''"
    "char_of (48 + d) = CHR ''0'' \<longleftrightarrow> d = 0"
    using c code_inject [of "char_of (48 + d)" "CHR ''-''"] code_inject [of "char_of (48 + d)" "CHR ''+''"]
      code_inject [of "char_of (48 + d)" "CHR ''0''"] by linarith+
qed

lemma strto_show_nat:
  "(case split_base 0 (show_nat n) of (b, ds) \<Rightarrow>
      takeWhile (is_digit_of b) ds \<noteq> [] \<and> digits_val b 0 (takeWhile (is_digit_of b) ds) = n \<and>
      dropWhile (is_digit_of b) ds = [])"
proof -
  obtain d :: nat and r where s: "show_nat n = char_of (48 + d) # r" and d: "d < 10" "d = 0 \<longrightarrow> n = 0 \<and> r = []"
    using show_nat_Cons by blast
  show ?thesis
  proof (cases "d = 0")
    case True
    then have "split_base 0 (show_nat n) = (8, show_nat n)" "show_nat n = [char_of (48 + (0::nat))]" "n = 0"
      using s d char_of_digit_not(4) [of 0] by (auto simp: split_base_def)
    then show ?thesis using is_digit_char [of 0 8] digit_val_char [of 0] by simp
  next
    case False
    then have "split_base 0 (show_nat n) = (10, show_nat n)"
      using s d by (simp add: split_base_def split: list.splits)
    moreover have "show_nat n \<noteq> []" by (simp add: s)
    ultimately show ?thesis
      by (simp only: takeWhile_all [OF show_nat_digits [of n]] digits_val_show_nat [of n] prod.case) simp
  qed
qed

lemma strto_show_int: "strto 0 (show_int n) = Some (n < 0, nat \<bar>n\<bar>, [])"
proof -
  have nat: "split_sign (dropWhile isspace (show_nat m)) = (False, show_nat m)" for m
    using show_nat_Cons [of m] by (auto simp: split_sign_def)
  have minus: "split_sign (dropWhile isspace (CHR ''-'' # s)) = (True, s)" for s
    by (simp add: split_sign_def isspace_def code_def)
  show ?thesis
    using strto_show_nat [of "nat \<bar>n\<bar>"] nat [of "nat n"] minus
    by (cases "n < 0") (auto simp: strto_def show_int_def Let_def split: prod.splits)
qed

lemma show_int_nat: "show_nat n = show_int (int n)"
  by (simp add: show_int_def)

lemma show_int_length: "\<bar>n\<bar> < 10 ^ k \<Longrightarrow> 0 < k \<Longrightarrow> length (show_int n) \<le> Suc k"
  using show_nat_length [of "nat \<bar>n\<bar>" k] by (auto simp: show_int_def nat_less_iff le_SucI)

lemma strtoll_show: "INT64_MIN \<le> n \<Longrightarrow> n \<le> INT64_MAX \<Longrightarrow> strtoll 0 (show_int n) = (n, 0, False)"
  by (auto simp: strtoll_def strto_show_int)

lemma strtoull_show:
  "\<bar>n\<bar> \<le> UINT64_MAX \<Longrightarrow> strtoull 0 (show_int n) = (if n < 0 then n mod 2 ^ 64 else n, 0, False)"
  by (auto simp: strtoull_def strto_show_int)

lemma strtoull_range: "strtoull b s = (v, e, i) \<Longrightarrow> 0 \<le> v \<and> v \<le> UINT64_MAX"
  using pos_mod_bound [of "2 ^ 64 :: int"] pos_mod_sign [of "2 ^ 64 :: int"]
  by (fastforce simp: strtoull_def UINT64_MAX_def split: option.splits if_splits)

lemma strtoll_range: "strtoll b s = (v, e, i) \<Longrightarrow> INT64_MIN \<le> v \<and> v \<le> INT64_MAX"
  by (auto simp: strtoll_def Let_def INT64_MIN_def INT64_MAX_def split: option.splits if_splits)

text \<open>C37. Every 64 bit signed number is printed by \<open>util_int_to_string\<close> within its buffer, and
  reading the text back gives the number: as a \<open>long long\<close> always, as an \<open>int\<close> when it
  fits and -ERANGE when it does not.\<close>

theorem util_int_to_string_roundtrip:
  assumes "INT64_MIN \<le> n" "n \<le> INT64_MAX"
  shows "\<exists>s. util_int_to_string n = Some s \<and> util_safe_llong (Some s) = Inr n \<and>
    util_safe_int (Some s) = (if INT_MIN \<le> n \<and> n \<le> INT_MAX then Inr n else Inl (- ERANGE))"
proof -
  have "length (show_int n) < MAX_NUM_STR_LEN"
    using show_int_length [of n 19] assms
    by (simp add: MAX_NUM_STR_LEN_def INT64_MIN_def INT64_MAX_def abs_less_iff)
  with strtoll_show [OF assms] show ?thesis
    by (auto simp: util_int_to_string_def util_safe_llong_def util_safe_int_def)
qed

theorem util_int_to_string_roundtrip_witness:
  "\<exists>s. util_int_to_string (- 77) = Some s \<and> util_safe_int (Some s) = Inr (- 77)"
  using util_int_to_string_roundtrip [of "- 77"]
  by (auto simp: INT64_MIN_def INT64_MAX_def INT_MIN_def INT_MAX_def)

text \<open>Every 64 bit unsigned number is printed by \<open>util_uint_to_string\<close> within its buffer and
  read back: by \<open>util_safe_uint64\<close> always, by \<open>util_safe_uint\<close> and \<open>util_safe_u16\<close> when it
  fits their width, and -ERANGE otherwise.\<close>

theorem util_uint_to_string_roundtrip:
  assumes "int n \<le> UINT64_MAX"
  shows "\<exists>s. util_uint_to_string n = Some s \<and> util_safe_uint64 (Some s) = Inr (int n) \<and>
    util_safe_uint (Some s) = (if n < 2 ^ 32 then Inr (int n) else Inl (- ERANGE)) \<and>
    util_safe_u16 (Some s) = (if n < 2 ^ 16 then Inr (int n) else Inl (- ERANGE))"
proof -
  have "length (show_nat n) < MAX_NUM_STR_LEN"
    using show_nat_length [of n 20] assms by (simp add: MAX_NUM_STR_LEN_def UINT64_MAX_def)
  moreover have "strtoull 0 (show_nat n) = (int n, 0, False)"
    using strtoull_show [of "int n"] assms by (simp add: show_int_nat)
  ultimately show ?thesis
    by (auto simp: util_uint_to_string_def util_safe_uint64_def util_safe_uint_def util_safe_u16_def UINT32_MAX_def)
qed

theorem util_uint_to_string_roundtrip_witness:
  "\<exists>s. util_uint_to_string 70000 = Some s \<and> util_safe_uint (Some s) = Inr 70000 \<and>
       util_safe_u16 (Some s) = Inl (- ERANGE)"
  using util_uint_to_string_roundtrip [of 70000] by (auto simp: UINT64_MAX_def)



end
