(* ===== verification/Strings.thy ===== *)
theory Strings
  imports Complex_Main "HOL-Library.Log_Nat" Map_Store Convert
begin

section \<open>Strings and arrays of strings\<close>

text \<open>
  src/src/utils/cutils/utils_array.c and src/src/utils/cutils/utils_string.c.  A \<open>char **\<close> is the
  list of its cells, a NULL cell being None; an array that is read up to its terminator is the list
  up to the first None (\<open>strings_of\<close>).  In-place edits of a buffer return the new content.
\<close>

type_synonym str_array = "string option list"

subsection \<open>utils\_array.c\<close>

fun util_array_len :: "str_array \<Rightarrow> nat" where
  "util_array_len [] = 0"
| "util_array_len (None # r) = 0"
| "util_array_len (Some s # r) = Suc (util_array_len r)"

definition array_len :: "str_array option \<Rightarrow> nat" where
  "array_len a = (case a of None \<Rightarrow> 0 | Some a \<Rightarrow> util_array_len a)"

definition strings_of :: "str_array \<Rightarrow> string list" where
  "strings_of a = map the (takeWhile (\<lambda>c. c \<noteq> None) a)"

definition util_array_append :: "bool \<Rightarrow> str_array option \<Rightarrow> string option \<Rightarrow> int \<times> str_array option" where
  "util_array_append calloc array element =
     (case element of
        None \<Rightarrow> (-1, array)
      | Some e \<Rightarrow>
          let len = array_len array
          in if len > SIZE_MAX div 8 - 2 then (-1, array)
             else if \<not> util_common_calloc_s calloc ((len + 2) * 8) then (-1, array)
             else let new_array = replicate (len + 2) None;
                      new_array = (case array of None \<Rightarrow> new_array
                                   | Some a \<Rightarrow> take len a @ drop len new_array)
                  in (0, Some (new_array[len := Some e])))"

function grow_capacity :: "nat \<Rightarrow> nat \<Rightarrow> nat \<Rightarrow> nat" where
  "grow_capacity n increment add_capacity =
     (if increment \<noteq> 0 \<and> n + 1 > add_capacity then grow_capacity n increment (add_capacity + increment)
      else add_capacity)"
  by auto
termination
  by (relation "measure (\<lambda>(n, i, c). Suc n - c)") auto

declare grow_capacity.simps [simp del]

text \<open>\<open>util_grow_array\<close> on the array and its capacity; None is the return of -1.\<close>

definition util_grow_array ::
    "bool \<Rightarrow> str_array option \<Rightarrow> nat \<Rightarrow> nat \<Rightarrow> nat \<Rightarrow> (str_array option \<times> nat) option" where
  "util_grow_array calloc orig_array orig_capacity n increment =
     (if increment = 0 then None
      else let (orig_array, orig_capacity) =
                 (if orig_array = None \<or> orig_capacity = 0 then (None, 0) else (orig_array, orig_capacity));
               add_capacity = grow_capacity n increment orig_capacity
           in if add_capacity \<noteq> orig_capacity then
                (if add_capacity > SIZE_MAX div 8 then None
                 else if \<not> util_common_calloc_s calloc (add_capacity * 8) then None
                 else let add_array = replicate add_capacity None;
                          add_array = (case orig_array of None \<Rightarrow> add_array
                                       | Some a \<Rightarrow> take orig_capacity a @ drop orig_capacity add_array)
                      in Some (Some add_array, add_capacity))
              else Some (orig_array, orig_capacity))"

subsection \<open>Searching\<close>

fun util_strings_contains_any :: "string option \<Rightarrow> string option \<Rightarrow> bool" where
  "util_strings_contains_any (Some str) (Some substr) = list_ex (\<lambda>a. list_ex (\<lambda>b. a = b) substr) str"
| "util_strings_contains_any _ _ = False"

text \<open>\<open>strcasestr\<close> finds the needle up to the case of letters.\<close>

fun util_strings_contains_word :: "string option \<Rightarrow> string option \<Rightarrow> bool" where
  "util_strings_contains_word (Some str) (Some substr) = (strstr (map tolower str) (map tolower substr) \<noteq> None)"
| "util_strings_contains_word _ _ = False"

text \<open>\<open>str[i] == c\<close> compares a signed \<open>char\<close> with an \<open>unsigned char\<close>: they are equal only for a
  character below 128.\<close>

definition uchar_eq :: "char \<Rightarrow> char \<Rightarrow> bool" where
  "uchar_eq s c \<longleftrightarrow> char_int s = int (code c)"

definition util_strings_count :: "string option \<Rightarrow> char \<Rightarrow> nat" where
  "util_strings_count str c = (case str of None \<Rightarrow> 0 | Some s \<Rightarrow> foldl (\<lambda>res a. if uchar_eq a c then Suc res else res) 0 s)"

definition util_strings_in_slice :: "str_array option \<Rightarrow> nat \<Rightarrow> string option \<Rightarrow> bool" where
  "util_strings_in_slice strarray alen str =
     (case (strarray, str) of
        (Some a, Some s) \<Rightarrow> alen \<noteq> 0 \<and> list_ex (\<lambda>c. case c of None \<Rightarrow> False | Some e \<Rightarrow> strcaseeq e s) (take alen a)
      | _ \<Rightarrow> False)"

definition util_strings_to_lower :: "string option \<Rightarrow> string option" where
  "util_strings_to_lower str = map_option (map tolower) str"

definition util_strings_to_upper :: "string option \<Rightarrow> string option" where
  "util_strings_to_upper str = map_option (map toupper) str"

fun skip_str :: "string \<Rightarrow> string \<Rightarrow> string option" where
  "skip_str str [] = Some str"
| "skip_str [] (k # skip) = None"
| "skip_str (c # str) (k # skip) = (if c \<noteq> k then None else skip_str str skip)"

definition util_str_skip_str :: "string option \<Rightarrow> string option \<Rightarrow> string option" where
  "util_str_skip_str str skip =
     (case (str, skip) of (Some s, Some k) \<Rightarrow> skip_str s k | _ \<Rightarrow> None)"

definition util_is_space_string :: "string option \<Rightarrow> bool" where
  "util_is_space_string str = (case str of None \<Rightarrow> False | Some s \<Rightarrow> list_all isspace s)"

definition util_has_prefix :: "string option \<Rightarrow> string option \<Rightarrow> bool" where
  "util_has_prefix str pre =
     (case (str, pre) of
        (Some s, Some p) \<Rightarrow> \<not> length s < length p \<and> take (length p) s = p
      | _ \<Rightarrow> False)"

definition util_has_suffix :: "string option \<Rightarrow> string option \<Rightarrow> bool" where
  "util_has_suffix str suf =
     (case (str, suf) of
        (Some s, Some p) \<Rightarrow> \<not> length s < length p \<and> drop (length s - length p) s = p
      | _ \<Rightarrow> False)"

subsection \<open>Sizes\<close>

definition SIZE_KB :: int where "SIZE_KB = 1024"

definition SIZE_MB :: int where "SIZE_MB = 1024 * SIZE_KB"

definition SIZE_GB :: int where "SIZE_GB = 1024 * SIZE_MB"

definition SIZE_TB :: int where "SIZE_TB = 1024 * SIZE_GB"

definition SIZE_PB :: int where "SIZE_PB = 1024 * SIZE_TB"

lemmas size_defs = SIZE_KB_def SIZE_MB_def SIZE_GB_def SIZE_TB_def SIZE_PB_def

definition g_unit_map :: "(int \<times> string) list" where
  "g_unit_map =
     [(1, ''I''), (1, ''B''), (1, ''IB''),
      (SIZE_KB, ''K''), (SIZE_KB, ''KI''), (SIZE_KB, ''KB''),
      (SIZE_KB, ''KIB''), (SIZE_MB, ''M''), (SIZE_MB, ''MI''),
      (SIZE_MB, ''MB''), (SIZE_MB, ''MIB''), (SIZE_GB, ''G''),
      (SIZE_GB, ''GI''), (SIZE_GB, ''GB''), (SIZE_GB, ''GIB''),
      (SIZE_TB, ''T''), (SIZE_TB, ''TI''), (SIZE_TB, ''TB''),
      (SIZE_TB, ''TIB''), (SIZE_PB, ''P''), (SIZE_PB, ''PI''),
      (SIZE_PB, ''PB''), (SIZE_PB, ''PIB'')]"

fun find_unit :: "string \<Rightarrow> (int \<times> string) list \<Rightarrow> int option" where
  "find_unit unit [] = None"
| "find_unit unit ((m, name) # r) = (if strcaseeq unit name then Some m else find_unit unit r)"

definition parse_unit_multiple :: "string \<Rightarrow> int option" where
  "parse_unit_multiple unit = (if unit = [] then Some 1 else find_unit unit g_unit_map)"

text \<open>
  \<open>double\<close> arithmetic: a finite value is a rational, \<open>fl\<close> rounds to 53 bits, ties to even.
  \<open>strtod0 r\<close> is \<open>strtod\<close> on the text \<open>0.r\<close>: the digits of the fraction, then an optional
  exponent.  It reports ERANGE above the largest double and for an inexact result below the
  smallest normal one.
\<close>

definition log2_rat :: "rat \<Rightarrow> int" where
  "log2_rat q =
     (let (a, b) = quotient_of q;
          e = int (floorlog 2 (nat a)) - int (floorlog 2 (nat b))
      in if q < 2 powi e then e - 1 else e)"

definition round_even :: "rat \<Rightarrow> int" where
  "round_even x =
     (let n = \<lfloor>x\<rfloor>; d = x - of_int n
      in if d < 1 / 2 then n else if d > 1 / 2 then n + 1 else if even n then n else n + 1)"

definition fl :: "rat \<Rightarrow> rat" where
  "fl q = (if q = 0 then 0 else let u = 2 powi (log2_rat q - 52) in of_int (round_even (q / u)) * u)"

definition parse_exponent :: "string \<Rightarrow> int \<times> string" where
  "parse_exponent r =
     (case r of
        c # t \<Rightarrow>
          if c = CHR ''e'' \<or> c = CHR ''E'' then
            (let (neg, ds) = split_sign t; digits = takeWhile isdigit ds
             in if digits = [] then (0, r)
                else (if neg then - int (digits_val 10 0 digits) else int (digits_val 10 0 digits), dropWhile isdigit ds))
          else (0, r)
      | [] \<Rightarrow> (0, r))"

definition DBL_LIMIT :: rat where "DBL_LIMIT = 2 ^ 1024"

definition DBL_MIN :: rat where "DBL_MIN = 2 powi (- 1022)"

definition DENORMALS :: rat where "DENORMALS = 2 ^ 1074"

definition strtod0 :: "string \<Rightarrow> rat \<times> int \<times> bool" where
  "strtod0 r =
     (let digits = takeWhile isdigit r;
          (e, rest) = parse_exponent (dropWhile isdigit r);
          q = of_nat (digits_val 10 0 digits) / 10 ^ length digits * 10 powi e
      in if fl q \<ge> DBL_LIMIT then (DBL_LIMIT, ERANGE, rest \<noteq> [])
         else if 0 < q \<and> q < DBL_MIN \<and> q * DENORMALS \<noteq> of_int \<lfloor>q * DENORMALS\<rfloor>
           then (0, ERANGE, rest \<noteq> [])
         else (fl q, 0, rest \<noteq> []))"

text \<open>\<open>(int64_t)\<close> of a non-negative double, as the processor converts it when it does not fit; and
  the wrap-around of 64 bit signed arithmetic.\<close>

definition double_to_int64 :: "rat \<Rightarrow> int" where
  "double_to_int64 q = (if q < 2 ^ 63 then \<lfloor>q\<rfloor> else INT64_MIN)"

definition wrap64 :: "int \<Rightarrow> int" where
  "wrap64 x = (x + 2 ^ 63) mod 2 ^ 64 - 2 ^ 63"

definition parse_fraction :: "string \<Rightarrow> int \<Rightarrow> int conv" where
  "parse_fraction r mlt =
     (let (float_size, errno, invalid) = strtod0 r
      in if errno > 0 then Inl (- errno)
         else if invalid then Inl (- EINVAL)
         else if mlt > 0 then
           (if INT64_MAX div mlt < double_to_int64 float_size then Inl (- ERANGE)
            else Inr (double_to_int64 (fl (float_size * of_int mlt))))
         else Inr (double_to_int64 float_size))"

definition parse_whole :: "string \<Rightarrow> int \<Rightarrow> int \<Rightarrow> int conv" where
  "parse_whole numstr mlt float_real =
     (case util_safe_llong (Some numstr) of
        Inl e \<Rightarrow> Inl e
      | Inr int_size \<Rightarrow>
          if mlt > 0 \<and> INT64_MAX div mlt < int_size then Inl (- ERANGE)
          else let int_real = (if mlt > 0 then wrap64 (int_size * mlt) else int_size)
               in if wrap64 (INT64_MAX - int_real) < float_real then Inl (- ERANGE)
                  else Inr (wrap64 (int_real + float_real)))"

definition util_parse_size_int_and_float :: "string \<Rightarrow> int \<Rightarrow> int conv" where
  "util_parse_size_int_and_float numstr mlt =
     (case dropWhile (\<lambda>c. c \<noteq> CHR ''.'') numstr of
        [] \<Rightarrow> parse_whole numstr mlt 0
      | dot # r \<Rightarrow>
          let int_part = takeWhile (\<lambda>c. c \<noteq> CHR ''.'') numstr
          in if int_part = [] \<or> r = [] then Inl (- EINVAL)
             else case parse_fraction r mlt of
                    Inl e \<Rightarrow> Inl e
                  | Inr float_real \<Rightarrow> parse_whole int_part mlt float_real)"

definition util_parse_byte_size_string :: "string option \<Rightarrow> int conv" where
  "util_parse_byte_size_string str =
     (case str of
        None \<Rightarrow> Inl (- EINVAL)
      | Some s \<Rightarrow>
          if s = [] \<or> \<not> isdigit (hd s) then Inl (- EINVAL)
          else let P = (\<lambda>c. isdigit c \<or> c = CHR ''.'')
               in case parse_unit_multiple (dropWhile P s) of
                    None \<Rightarrow> Inl (- EINVAL)
                  | Some mltpl \<Rightarrow> util_parse_size_int_and_float (takeWhile P s) mltpl)"

text \<open>\<open>util_parse_percent_string\<close> does not clear errno before \<open>strtol\<close>: the value it has on
  entry is the argument \<open>errno0\<close>.\<close>

definition util_parse_percent_string :: "int \<Rightarrow> string option \<Rightarrow> int conv" where
  "util_parse_percent_string errno0 str =
     (case str of
        None \<Rightarrow> Inl (- EINVAL)
      | Some s \<Rightarrow>
          if s = [] \<or> length s < 2 \<or> last s \<noteq> CHR ''%'' \<or>
             \<not> list_all (\<lambda>c. isdigit c \<or> c = CHR ''%'') s then Inl (- EINVAL)
          else let (v, e, invalid) = strtoll 10 (butlast s);
                   errno = (if e \<noteq> 0 then e else errno0)
               in if errno = ERANGE \<and> (v = INT64_MAX \<or> v = INT64_MIN) \<or> errno \<noteq> 0 \<and> v = 0 \<or> v < 0 \<or> v > 100
                  then Inl (- EINVAL) else Inr v)"

subsection \<open>Splitting\<close>

definition util_shrink_array :: "bool \<Rightarrow> str_array \<Rightarrow> nat \<Rightarrow> str_array" where
  "util_shrink_array calloc orig_array new_size =
     (if new_size = 0 then orig_array
      else if new_size > SIZE_MAX div 8 then orig_array
      else if \<not> util_common_calloc_s calloc (new_size * 8) then orig_array
      else take new_size orig_array)"

definition make_empty_array :: "bool \<Rightarrow> str_array option" where
  "make_empty_array calloc = (if \<not> calloc then None else Some [Some [], None])"

definition strsep :: "char \<Rightarrow> string \<Rightarrow> string \<times> string option" where
  "strsep delim cur =
     (takeWhile (\<lambda>c. c \<noteq> delim) cur,
      case dropWhile (\<lambda>c. c \<noteq> delim) cur of [] \<Rightarrow> None | _ # rest \<Rightarrow> Some rest)"

lemma strsep_shorter: "strsep d cur = (t, Some rest) \<Longrightarrow> length rest < length cur"
  using length_dropWhile_le [of "\<lambda>c. c \<noteq> d" cur] by (auto simp: strsep_def split: list.splits simp del: length_dropWhile_le')

text \<open>The loop of \<open>util_string_split_multi\<close>: allocation i grows the array for token i; None is
  the exit through \<open>err_out\<close>.\<close>

function split_multi_loop ::
    "alloc \<Rightarrow> char \<Rightarrow> string option \<Rightarrow> str_array option \<Rightarrow> nat \<Rightarrow> nat \<Rightarrow> (str_array option \<times> nat) option" where
  "split_multi_loop al delim cur res_array capacity count =
     (case cur of
        None \<Rightarrow> Some (res_array, count)
      | Some s \<Rightarrow>
          (case util_grow_array (al count) res_array capacity (count + 1) 16 of
             None \<Rightarrow> None
           | Some (res_array, capacity) \<Rightarrow>
               (case strsep delim s of
                  (token, cur) \<Rightarrow>
                    split_multi_loop al delim cur (map_option (\<lambda>a. a[count := Some token]) res_array)
                      capacity (count + 1))))"
  by auto
termination
  by (relation "measure (\<lambda>(al, d, cur, r, cap, n). case cur of None \<Rightarrow> 0 | Some s \<Rightarrow> Suc (length s))")
    (auto split: option.splits dest: strsep_shorter [OF sym])

declare split_multi_loop.simps [simp del]

definition util_string_split_multi :: "alloc \<Rightarrow> string option \<Rightarrow> char \<Rightarrow> str_array option" where
  "util_string_split_multi al src_str delim =
     (case src_str of
        None \<Rightarrow> None
      | Some s \<Rightarrow>
          if s = [] then make_empty_array (al 0)
          else case split_multi_loop al delim (Some s) None 0 0 of
                 None \<Rightarrow> None
               | Some (res_array, count) \<Rightarrow>
                   map_option (\<lambda>a. util_shrink_array (al count) a (count + 1)) res_array)"

text \<open>\<open>util_string_split_n\<close>: allocation i appends piece i.\<close>

function split_n_loop :: "alloc \<Rightarrow> char \<Rightarrow> nat \<Rightarrow> string \<Rightarrow> str_array option \<Rightarrow> nat \<Rightarrow> str_array option" where
  "split_n_loop al sep n index res_array count =
     (case dropWhile (\<lambda>c. c \<noteq> sep) index of
        token # rest \<Rightarrow>
          (let count = count + 1
           in if count \<ge> n then
                (let (ret, a) = util_array_append (al (count - 1)) res_array (Some index)
                 in if ret \<noteq> 0 then None else a)
              else let (ret, a) = util_array_append (al (count - 1)) res_array (Some (takeWhile (\<lambda>c. c \<noteq> sep) index))
                   in if ret \<noteq> 0 then None else split_n_loop al sep n rest a count)
      | [] \<Rightarrow>
          (let (ret, a) = util_array_append (al count) res_array (Some index)
           in if ret \<noteq> 0 then None else a))"
  by auto
termination
proof (relation "measure (\<lambda>(al, sep, n, index, r, count). length index)", goal_cases)
  case (2 al sep n index r count token rest)
  then show ?case using length_dropWhile_le [of "\<lambda>c. c \<noteq> sep" index] by simp
qed simp

declare split_n_loop.simps [simp del]

definition util_string_split_n :: "alloc \<Rightarrow> string option \<Rightarrow> char \<Rightarrow> nat \<Rightarrow> str_array option" where
  "util_string_split_n al src sep n =
     (case src of
        None \<Rightarrow> None
      | Some s \<Rightarrow>
          if n = 0 then None
          else if s = [] then make_empty_array (al 0)
          else split_n_loop al sep n s None 0)"

text \<open>\<open>strtok_r\<close> with one delimiter: skip delimiters, take the characters up to the next one.\<close>

definition strtok_r :: "char \<Rightarrow> string \<Rightarrow> (string \<times> string) option" where
  "strtok_r delim str =
     (let s = dropWhile (\<lambda>c. c = delim) str
      in if s = [] then None
         else Some (takeWhile (\<lambda>c. c \<noteq> delim) s, tl (dropWhile (\<lambda>c. c \<noteq> delim) s)))"

lemma strtok_r_shorter: "strtok_r d s = Some (t, rest) \<Longrightarrow> length rest < length s"
proof -
  assume "strtok_r d s = Some (t, rest)"
  then obtain c r where c: "dropWhile (\<lambda>c. c = d) s = c # r" "rest = tl (dropWhile (\<lambda>c. c \<noteq> d) (c # r))"
    by (cases "dropWhile (\<lambda>c. c = d) s") (auto simp: strtok_r_def Let_def)
  have "c \<noteq> d" using dropWhile_hd_not [OF c(1)] .
  then have "length rest \<le> length r"
    using c(2) length_dropWhile_le [of "\<lambda>c. c \<noteq> d" r] by (simp del: length_dropWhile_le')
  moreover have "length (c # r) \<le> length s" using length_dropWhile_le [of "\<lambda>c. c = d" s] c(1) by simp
  ultimately show ?thesis by simp
qed

function split_loop ::
    "alloc \<Rightarrow> char \<Rightarrow> string \<Rightarrow> str_array option \<Rightarrow> nat \<Rightarrow> nat \<Rightarrow> (str_array option \<times> nat) option" where
  "split_loop al sep str res_array capacity count =
     (case strtok_r sep str of
        None \<Rightarrow> Some (res_array, count)
      | Some (token, rest) \<Rightarrow>
          (case util_grow_array (al count) res_array capacity (count + 1) 16 of
             None \<Rightarrow> None
           | Some (res_array, capacity) \<Rightarrow>
               split_loop al sep rest (map_option (\<lambda>a. a[count := Some token]) res_array) capacity (count + 1)))"
  by auto
termination
  by (relation "measure (\<lambda>(al, d, s, r, cap, n). length s)") (auto dest: strtok_r_shorter)

declare split_loop.simps [simp del]

definition util_string_split :: "alloc \<Rightarrow> string option \<Rightarrow> char \<Rightarrow> str_array option" where
  "util_string_split al src_str sep =
     (case src_str of
        None \<Rightarrow> None
      | Some s \<Rightarrow>
          if s = [] then make_empty_array (al 0)
          else case split_loop al sep s None 0 0 of
                 None \<Rightarrow> None
               | Some (None, count) \<Rightarrow> make_empty_array (al count)
               | Some (Some a, count) \<Rightarrow> Some (util_shrink_array (al count) a (count + 1)))"

subsection \<open>Editing\<close>

text \<open>The loop of \<open>util_string_delchar_inplace\<close>, with its two indices into the one buffer.  The
  buffer holds the characters of the string; index \<open>slen\<close> is the terminator.\<close>

function delchar_loop :: "char \<Rightarrow> string \<Rightarrow> nat \<Rightarrow> nat \<Rightarrow> string" where
  "delchar_loop c s i j =
     (if i < length s then
        (if j \<ge> length s then take i s
         else let s' = s[i := s ! j]
              in delchar_loop c s' (if \<not> uchar_eq (s' ! i) c then i + 1 else i) (j + 1))
      else s)"
  by auto
termination
  by (relation "measure (\<lambda>(c, s, i, j). length s - j)") (auto simp: Let_def)

declare delchar_loop.simps [simp del]

definition util_string_delchar_inplace :: "string option \<Rightarrow> char \<Rightarrow> string option" where
  "util_string_delchar_inplace str c = (case str of None \<Rightarrow> None | Some s \<Rightarrow> Some (delchar_loop c s 0 0))"

definition util_string_delchar :: "string option \<Rightarrow> char \<Rightarrow> string option" where
  "util_string_delchar ss c = (if ss = None then None else util_string_delchar_inplace ss c)"

text \<open>Cutting characters off the end of a buffer: the loops walk down from the last character.\<close>

fun cut_end :: "(char \<Rightarrow> bool) \<Rightarrow> string \<Rightarrow> nat \<Rightarrow> string" where
  "cut_end P s 0 = []"
| "cut_end P s (Suc len) = (if P (s ! len) then cut_end P s len else take (Suc len) s)"

definition util_trim_newline :: "string option \<Rightarrow> string option" where
  "util_trim_newline str = map_option (\<lambda>s. cut_end (\<lambda>c. c = CHR 0x0A) s (length s)) str"

definition util_left_trim_space :: "string \<Rightarrow> string" where
  "util_left_trim_space str = dropWhile isspace str"

text \<open>\<open>util_right_trim_space\<close> has no lower bound on its loop: it may only be called on a string
  with a character that is not a space, as it is by \<open>util_trim_space\<close>.  None is a read before
  the buffer.\<close>

fun right_trim_loop :: "string \<Rightarrow> nat \<Rightarrow> string option" where
  "right_trim_loop s 0 = None"
| "right_trim_loop s (Suc len) = (if isspace (s ! len) then right_trim_loop s len else Some (take (Suc len) s))"

definition util_right_trim_space :: "string \<Rightarrow> string option" where
  "util_right_trim_space str = (if length str = 0 then Some str else right_trim_loop str (length str))"

definition util_trim_space :: "string option \<Rightarrow> string option option" where
  "util_trim_space str =
     (case str of
        None \<Rightarrow> Some None
      | Some s \<Rightarrow> (case util_right_trim_space (util_left_trim_space s) of
                    None \<Rightarrow> None
                  | Some r \<Rightarrow> Some (Some r)))"

definition util_left_trim_quotation :: "string \<Rightarrow> string" where
  "util_left_trim_quotation str = (if str = [] then str else dropWhile (\<lambda>c. c = CHR 0x22) str)"

definition util_right_trim_quotation :: "string \<Rightarrow> string" where
  "util_right_trim_quotation str =
     (if length str = 0 then str
      else cut_end (\<lambda>c. c = CHR 0x00 \<or> c = CHR 0x0A \<or> c = CHR 0x22) str (length str))"

definition util_trim_quotation :: "string option \<Rightarrow> string option" where
  "util_trim_quotation str = map_option (\<lambda>s. util_right_trim_quotation (util_left_trim_quotation s)) str"

subsection \<open>Building\<close>

definition util_str_array_dup :: "bool \<Rightarrow> str_array option \<Rightarrow> nat \<Rightarrow> str_array option" where
  "util_str_array_dup calloc src len =
     (case src of
        None \<Rightarrow> None
      | Some a \<Rightarrow>
          if len = 0 then None
          else if len > SIZE_MAX div 8 - 1 then None
          else if \<not> util_common_calloc_s calloc (8 * (len + 1)) then None
          else Some (take len a @ [None]))"

text \<open>The concatenations of \<open>do_string_join\<close> into its buffer.\<close>

fun join_loop :: "string \<Rightarrow> str_array \<Rightarrow> nat \<Rightarrow> nat \<Rightarrow> string \<Rightarrow> string" where
  "join_loop sep parts 0 iter res = res"
| "join_loop sep parts (Suc k) iter res = join_loop sep parts k (Suc iter) (res @ the (parts ! iter) @ sep)"

definition do_string_join :: "bool \<Rightarrow> string \<Rightarrow> str_array \<Rightarrow> nat \<Rightarrow> nat \<Rightarrow> string option" where
  "do_string_join calloc sep parts parts_len result_len =
     (if \<not> util_smart_calloc_s calloc 1 (result_len + 1) then None
      else Some (join_loop sep parts (parts_len - 1) 0 [] @ the (parts ! (parts_len - 1))))"

fun join_len :: "str_array \<Rightarrow> nat \<Rightarrow> nat option" where
  "join_len [] result_len = Some result_len"
| "join_len (None # r) result_len = None"
| "join_len (Some p # r) result_len =
     (if result_len \<ge> SIZE_MAX - length p then None else join_len r (result_len + length p))"

definition util_string_join :: "bool \<Rightarrow> string option \<Rightarrow> str_array option \<Rightarrow> nat \<Rightarrow> string option" where
  "util_string_join calloc sep parts len =
     (case (sep, parts) of
        (Some sep, Some parts) \<Rightarrow>
          if len = 0 then None
          else let sep_len = length sep
               in if sep_len \<noteq> 0 \<and> sep_len \<noteq> 1 \<and> len > SIZE_MAX div sep_len + 1 then None
                  else case join_len (take len parts) ((len - 1) * sep_len) of
                         None \<Rightarrow> None
                       | Some result_len \<Rightarrow> do_string_join calloc sep parts len result_len
      | _ \<Rightarrow> None)"

definition util_string_append :: "bool \<Rightarrow> string option \<Rightarrow> string option \<Rightarrow> string option" where
  "util_string_append calloc post pre =
     (case (post, pre) of
        (None, None) \<Rightarrow> None
      | (Some post, None) \<Rightarrow> Some post
      | (None, Some pre) \<Rightarrow> Some pre
      | (Some post, Some pre) \<Rightarrow>
          if length post > SIZE_MAX - length pre - 1 then None
          else if \<not> util_common_calloc_s calloc (length post + length pre + 1) then None
          else Some (pre @ post))"

text \<open>\<open>util_dup_array_of_strings\<close>: the return value and, when it is written, the copy and its
  length.\<close>

definition util_dup_array_of_strings :: "bool \<Rightarrow> str_array option \<Rightarrow> nat \<Rightarrow> int \<times> str_array option" where
  "util_dup_array_of_strings calloc src src_len =
     (case src of
        None \<Rightarrow> (0, None)
      | Some a \<Rightarrow>
          if src_len = 0 then (0, None)
          else if src_len > SIZE_MAX div 8 then (-1, None)
          else if \<not> util_common_calloc_s calloc (src_len * 8) then (-1, None)
          else (0, Some (take src_len a)))"

definition util_sub_string :: "bool \<Rightarrow> string option \<Rightarrow> nat \<Rightarrow> nat \<Rightarrow> string option" where
  "util_sub_string calloc source offset len =
     (case source of
        None \<Rightarrow> None
      | Some s \<Rightarrow>
          if len = 0 then None
          else if offset > length s then None
          else let substr_len = (if length s - offset \<ge> len then len else length s - offset) + 1
               in if \<not> util_common_calloc_s calloc substr_len then None
                  else Some (take (substr_len - 1) (drop offset s)))"

text \<open>\<open>util_string_array_unique\<close>: allocation i is the map node of element i, then the array and the
  iterator; the keys come out in the order of the map.\<close>

fun unique_loop :: "alloc \<Rightarrow> nat \<Rightarrow> string list \<Rightarrow> bool smap \<Rightarrow> bool smap option" where
  "unique_loop al i [] m = Some m"
| "unique_loop al i (e # es) m =
     (case smap_replace (al i) e True m of
        (False, m') \<Rightarrow> None
      | (True, m') \<Rightarrow> unique_loop al (Suc i) es m')"

definition util_string_array_unique :: "alloc \<Rightarrow> string list \<Rightarrow> int \<times> string list option" where
  "util_string_array_unique al elements =
     (if length elements = 0 then (0, None)
      else if \<not> al 0 then (-1, None)
      else case unique_loop al 1 elements [] of
             None \<Rightarrow> (-1, None)
           | Some m \<Rightarrow>
               if \<not> util_common_calloc_s (al (length elements + 1)) (length m * 8) then (-1, None)
               else if \<not> al (length elements + 2) then (-1, None)
               else (0, Some (map fst m)))"

text \<open>\<open>util_str_token\<close>: the token and the new value of \<open>*input\<close>; \<open>strndup\<close> may fail.\<close>

definition util_str_token :: "bool \<Rightarrow> string option \<Rightarrow> string option \<Rightarrow> string option \<times> string option" where
  "util_str_token strndup input delimiter =
     (case (input, delimiter) of
        (Some str, Some d) \<Rightarrow>
          let found = strstr str d;
              tok_length = (case found of Some f \<Rightarrow> length str - length f | None \<Rightarrow> length str)
          in if \<not> strndup then (None, input)
             else (Some (take tok_length str), map_option (drop (length d)) found)
      | _ \<Rightarrow> (None, input))"

subsection \<open>Reference definitions\<close>

fun pieces :: "char \<Rightarrow> string \<Rightarrow> string list" where
  "pieces d [] = [[]]"
| "pieces d (c # s) = (if c = d then [] # pieces d s else (c # hd (pieces d s)) # tl (pieces d s))"

fun join_with :: "string \<Rightarrow> string list \<Rightarrow> string" where
  "join_with sep [] = []"
| "join_with sep [p] = p"
| "join_with sep (p # q # ps) = p @ sep @ join_with sep (q # ps)"

lemma pieces_not_Nil [simp]: "pieces d s \<noteq> []"
  by (induction s) auto

lemma join_with_Cons: "ps \<noteq> [] \<Longrightarrow> join_with sep (p # ps) = p @ sep @ join_with sep ps"
  by (cases ps) auto

lemma join_with_hd: "ps \<noteq> [] \<Longrightarrow> join_with sep ((c # hd ps) # tl ps) = c # join_with sep ps"
  by (cases ps; cases "tl ps") auto

lemma join_pieces: "join_with [d] (pieces d s) = s"
  by (induction s) (auto simp: join_with_Cons join_with_hd)

lemma pieces_no_delim: "p \<in> set (pieces d s) \<Longrightarrow> d \<notin> set p"
proof (induction s arbitrary: p)
  case (Cons c s)
  have "hd (pieces d s) \<in> set (pieces d s)" "set (tl (pieces d s)) \<subseteq> set (pieces d s)"
    by (cases "pieces d s"; auto)+
  with Cons show ?case by (auto split: if_splits)
qed simp

lemma pieces_length: "length (pieces d s) \<le> Suc (length s)"
  by (induction s) auto

lemma pieces_break: "pieces d s = takeWhile (\<lambda>c. c \<noteq> d) s #
    (case dropWhile (\<lambda>c. c \<noteq> d) s of [] \<Rightarrow> [] | _ # r \<Rightarrow> pieces d r)"
  by (induction s) auto

lemma pieces_strsep: "strsep d s = (t, cur) \<Longrightarrow> pieces d s = t # (case cur of None \<Rightarrow> [] | Some r \<Rightarrow> pieces d r)"
  unfolding pieces_break [of d s] strsep_def
  by (cases "dropWhile (\<lambda>c. c \<noteq> d) s") (simp_all del: dropWhile_eq_Nil_conv, auto)

subsection \<open>Arrays under construction\<close>

lemma grow_capacity_ge: "inc \<noteq> 0 \<Longrightarrow> n < grow_capacity n inc c \<and> c \<le> grow_capacity n inc c"
proof (induction n inc c rule: grow_capacity.induct)
  case (1 n inc c)
  then show ?case by (subst (1 2) grow_capacity.simps) fastforce
qed

lemma grow_capacity_le: "grow_capacity n inc c \<le> max c (n + inc)"
proof (induction n inc c rule: grow_capacity.induct)
  case (1 n inc c)
  then show ?case by (subst grow_capacity.simps) (auto simp: max_def split: if_splits)
qed

definition arr_ok :: "string list \<Rightarrow> str_array option \<Rightarrow> nat \<Rightarrow> bool" where
  "arr_ok toks arr cap \<longleftrightarrow>
     (case arr of
        None \<Rightarrow> toks = [] \<and> cap = 0
      | Some a \<Rightarrow> a = map Some toks @ replicate (cap - length toks) None \<and> length toks < cap)"

lemma grow_arr_ok:
  assumes "arr_ok toks arr cap" "util_grow_array ok arr cap (Suc (length toks)) 16 = Some (arr', cap')"
  shows "arr_ok (toks @ [t]) (map_option (\<lambda>a. a[length toks := Some t]) arr') cap'"
proof -
  define add where "add = grow_capacity (Suc (length toks)) 16 cap"
  have ge: "Suc (length toks) < add" "cap \<le> add" unfolding add_def using grow_capacity_ge by auto
  show ?thesis
  proof (cases arr)
    case None
    then have "arr' = Some (replicate add None)" "cap' = add" "toks = []"
      using assms ge unfolding util_grow_array_def arr_ok_def
      by (auto simp: Let_def add_def split: if_splits)
    with ge show ?thesis by (auto simp: arr_ok_def intro!: nth_equalityI simp: nth_list_update nth_Cons')
  next
    case (Some a)
    then have a: "a = map Some toks @ replicate (cap - length toks) None" "length toks < cap"
      using assms(1) by (auto simp: arr_ok_def)
    then have "arr' = Some (map Some toks @ replicate (add - length toks) None)" "cap' = add"
      using assms(2) Some ge unfolding util_grow_array_def
      by (auto simp: Let_def add_def [symmetric] replicate_add [symmetric] split: if_splits)
    with ge show ?thesis
      by (auto simp: arr_ok_def list_update_append Suc_diff_Suc [symmetric])
  qed
qed

lemma grow_arr_Some:
  assumes "arr_ok toks arr cap" "cap \<le> length toks + 17" "8 * (length toks + 17) \<le> MAX_MEMORY_SIZE"
  shows "\<exists>arr' cap'. util_grow_array True arr cap (Suc (length toks)) 16 = Some (arr', cap') \<and> cap' \<le> Suc (length toks) + 17"
proof -
  have "grow_capacity (Suc (length toks)) 16 c \<le> length toks + 17" if "c \<le> length toks + 17" for c
    using grow_capacity_le [of "Suc (length toks)" 16 c] that by simp
  from this [of 0] this [OF assms(2)] assms grow_capacity_ge [of 16 "Suc (length toks)" 0]
    grow_capacity_ge [of 16 "Suc (length toks)" cap]
  show ?thesis
    by (auto simp: util_grow_array_def Let_def util_common_calloc_s_def SIZE_MAX_def MAX_MEMORY_SIZE_def)
qed

lemma strings_of_map [simp]: "strings_of (map Some toks @ None # r) = toks"
  by (induction toks) (auto simp: strings_of_def)

lemma util_array_len_map [simp]: "util_array_len (map Some toks @ None # r) = length toks"
  by (induction toks) auto

lemma shrink_strings:
  assumes "arr_ok toks (Some a) cap"
  shows "\<exists>r. util_shrink_array ok a (Suc (length toks)) = map Some toks @ None # r"
proof -
  have "a = map Some toks @ None # replicate (cap - length toks - 1) None"
    using assms by (cases "cap - length toks") (auto simp: arr_ok_def)
  then show ?thesis by (auto simp: util_shrink_array_def)
qed

lemma split_multi_loop_None [simp]: "split_multi_loop al d None arr cap n = Some (arr, n)"
  by (simp add: split_multi_loop.simps)

lemma split_multi_loop_Some:
  "split_multi_loop al d (Some s) arr cap n =
     (case util_grow_array (al n) arr cap (Suc n) 16 of
        None \<Rightarrow> None
      | Some (arr', cap') \<Rightarrow>
          (case strsep d s of (t, cur) \<Rightarrow>
             split_multi_loop al d cur (map_option (\<lambda>a. a[n := Some t]) arr') cap' (Suc n)))"
  by (subst split_multi_loop.simps) (simp cong: option.case_cong)

lemma split_multi_loop_ok:
  "arr_ok toks arr cap \<Longrightarrow> split_multi_loop al d cur arr cap (length toks) = Some (arr', n) \<Longrightarrow>
   \<exists>cap'. arr_ok (toks @ (case cur of None \<Rightarrow> [] | Some s \<Rightarrow> pieces d s)) arr' cap' \<and>
     n = length toks + length (case cur of None \<Rightarrow> [] | Some s \<Rightarrow> pieces d s)"
proof (induction "case cur of None \<Rightarrow> 0 | Some s \<Rightarrow> Suc (length s)" arbitrary: cur toks arr cap rule: less_induct)
  case less
  show ?case
  proof (cases cur)
    case None
    with less.prems show ?thesis by auto
  next
    case (Some s)
    obtain t cur' where sep: "strsep d s = (t, cur')" by fastforce
    from less.prems(2) Some sep obtain arr1 cap1 where
      g: "util_grow_array (al (length toks)) arr cap (Suc (length toks)) 16 = Some (arr1, cap1)" and
      l: "split_multi_loop al d cur' (map_option (\<lambda>a. a[length toks := Some t]) arr1) cap1 (length (toks @ [t])) = Some (arr', n)"
      by (auto simp: split_multi_loop_Some split: option.splits)
    have "(case cur' of None \<Rightarrow> 0 | Some s \<Rightarrow> Suc (length s)) < (case cur of None \<Rightarrow> 0 | Some s \<Rightarrow> Suc (length s))"
      using sep strsep_shorter [of d s t] Some by (cases cur') auto
    from less.hyps [OF this grow_arr_ok [OF less.prems(1) g, of t] l] Some
    show ?thesis by (auto simp: pieces_strsep [OF sep])
  qed
qed

lemma split_multi_loop_total:
  "(\<And>i. al i) \<Longrightarrow> arr_ok toks arr cap \<Longrightarrow> cap \<le> length toks + 17 \<Longrightarrow>
   8 * (length toks + 18 + (case cur of None \<Rightarrow> 0 | Some s \<Rightarrow> Suc (length s))) \<le> MAX_MEMORY_SIZE \<Longrightarrow>
   split_multi_loop al d cur arr cap (length toks) \<noteq> None"
proof (induction "case cur of None \<Rightarrow> 0 | Some s \<Rightarrow> Suc (length s)" arbitrary: cur toks arr cap rule: less_induct)
  case less
  show ?case
  proof (cases cur)
    case (Some s)
    obtain t cur' where sep: "strsep d s = (t, cur')" by fastforce
    from grow_arr_Some [OF less.prems(2,3)] less.prems(1,4) Some obtain arr1 cap1 where
      g: "util_grow_array (al (length toks)) arr cap (Suc (length toks)) 16 = Some (arr1, cap1)"
        "cap1 \<le> length (toks @ [t]) + 17"
      by auto
    have less': "(case cur' of None \<Rightarrow> 0 | Some s \<Rightarrow> Suc (length s)) < (case cur of None \<Rightarrow> 0 | Some s \<Rightarrow> Suc (length s))"
      using sep strsep_shorter [of d s t] Some by (cases cur') auto
    then have "8 * (length (toks @ [t]) + 18 + (case cur' of None \<Rightarrow> 0 | Some s \<Rightarrow> Suc (length s))) \<le> MAX_MEMORY_SIZE"
      using less.prems(4) by simp
    from less.hyps [OF less' less.prems(1) grow_arr_ok [OF less.prems(2) g(1), of t] g(2) this]
    show ?thesis using Some g sep by (simp add: split_multi_loop_Some)
  qed simp
qed

lemma util_string_split_multi_ok:
  assumes "util_string_split_multi al (Some s) d = Some a"
  shows "\<exists>r. a = map Some (pieces d s) @ None # r"
proof (cases "s = []")
  case True
  with assms show ?thesis by (auto simp: util_string_split_multi_def make_empty_array_def split: if_splits)
next
  case False
  with assms obtain arr n where l: "split_multi_loop al d (Some s) None 0 0 = Some (Some arr, n)"
    and a: "a = util_shrink_array (al n) arr (Suc n)"
    by (auto simp: util_string_split_multi_def split: option.splits)
  with split_multi_loop_ok [of "[]" None 0 al d "Some s" "Some arr" n] obtain cap where
    "arr_ok (pieces d s) (Some arr) cap" "n = length (pieces d s)"
    by (auto simp: arr_ok_def)
  with a shrink_strings show ?thesis by auto
qed

lemma util_string_split_multi_total:
  assumes "\<And>i. al i" "8 * (length s + 19) \<le> MAX_MEMORY_SIZE"
  shows "util_string_split_multi al (Some s) d \<noteq> None"
proof (cases "s = []")
  case True
  with assms(1) show ?thesis by (simp add: util_string_split_multi_def make_empty_array_def)
next
  case False
  from split_multi_loop_total [of al "[]" None 0 "Some s" d] assms obtain arr n where
    l: "split_multi_loop al d (Some s) None 0 0 = Some (arr, n)"
    by (auto simp: arr_ok_def)
  from split_multi_loop_ok [of "[]" None 0 al d "Some s" arr n] l have "arr \<noteq> None"
    by (auto simp: arr_ok_def split: option.splits)
  with False l show ?thesis by (auto simp: util_string_split_multi_def)
qed

subsection \<open>Joining\<close>

lemma join_len_ok: "join_len (map Some ps) n = Some m \<Longrightarrow> m = n + length (concat ps)"
  by (induction ps arbitrary: n) (fastforce split: if_splits)+

lemma join_len_total: "n + length (concat ps) < SIZE_MAX \<Longrightarrow> join_len (map Some ps) n = Some (n + length (concat ps))"
  by (induction ps arbitrary: n) (auto simp: not_le)

lemma join_loop_ok:
  "iter + k < length ps \<Longrightarrow>
   join_loop sep (map Some ps @ r) k iter res = res @ concat (map (\<lambda>p. p @ sep) (take k (drop iter ps)))"
proof (induction k arbitrary: iter res)
  case (Suc k)
  have "drop iter ps = ps ! iter # drop (Suc iter) ps" using Suc.prems by (simp add: Cons_nth_drop_Suc)
  with Suc show ?case by (simp add: nth_append)
qed simp

lemma join_with_concat: "ps \<noteq> [] \<Longrightarrow> join_with sep ps = concat (map (\<lambda>p. p @ sep) (butlast ps)) @ last ps"
  by (induction sep ps rule: join_with.induct) auto

lemma join_with_length: "ps \<noteq> [] \<Longrightarrow> length (join_with sep ps) = (length ps - 1) * length sep + length (concat ps)"
  by (induction sep ps rule: join_with.induct) auto

lemma do_string_join_ok:
  "ps \<noteq> [] \<Longrightarrow> do_string_join ok sep (map Some ps @ r) (length ps) n = Some t \<Longrightarrow> t = join_with sep ps"
  using join_loop_ok [of 0 "length ps - 1" ps sep r "[]"]
  by (auto simp: do_string_join_def join_with_concat nth_append last_conv_nth butlast_conv_take split: if_splits)

lemma take_map_append: "take (length ps) (map Some ps @ r) = map Some ps"
  by simp

lemma util_string_join_ok:
  "ps \<noteq> [] \<Longrightarrow> util_string_join ok (Some sep) (Some (map Some ps @ r)) (length ps) = Some t \<Longrightarrow> t = join_with sep ps"
  by (auto simp: util_string_join_def Let_def dest: do_string_join_ok split: if_splits option.splits)

lemma util_string_join_total:
  assumes "ps \<noteq> []" "length (join_with sep ps) < MAX_MEMORY_SIZE"
  shows "util_string_join True (Some sep) (Some (map Some ps @ r)) (length ps) = Some (join_with sep ps)"
proof -
  define n where "n = (length ps - 1) * length sep"
  have n: "n + length (concat ps) < MAX_MEMORY_SIZE" using assms(1,2) by (simp add: join_with_length n_def)
  have "length ps \<le> SIZE_MAX div length sep + 1" if "0 < length sep"
  proof -
    have "(length ps - 1) * length sep \<le> SIZE_MAX" using n by (simp add: n_def SIZE_MAX_def MAX_MEMORY_SIZE_def)
    then have "length ps - 1 \<le> SIZE_MAX div length sep" using that by (simp add: less_eq_div_iff_mult_less_eq)
    then show ?thesis by simp
  qed
  moreover have "join_len (map Some ps) n = Some (n + length (concat ps))"
    using n by (intro join_len_total) (simp add: SIZE_MAX_def MAX_MEMORY_SIZE_def)
  moreover have "util_smart_calloc_s True 1 (n + length (concat ps) + 1)"
    using n by (simp add: util_smart_calloc_s_def)
  moreover from this have "\<exists>t. do_string_join True sep (map Some ps @ r) (length ps) (n + length (concat ps)) = Some t"
    by (simp add: do_string_join_def)
  ultimately show ?thesis
    using do_string_join_ok [OF assms(1)] assms(1) by (auto simp: util_string_join_def Let_def n_def)
qed



subsection \<open>Splitting into words and into at most n pieces\<close>

declare dropWhile_eq_Nil_conv [simp del]

lemma takeWhile_if_Nil: "dropWhile P s = [] \<Longrightarrow> takeWhile P s = s"
  by (metis append_Nil2 takeWhile_dropWhile_id)

lemma drop_replicate_2: "drop n (replicate (Suc (Suc n)) x) = [x, x]"
  by (simp only: drop_replicate) (simp add: Suc_diff_le)

definition words_of :: "char \<Rightarrow> string \<Rightarrow> string list" where
  "words_of d s = filter (\<lambda>p. p \<noteq> []) (pieces d s)"

lemma words_of_skip: "words_of d (dropWhile (\<lambda>c. c = d) s) = words_of d s"
  by (induction s) (auto simp: words_of_def)

lemma words_of_None: "strtok_r d s = None \<Longrightarrow> words_of d s = []"
  using words_of_skip [of d s]
  by (auto simp: strtok_r_def Let_def words_of_def simp del: dropWhile_eq_Nil_conv split: if_splits)

lemma words_of_Some:
  assumes "strtok_r d s = Some (t, rest)"
  shows "words_of d s = t # words_of d rest"
proof -
  define s' where "s' = dropWhile (\<lambda>c. c = d) s"
  have s': "s' \<noteq> []" "t = takeWhile (\<lambda>c. c \<noteq> d) s'" "rest = tl (dropWhile (\<lambda>c. c \<noteq> d) s')"
    using assms by (auto simp: strtok_r_def Let_def s'_def split: if_splits)
  from s'(1) obtain c r where c: "s' = c # r" by (cases s') auto
  with dropWhile_hd_not [of "\<lambda>c. c = d" s c r] have cd: "c \<noteq> d" unfolding s'_def by blast
  have t: "t = c # takeWhile (\<lambda>c. c \<noteq> d) r" "rest = tl (dropWhile (\<lambda>c. c \<noteq> d) r)"
    using s'(2,3) cd by (simp_all add: c)
  have "pieces d s' = t # (case dropWhile (\<lambda>c. c \<noteq> d) r of [] \<Rightarrow> [] | _ # r \<Rightarrow> pieces d r)"
    using cd by (simp add: c t(1)) (simp add: pieces_break [of d r])
  then have "words_of d s' = t # words_of d rest"
    by (cases "dropWhile (\<lambda>c. c \<noteq> d) r") (simp_all add: words_of_def t del: dropWhile_eq_Nil_conv)
  then show ?thesis using words_of_skip [of d s] by (simp add: s'_def)
qed

lemma words_of_length: "length (words_of d s) \<le> Suc (length s)"
  unfolding words_of_def using length_filter_le [of "\<lambda>p. p \<noteq> []" "pieces d s"] pieces_length [of d s] by linarith

lemma split_loop_end: "strtok_r d s = None \<Longrightarrow> split_loop al d s arr cap n = Some (arr, n)"
  by (simp add: split_loop.simps [of al d s])

lemma split_loop_step:
  "strtok_r d s = Some (t, rest) \<Longrightarrow> split_loop al d s arr cap n =
     (case util_grow_array (al n) arr cap (Suc n) 16 of
        None \<Rightarrow> None
      | Some (arr', cap') \<Rightarrow> split_loop al d rest (map_option (\<lambda>a. a[n := Some t]) arr') cap' (Suc n))"
  by (simp add: split_loop.simps [of al d s] cong: option.case_cong)

lemma split_loop_ok:
  "arr_ok toks arr cap \<Longrightarrow> split_loop al d s arr cap (length toks) = Some (arr', n) \<Longrightarrow>
   \<exists>cap'. arr_ok (toks @ words_of d s) arr' cap' \<and> n = length toks + length (words_of d s)"
proof (induction "length s" arbitrary: s toks arr cap rule: less_induct)
  case less
  show ?case
  proof (cases "strtok_r d s")
    case None
    with less.prems show ?thesis by (auto simp: words_of_None split_loop_end)
  next
    case (Some p)
    obtain t rest where tok: "strtok_r d s = Some (t, rest)" using Some by (cases p) auto
    from less.prems(2) tok obtain arr1 cap1 where
      g: "util_grow_array (al (length toks)) arr cap (Suc (length toks)) 16 = Some (arr1, cap1)" and
      l: "split_loop al d rest (map_option (\<lambda>a. a[length toks := Some t]) arr1) cap1 (length (toks @ [t])) = Some (arr', n)"
      by (auto simp: split_loop_step split: option.splits)
    from less.hyps [OF strtok_r_shorter [OF tok] grow_arr_ok [OF less.prems(1) g, of t] l]
    show ?thesis by (auto simp: words_of_Some [OF tok])
  qed
qed

lemma split_loop_total:
  "(\<And>i. al i) \<Longrightarrow> arr_ok toks arr cap \<Longrightarrow> cap \<le> length toks + 17 \<Longrightarrow>
   8 * (length toks + 18 + length s) \<le> MAX_MEMORY_SIZE \<Longrightarrow>
   split_loop al d s arr cap (length toks) \<noteq> None"
proof (induction "length s" arbitrary: s toks arr cap rule: less_induct)
  case less
  show ?case
  proof (cases "strtok_r d s")
    case None
    then show ?thesis by (simp add: split_loop_end)
  next
    case (Some p)
    obtain t rest where tok: "strtok_r d s = Some (t, rest)" using Some by (cases p) auto
    from grow_arr_Some [OF less.prems(2,3)] less.prems(1,4) obtain arr1 cap1 where
      g: "util_grow_array (al (length toks)) arr cap (Suc (length toks)) 16 = Some (arr1, cap1)"
        "cap1 \<le> length (toks @ [t]) + 17"
      by auto
    have "8 * (length (toks @ [t]) + 18 + length rest) \<le> MAX_MEMORY_SIZE"
      using less.prems(4) strtok_r_shorter [OF tok] by simp
    from less.hyps [OF strtok_r_shorter [OF tok] less.prems(1) grow_arr_ok [OF less.prems(2) g(1), of t] g(2) this]
    show ?thesis using g tok by (simp add: split_loop_step)
  qed
qed

lemma util_string_split_ok:
  assumes "util_string_split al (Some s) d = Some a"
  shows "\<exists>r. a = map Some (if words_of d s = [] then [[]] else words_of d s) @ None # r"
proof (cases "s = []")
  case True
  with assms show ?thesis
    by (auto simp: util_string_split_def make_empty_array_def words_of_def split: if_splits)
next
  case False
  with assms obtain arr n where l: "split_loop al d s None 0 0 = Some (arr, n)"
    by (auto simp: util_string_split_def split: option.splits)
  with split_loop_ok [of "[]" None 0 al d s arr n] obtain cap where
    ok: "arr_ok (words_of d s) arr cap" "n = length (words_of d s)"
    by (auto simp: arr_ok_def)
  show ?thesis
  proof (cases arr)
    case None
    with False l ok assms show ?thesis
      by (auto simp: util_string_split_def arr_ok_def make_empty_array_def split: if_splits)
  next
    case (Some b)
    with l have "words_of d s \<noteq> []"
      by (cases "strtok_r d s") (auto simp: split_loop_end words_of_Some)
    with False l ok Some assms shrink_strings [of "words_of d s" b cap "al n"] show ?thesis
      by (auto simp: util_string_split_def)
  qed
qed

lemma util_string_split_total:
  assumes "\<And>i. al i" "8 * (length s + 18) \<le> MAX_MEMORY_SIZE"
  shows "util_string_split al (Some s) d \<noteq> None"
proof (cases "s = []")
  case False
  from split_loop_total [of al "[]" None 0 s d] assms obtain arr n where
    "split_loop al d s None 0 0 = Some (arr, n)"
    by (auto simp: arr_ok_def)
  with False assms(1) show ?thesis
    by (auto simp: util_string_split_def make_empty_array_def split: option.splits)
qed (simp add: util_string_split_def make_empty_array_def assms(1))

text \<open>C31. \<open>util_string_split\<close> returns the non-empty pieces between the separators, in order, and the
  array of one empty string when there is none; with memory available it returns.\<close>

theorem util_string_split_words:
  assumes "\<And>i. al i" "8 * (length s + 18) \<le> MAX_MEMORY_SIZE"
  shows "\<exists>a. util_string_split al (Some s) d = Some a \<and> None \<in> set a \<and>
     strings_of a = (let ws = filter (\<lambda>p. p \<noteq> []) (pieces d s) in if ws = [] then [[]] else ws)"
proof -
  from util_string_split_total [of al s d] assms obtain a where a: "util_string_split al (Some s) d = Some a" by auto
  moreover from util_string_split_ok [OF a] obtain r where
    "a = map Some (if words_of d s = [] then [[]] else words_of d s) @ None # r" by blast
  ultimately show ?thesis unfolding words_of_def Let_def by (intro exI [of _ a]) (simp only: strings_of_map, simp)
qed

theorem util_string_split_words_witness:
  "\<exists>a. util_string_split all_ok (Some ''//a/b'') (CHR ''/'') = Some a \<and> strings_of a = [''a'', ''b'']"
  using util_string_split_words [of all_ok "''//a/b''" "CHR ''/''"] by (auto simp: MAX_MEMORY_SIZE_def)

fun pieces_n :: "nat \<Rightarrow> char \<Rightarrow> string \<Rightarrow> string list" where
  "pieces_n 0 d s = [s]"
| "pieces_n (Suc m) d s =
     (case dropWhile (\<lambda>c. c \<noteq> d) s of
        [] \<Rightarrow> [s]
      | _ # r \<Rightarrow> if m = 0 then [s] else takeWhile (\<lambda>c. c \<noteq> d) s # pieces_n m d r)"

lemma pieces_n_not_Nil [simp]: "pieces_n n d s \<noteq> []"
  by (cases n) (auto split: list.splits)

lemma pieces_n_join: "join_with [d] (pieces_n n d s) = s"
proof (induction n d s rule: pieces_n.induct)
  case (2 m d s)
  show ?case
  proof (cases "dropWhile (\<lambda>c. c \<noteq> d) s")
    case (Cons c r)
    then have "c = d" using dropWhile_hd_not [OF Cons] by simp
    with Cons 2 takeWhile_dropWhile_id [of "\<lambda>c. c \<noteq> d" s] show ?thesis by (auto simp: join_with_Cons)
  qed simp
qed simp

lemma pieces_n_length: "0 < n \<Longrightarrow> length (pieces_n n d s) \<le> n"
  by (induction n d s rule: pieces_n.induct) (auto split: list.splits)

lemma pieces_n_all: "length (pieces d s) \<le> n \<Longrightarrow> pieces_n n d s = pieces d s"
proof (induction n d s rule: pieces_n.induct)
  case (1 d s)
  then show ?case by simp
next
  case (2 m d s)
  show ?case
  proof (cases "dropWhile (\<lambda>c. c \<noteq> d) s")
    case Nil
    then show ?thesis by (simp add: pieces_break [of d s] takeWhile_if_Nil)
  next
    case (Cons c r)
    then have p: "pieces d s = takeWhile (\<lambda>c. c \<noteq> d) s # pieces d r" by (simp add: pieces_break [of d s])
    with "2.prems" have "length (pieces d r) \<le> m" by simp
    moreover from this have "m \<noteq> 0" by (cases "pieces d r") auto
    ultimately have "length (pieces d r) \<le> m" "m \<noteq> 0" by simp_all
    with "2.IH" [OF Cons] Cons p show ?thesis by simp
  qed
qed

definition app_ok :: "string list \<Rightarrow> str_array option \<Rightarrow> bool" where
  "app_ok toks arr \<longleftrightarrow> (arr = None \<and> toks = [] \<or> arr = Some (map Some toks @ [None]))"

lemma array_append_ok:
  assumes "app_ok toks arr" "util_array_append ok arr (Some t) = (0, a)"
  shows "app_ok (toks @ [t]) a"
  using assms by (auto simp: app_ok_def util_array_append_def Let_def array_len_def list_update_append
      drop_replicate_2 simp del: replicate.simps drop_replicate split: if_splits) simp

lemma array_append_ret:
  "util_array_append ok arr (Some t) = (ret, a) \<Longrightarrow> ret = 0 \<or> ret = -1"
  by (auto simp: util_array_append_def Let_def split: if_splits)

lemma array_append_total:
  assumes "app_ok toks arr" "8 * (length toks + 2) \<le> MAX_MEMORY_SIZE"
  shows "\<exists>a. util_array_append True arr (Some t) = (0, a)"
  using assms by (auto simp: app_ok_def util_array_append_def Let_def array_len_def util_common_calloc_s_def
      SIZE_MAX_def MAX_MEMORY_SIZE_def)

lemma split_n_loop_total:
  "(\<And>i. al i) \<Longrightarrow> app_ok toks arr \<Longrightarrow> length toks < n \<Longrightarrow> 8 * (length toks + length s + 2) \<le> MAX_MEMORY_SIZE \<Longrightarrow>
   \<exists>a. split_n_loop al d n s arr (length toks) = a \<and> app_ok (toks @ pieces_n (n - length toks) d s) a"
proof (induction "length s" arbitrary: s toks arr rule: less_induct)
  case less
  obtain m where m: "n - length toks = Suc m" using less.prems(3) by (metis Suc_diff_Suc)
  have app: "\<exists>a. util_array_append (al i) arr (Some t) = (0, a) \<and> app_ok (toks @ [t]) a" for t i
    using array_append_total [OF less.prems(2), of t] less.prems(1) [of i] less.prems(4)
      array_append_ok [OF less.prems(2), of True t] by auto
  show ?case
  proof (cases "dropWhile (\<lambda>c. c \<noteq> d) s")
    case Nil
    with app [of "length toks" s] m show ?thesis by (auto simp: split_n_loop.simps [of al d n s])
  next
    case (Cons c r)
    note r = length_dropWhile_le [of "\<lambda>c. c \<noteq> d" s, unfolded Cons]
    show ?thesis
    proof (cases "m = 0")
      case True
      with Cons m app [of "length toks" s] show ?thesis by (auto simp: split_n_loop.simps [of al d n s])
    next
      case False
      define t where "t = takeWhile (\<lambda>c. c \<noteq> d) s"
      from app [of "length toks" t] obtain a where
        a: "util_array_append (al (length toks)) arr (Some t) = (0, a)" "app_ok (toks @ [t]) a" by blast
      have "split_n_loop al d n s arr (length toks) = split_n_loop al d n r a (length (toks @ [t]))"
        using Cons False m a by (simp add: split_n_loop.simps [of al d n s] t_def) arith
      moreover have "n - length (toks @ [t]) = m" using m by simp
      ultimately show ?thesis
        using less.hyps [of r "toks @ [t]" a] less.prems a r False m Cons by (simp add: t_def)
    qed
  qed
qed



end
