(* ===== verification/Strings_Props.thy ===== *)
theory Strings_Props
  imports Strings
begin

section \<open>Editing strings and reading sizes\<close>

text \<open>
  What the in-place edits, the size parser and the duplicate remover of \<open>Strings\<close> compute: the
  two-index deletion loop is a filter, the two trims take exactly the spaces off both ends
  without leaving the buffer, a decimal size with a unit is its value or -ERANGE, a fraction adds
  at most one unit, and the array of unique strings is the sorted set of the strings.
\<close>

subsection \<open>Deleting a character\<close>

lemma uchar_eq_iff: "uchar_eq a c \<longleftrightarrow> a = c \<and> code c < 128"
  using code_less_256 [of a] by (auto simp: uchar_eq_def char_int_def simp flip: code_inject)

lemma delchar_loop_filter:
  "i \<le> j \<Longrightarrow> j \<le> length s \<Longrightarrow> delchar_loop c s i j = take i s @ filter (\<lambda>a. \<not> uchar_eq a c) (drop j s)"
proof (induction c s i j rule: delchar_loop.induct)
  case (1 c s i j)
  show ?case
  proof (cases "i < length s \<and> j < length s")
    case True
    define s' where "s' = s[i := s ! j]"
    have s': "length s' = length s" "s' ! i = s ! j" "drop (Suc j) s' = drop (Suc j) s"
      "take i s' = take i s" "take (Suc i) s' = take i s @ [s ! j]"
      using True "1.prems" by (auto simp: s'_def take_Suc_conv_app_nth)
    have d: "drop j s = s ! j # drop (Suc j) s" using True by (simp add: Cons_nth_drop_Suc)
    have "delchar_loop c s i j = delchar_loop c s' (if \<not> uchar_eq (s' ! i) c then i + 1 else i) (j + 1)"
      using True by (simp add: delchar_loop.simps [of c s i j] s'_def Let_def)
    also have "\<dots> = take (if \<not> uchar_eq (s' ! i) c then i + 1 else i) s' @ filter (\<lambda>a. \<not> uchar_eq a c) (drop (j + 1) s')"
      using True "1.prems" s'(1) by (intro "1.IH" [OF _ _ s'_def]) auto
    finally show ?thesis using s' d by simp
  next
    case False
    with "1.prems" show ?thesis by (auto simp: delchar_loop.simps [of c s i j])
  qed
qed

text \<open>C35. \<open>util_string_delchar\<close> deletes exactly the occurrences of an ASCII character, and nothing at
  all for a character above 127, which its comparison of a signed with an unsigned char never
  finds.\<close>

theorem util_string_delchar_filter:
  "util_string_delchar (Some s) c = Some (if code c < 128 then filter (\<lambda>a. a \<noteq> c) s else s)"
  by (simp add: util_string_delchar_def util_string_delchar_inplace_def delchar_loop_filter uchar_eq_iff)

subsection \<open>Trimming\<close>

lemma right_trim_loop_ok:
  "n \<le> length s \<Longrightarrow> \<exists>i < n. \<not> isspace (s ! i) \<Longrightarrow>
   \<exists>k. 0 < k \<and> k \<le> n \<and> right_trim_loop s n = Some (take k s) \<and> \<not> isspace (s ! (k - 1)) \<and> (\<forall>i. k \<le> i \<and> i < n \<longrightarrow> isspace (s ! i))"
proof (induction n)
  case (Suc n)
  show ?case
  proof (cases "isspace (s ! n)")
    case True
    with Suc.prems have "\<exists>i < n. \<not> isspace (s ! i)" by (metis less_antisym)
    with Suc obtain k where "0 < k" "k \<le> n" "right_trim_loop s n = Some (take k s)" "\<not> isspace (s ! (k - 1))"
      "\<forall>i. k \<le> i \<and> i < n \<longrightarrow> isspace (s ! i)" by auto
    with True show ?thesis by (intro exI [of _ k]) (auto simp: less_Suc_eq)
  qed (auto intro: exI [of _ "Suc n"])
qed simp

lemma right_trim_ok:
  assumes "s \<noteq> []" "\<not> isspace (hd s)"
  shows "\<exists>r t. util_right_trim_space s = Some r \<and> s = r @ t \<and> r \<noteq> [] \<and> \<not> isspace (last r) \<and> list_all isspace t"
proof -
  from assms right_trim_loop_ok [of "length s" s] obtain k where k: "0 < k" "k \<le> length s"
    "right_trim_loop s (length s) = Some (take k s)" "\<not> isspace (s ! (k - 1))" "\<forall>i. k \<le> i \<and> i < length s \<longrightarrow> isspace (s ! i)"
    by (auto simp: hd_conv_nth)
  have "list_all isspace (drop k s)" using k(2,5) by (auto simp: list_all_length)
  moreover have "last (take k s) = s ! (k - 1)" using k by (subst last_conv_nth) (auto simp: min_def)
  ultimately show ?thesis
    using assms(1) k by (intro exI [of _ "take k s"] exI [of _ "drop k s"]) (auto simp: util_right_trim_space_def)
qed

text \<open>\<open>util_trim_space\<close> takes the spaces off both ends of a string and nothing else, and never
  reads before the buffer, although its right half alone would on a string of spaces.\<close>

theorem util_trim_space_ok:
  "\<exists>l r t. util_trim_space (Some s) = Some (Some r) \<and> s = l @ r @ t \<and> list_all isspace l \<and> list_all isspace t \<and>
     (r = [] \<or> \<not> isspace (hd r) \<and> \<not> isspace (last r))"
proof -
  define l where "l = takeWhile isspace s"
  define m where "m = dropWhile isspace s"
  have s: "s = l @ m" "list_all isspace l" by (auto simp: l_def m_def list_all_iff dest: set_takeWhileD)
  show ?thesis
  proof (cases "m = []")
    case True
    then have "util_trim_space (Some s) = Some (Some [])"
      by (simp add: util_trim_space_def util_left_trim_space_def util_right_trim_space_def m_def)
    with s True show ?thesis
      by (intro exI [of _ s] exI [of _ "[]"]) simp
  next
    case False
    then have "\<not> isspace (hd m)" unfolding m_def by (rule hd_dropWhile)
    with right_trim_ok [OF False] obtain r t where
      r: "util_right_trim_space m = Some r" "m = r @ t" "r \<noteq> []" "\<not> isspace (last r)" "list_all isspace t" by blast
    then have "\<not> isspace (hd r)" using \<open>\<not> isspace (hd m)\<close> by simp
    moreover have "util_trim_space (Some s) = Some (Some r)"
      using r(1) by (simp add: util_trim_space_def util_left_trim_space_def m_def)
    ultimately show ?thesis using r s by (intro exI [of _ l] exI [of _ r] exI [of _ t]) simp
  qed
qed

subsection \<open>Sizes\<close>

lemma find_unit_Some: "find_unit u tbl = Some m \<Longrightarrow> \<exists>name. (m, name) \<in> set tbl \<and> strcaseeq u name"
  by (induction u tbl rule: find_unit.induct) (auto split: if_splits)

lemma unit_map_ok:
  "list_all (\<lambda>(m, name). 1 \<le> m \<and> m \<le> SIZE_PB \<and> (case name of [] \<Rightarrow> False | c # r \<Rightarrow> 97 \<le> code (tolower c))) g_unit_map"
  by code_simp

lemma unit_first_letter:
  assumes "(m, name) \<in> set g_unit_map"
  shows "1 \<le> m \<and> m \<le> SIZE_PB \<and> (\<exists>c r. name = c # r \<and> 97 \<le> code (tolower c))"
proof -
  from unit_map_ok assms have "1 \<le> m \<and> m \<le> SIZE_PB \<and> (case name of [] \<Rightarrow> False | c # r \<Rightarrow> 97 \<le> code (tolower c))"
    unfolding list_all_iff by blast
  then show ?thesis by (cases name) auto
qed

lemma parse_unit_Some:
  assumes "parse_unit_multiple u = Some m"
  shows "1 \<le> m \<and> m \<le> SIZE_PB \<and> takeWhile (\<lambda>c. isdigit c \<or> c = CHR ''.'') u = []"
proof (cases u)
  case Nil
  with assms show ?thesis by (simp add: parse_unit_multiple_def size_defs)
next
  case (Cons c r)
  with assms find_unit_Some [of u g_unit_map m] obtain name where
    n: "(m, name) \<in> set g_unit_map" "strcaseeq u name" by (auto simp: parse_unit_multiple_def)
  from unit_first_letter [OF n(1)] obtain c' r' where c': "name = c' # r'" "97 \<le> code (tolower c')" by blast
  have "tolower c = tolower c'" using n(2) Cons c'(1) by (simp add: strcaseeq_def)
  then have "97 \<le> code (tolower c)" using c'(2) by simp
  then have "57 < code c" by (auto simp: code_tolower split: if_splits)
  moreover have "code (CHR ''.'') = 46" by (simp add: code_def)
  ultimately have "\<not> isdigit c" "c \<noteq> CHR ''.''" by (auto simp: isdigit_def)
  with unit_first_letter [OF n(1)] Cons show ?thesis by simp
qed

lemma digit_isdigit: "is_digit_of 10 c \<longleftrightarrow> isdigit c"
  by (auto simp: is_digit_of_def digit_val_def isdigit_def)

lemma show_nat_isdigit: "list_all isdigit (show_nat n)"
  using show_nat_digits [of n] by (simp add: digit_isdigit list_all_iff)

lemma wrap64_id: "INT64_MIN \<le> x \<Longrightarrow> x \<le> INT64_MAX \<Longrightarrow> wrap64 x = x"
  by (simp add: wrap64_def INT64_MIN_def INT64_MAX_def)

lemma safe_llong_show: "util_safe_llong (Some (show_nat n)) = (if int n \<le> INT64_MAX then Inr (int n) else Inl (- ERANGE))"
proof (cases "int n \<le> INT64_MAX")
  case True
  with strtoll_show [of "int n"] show ?thesis
    by (simp add: util_safe_llong_def show_int_nat INT64_MIN_def)
next
  case False
  then have "strtoll 0 (show_nat n) = (INT64_MAX, ERANGE, False)"
    by (simp add: strtoll_def strto_show_int show_int_nat)
  with False show ?thesis by (simp add: util_safe_llong_def ERANGE_def)
qed

lemma int_div_less_iff: "0 < m \<Longrightarrow> a div m < n \<longleftrightarrow> a < n * (m :: int)"
proof
  assume "0 < m" "a div m < n"
  then have "(a div m + 1) * m \<le> n * m" by (simp add: mult_right_mono)
  moreover have "a < (a div m + 1) * m"
    using div_mult_mod_eq [of a m] pos_mod_bound [OF \<open>0 < m\<close>, of a] by (simp only: distrib_right)
  ultimately show "a < n * m" by simp
next
  assume "0 < m" "a < n * m"
  show "a div m < n"
  proof (rule ccontr)
    assume "\<not> a div m < n"
    then have "n * m \<le> a div m * m" using \<open>0 < m\<close> by (simp add: mult_right_mono)
    moreover have "a div m * m \<le> a"
      using div_mult_mod_eq [of a m] pos_mod_sign [OF \<open>0 < m\<close>, of a] by linarith
    ultimately show False using \<open>a < n * m\<close> by simp
  qed
qed

lemma parse_whole_show:
  assumes "1 \<le> m" "0 \<le> f" "f \<le> INT64_MAX"
  shows "parse_whole (show_nat n) m f =
    (if int n * m + f \<le> INT64_MAX then Inr (int n * m + f) else Inl (- ERANGE))"
proof (cases "int n * m \<le> INT64_MAX")
  case True
  have "int n * 1 \<le> int n * m" using assms(1) by (intro mult_left_mono) auto
  with True have n: "int n \<le> INT64_MAX" by linarith
  have d: "\<not> INT64_MAX div m < int n" using True assms(1) by (simp add: int_div_less_iff)
  have p: "0 \<le> int n * m" using assms(1) by simp
  have w: "wrap64 (int n * m) = int n * m" "wrap64 (INT64_MAX - int n * m) = INT64_MAX - int n * m"
    using True p by (auto intro!: wrap64_id simp: INT64_MIN_def INT64_MAX_def)
  have w2: "wrap64 (int n * m + f) = int n * m + f" if "int n * m + f \<le> INT64_MAX"
    using that p assms(2) by (intro wrap64_id) (auto simp: INT64_MIN_def)
  show ?thesis using True n d w w2 assms by (simp add: parse_whole_def safe_llong_show Let_def)
next
  case False
  then have "INT64_MAX div m < int n" using assms(1) by (simp add: int_div_less_iff)
  with False assms show ?thesis by (simp add: parse_whole_def safe_llong_show)
qed



lemma floorlog_bounds: "0 < n \<Longrightarrow> 2 ^ (floorlog 2 n - 1) \<le> n \<and> n < 2 ^ floorlog 2 n \<and> 0 < floorlog 2 n"
  using floorlog_bounds [of n 2] by (auto simp: floorlog_def)

lemma log2_rat_lower:
  assumes "0 < q"
  shows "2 powi log2_rat q \<le> q"
proof -
  obtain a b where q: "quotient_of q = (a, b)" by fastforce
  then have b: "0 < b" by (rule quotient_of_denom_pos)
  have qe: "q = of_int a / of_int b" by (rule quotient_of_div [OF q])
  then have a: "0 < a" using assms b by (simp add: zero_less_divide_iff)
  define x where "x = floorlog 2 (nat a)"
  define y where "y = floorlog 2 (nat b)"
  have "nat b < 2 ^ y" "2 ^ (x - 1) \<le> nat a" "0 < x"
    using floorlog_bounds [of "nat a"] floorlog_bounds [of "nat b"] a b by (simp_all add: x_def y_def)
  then have "b < 2 ^ y" "2 ^ (x - 1) \<le> a" using a b by (simp_all add: nat_less_iff le_nat_iff)
  then have ab: "(of_int b :: rat) \<le> 2 ^ y" "(2 :: rat) ^ (x - 1) \<le> of_int a"
    by (metis less_imp_le of_int_less_iff of_int_numeral of_int_power, metis of_int_le_iff of_int_numeral of_int_power)
  have e: "int x - int y - 1 = int (x - 1) - int y" using \<open>0 < x\<close> by (simp add: of_nat_diff)
  have "2 powi (int x - int y - 1) = (2 :: rat) ^ (x - 1) / 2 ^ y" unfolding e by (simp add: power_int_diff)
  also have "\<dots> \<le> of_int a / 2 ^ y" using ab(2) by (intro divide_right_mono) auto
  also have "\<dots> \<le> q" unfolding qe using ab(1) a b by (intro divide_left_mono) auto
  finally show ?thesis using q by (auto simp: log2_rat_def x_def y_def Let_def)
qed

lemma round_even_bounds: "of_int n \<le> x \<Longrightarrow> n \<le> round_even x" "x \<le> of_int n \<Longrightarrow> round_even x \<le> n"
proof -
  assume "of_int n \<le> x"
  then have "n \<le> \<lfloor>x\<rfloor>" by (simp add: le_floor_iff)
  then show "n \<le> round_even x" by (auto simp: round_even_def Let_def)
next
  assume le: "x \<le> of_int n"
  then have f: "\<lfloor>x\<rfloor> \<le> n" by (simp add: floor_le_iff)
  show "round_even x \<le> n"
  proof (cases "\<lfloor>x\<rfloor> = n")
    case True
    then have "x = of_int n" using le of_int_floor_le [of x] by simp
    then show ?thesis by (simp add: round_even_def)
  next
    case False
    with f show ?thesis by (auto simp: round_even_def Let_def)
  qed
qed

lemma fl_nonneg: "0 \<le> q \<Longrightarrow> 0 \<le> fl q"
  by (auto simp: fl_def Let_def intro!: mult_nonneg_nonneg round_even_bounds(1))

lemma fl_le_power:
  assumes "0 \<le> q" "q \<le> 2 ^ k"
  shows "fl q \<le> 2 ^ k"
proof (cases "q = 0")
  case False
  define L where "L = log2_rat q"
  define u :: rat where "u = 2 powi (L - 52)"
  have u: "0 < u" by (simp add: u_def)
  have "2 powi L \<le> (2 :: rat) powi int k" using log2_rat_lower [of q] False assms by (simp add: L_def)
  then have L: "L \<le> int k" by (meson not_le one_less_numeral_iff power_int_strict_increasing semiring_norm(76))
  define n where "n = nat (int k - L + 52)"
  have n: "2 ^ n * u = 2 ^ k"
  proof -
    have "2 ^ n * u = 2 powi int n * 2 powi (L - 52)" by (simp add: u_def)
    also have "\<dots> = 2 powi (int n + (L - 52))" by (rule power_int_add [symmetric]) simp
    also have "int n + (L - 52) = int k" using L by (simp add: n_def)
    finally show ?thesis by simp
  qed
  have "q / u \<le> of_int (2 ^ n)" using assms(2) u n by (simp add: divide_le_eq)
  then have "round_even (q / u) \<le> 2 ^ n" by (rule round_even_bounds(2))
  then have "of_int (round_even (q / u)) \<le> (2 ^ n :: rat)" by (metis of_int_le_iff of_int_numeral of_int_power)
  then have "fl q \<le> 2 ^ n * u" using False u by (simp add: fl_def u_def L_def [symmetric] Let_def mult_right_mono)
  then show ?thesis by (simp add: n)
qed (simp add: fl_def)

lemma unit_powers: "list_all (\<lambda>(m, name). list_ex (\<lambda>k. m = 2 ^ k) [0, 10, 20, 30, 40, 50 :: nat]) g_unit_map"
  by code_simp

lemma parse_unit_power:
  assumes "parse_unit_multiple u = Some m"
  shows "\<exists>k \<le> 50. m = 2 ^ k"
proof (cases "u = []")
  case True
  with assms show ?thesis by (auto simp: parse_unit_multiple_def intro: exI [of _ 0])
next
  case False
  with assms find_unit_Some [of u g_unit_map m] obtain name where
    "(m, name) \<in> set g_unit_map" by (auto simp: parse_unit_multiple_def)
  with unit_powers have "list_ex (\<lambda>k. m = 2 ^ k) [0, 10, 20, 30, 40, 50 :: nat]"
    unfolding list_all_iff by blast
  then show ?thesis unfolding list_ex_iff by (elim bexE) (rule exI, auto)
qed

lemma digits_val_less: "list_all isdigit s \<Longrightarrow> digits_val 10 acc s < (acc + 1) * 10 ^ length s"
proof (induction s arbitrary: acc)
  case (Cons c s)
  obtain d where d: "digit_val c = Some d" "d < 10"
    using Cons.prems by (auto simp: digit_val_def isdigit_def)
  have "digits_val 10 (acc * 10 + d) s < (acc * 10 + d + 1) * 10 ^ length s" using Cons by simp
  also have "\<dots> \<le> (acc + 1) * 10 * 10 ^ length s" using d(2) by (intro mult_right_mono) auto
  finally show ?case using d by (simp add: algebra_simps)
qed simp

lemma strtod0_digits:
  assumes "list_all isdigit f" "length f \<le> 300"
  shows "\<exists>q. strtod0 f = (fl q, 0, False) \<and> 0 \<le> q \<and> q < 1"
proof -
  define n where "n = digits_val 10 0 f"
  define q :: rat where "q = of_nat n / 10 ^ length f"
  have n: "n < 10 ^ length f" using digits_val_less [OF assms(1), of 0] by (simp add: n_def)
  then have "(of_nat n :: rat) < 10 ^ length f" by (metis of_nat_less_iff of_nat_numeral of_nat_power)
  then have q: "0 \<le> q" "q < 1" by (simp_all add: q_def)
  have "fl q \<le> 1" using fl_le_power [of q 0] q by simp
  moreover have "1 < DBL_LIMIT" by (simp add: DBL_LIMIT_def)
  ultimately have big: "\<not> DBL_LIMIT \<le> fl q" by simp
  have small: "\<not> (0 < q \<and> q < DBL_MIN)"
  proof
    assume s: "0 < q \<and> q < DBL_MIN"
    then have "1 \<le> n" by (cases n) (auto simp: q_def)
    then have "(1 :: rat) / 10 ^ length f \<le> q" unfolding q_def by (intro divide_right_mono) auto
    moreover have "(1 :: rat) / 10 ^ 300 \<le> 1 / 10 ^ length f"
      using assms(2) by (intro divide_left_mono power_increasing) auto
    moreover have "DBL_MIN < 1 / 10 ^ 300" by (simp add: DBL_MIN_def power_int_minus)
    ultimately show False using s by linarith
  qed
  have "strtod0 f = (fl q, 0, False)"
    unfolding strtod0_def takeWhile_all [OF assms(1), THEN conjunct1] takeWhile_all [OF assms(1), THEN conjunct2]
    using big small by (auto simp: parse_exponent_def n_def [symmetric] q_def [symmetric] Let_def)
  with q show ?thesis by blast
qed

lemma double_to_int64_bounds:
  assumes "0 \<le> x" "x \<le> of_int m" "m \<le> 2 ^ 50"
  shows "0 \<le> double_to_int64 x" "double_to_int64 x \<le> m"
proof -
  have "of_int m \<le> (of_int (2 ^ 50) :: rat)" using assms(3) by (simp only: of_int_le_iff)
  then have "x < 2 ^ 63" using assms(2) by simp
  with assms show "0 \<le> double_to_int64 x" "double_to_int64 x \<le> m"
    by (auto simp: double_to_int64_def floor_le_iff)
qed

lemma parse_fraction_digits:
  assumes "list_all isdigit f" "length f \<le> 300" "m = 2 ^ k" "k \<le> 50"
  shows "\<exists>r. parse_fraction f m = Inr r \<and> 0 \<le> r \<and> r \<le> m"
proof -
  from strtod0_digits [OF assms(1,2)] obtain q where q: "strtod0 f = (fl q, 0, False)" "0 \<le> q" "q < 1" by blast
  have f: "0 \<le> fl q" "fl q \<le> 1" using fl_nonneg [of q] fl_le_power [of q 0] q by simp_all
  have m: "1 \<le> m" "m \<le> 2 ^ 50" unfolding assms(3) using assms(4) by (simp, intro power_increasing) auto
  have "double_to_int64 (fl q) \<le> 1" using double_to_int64_bounds(2) [of "fl q" 1] f by simp
  moreover have "\<not> INT64_MAX div m < 1" using m by (simp add: int_div_less_iff INT64_MAX_def)
  ultimately have a: "\<not> INT64_MAX div m < double_to_int64 (fl q)" by linarith
  define x where "x = fl q * of_int m"
  have "x \<le> 2 ^ k" using f(2) by (simp add: x_def assms(3) mult_le_cancel_right2)
  moreover have "0 \<le> x" using f(1) m by (simp add: x_def)
  ultimately have "fl x \<le> 2 ^ k" "0 \<le> fl x" by (auto intro: fl_le_power fl_nonneg)
  then have "0 \<le> double_to_int64 (fl x)" "double_to_int64 (fl x) \<le> m"
    using double_to_int64_bounds [of "fl x" m] m(2) by (simp_all add: assms(3))
  then show ?thesis using a m(1) q by (simp add: parse_fraction_def x_def)
qed

text \<open>A size with a decimal fraction and a unit, such as 1.5G, is read as a number of bytes
  between the whole part and one unit more, for fractions of up to 300 digits and sizes that fit: the
  rounding of the double arithmetic never carries it outside, and no intermediate value overflows.\<close>

theorem util_parse_byte_size_string_fraction:
  assumes "parse_unit_multiple u = Some m" "list_all isdigit f" "f \<noteq> []" "length f \<le> 300"
    and "(int n + 1) * m \<le> INT64_MAX"
  shows "\<exists>r. util_parse_byte_size_string (Some (show_nat n @ ''.'' @ f @ u)) = Inr r \<and>
     int n * m \<le> r \<and> r \<le> (int n + 1) * m"
proof -
  let ?P = "\<lambda>c. isdigit c \<or> c = CHR ''.''"
  let ?num = "show_nat n @ ''.'' @ f"
  have m: "1 \<le> m" "takeWhile ?P u = []" using parse_unit_Some [OF assms(1)] by simp_all
  obtain k where k: "k \<le> 50" "m = 2 ^ k" using parse_unit_power [OF assms(1)] by blast
  have dig: "\<And>c. c \<in> set (show_nat n) \<Longrightarrow> isdigit c" using show_nat_isdigit [of n] by (auto simp: list_all_iff)
  moreover have "\<not> isdigit (CHR ''.'')" by (simp add: isdigit_def code_def)
  ultimately have nodot: "\<And>c. c \<in> set (show_nat n) \<Longrightarrow> c \<noteq> CHR ''.''" by metis
  have all: "\<And>c. c \<in> set ?num \<Longrightarrow> ?P c" using dig assms(2) by (auto simp: list_all_iff)
  have "dropWhile ?P u = u" using m(2) by (metis append_Nil takeWhile_dropWhile_id)
  then have tw: "takeWhile ?P (?num @ u) = ?num" "dropWhile ?P (?num @ u) = u"
    using takeWhile_append2 [of ?num ?P u] dropWhile_append2 [of ?num ?P u] all m(2) by auto
  have hd: "show_nat n \<noteq> []" "isdigit (hd (show_nat n @ ''.'' @ f @ u))"
    using show_nat_Cons [of n] dig by auto
  have dot: "dropWhile (\<lambda>c. c \<noteq> CHR ''.'') ?num = CHR ''.'' # f" "takeWhile (\<lambda>c. c \<noteq> CHR ''.'') ?num = show_nat n"
    using nodot dropWhile_append2 [of "show_nat n" "\<lambda>c. c \<noteq> CHR ''.''" "''.'' @ f"]
      takeWhile_append2 [of "show_nat n" "\<lambda>c. c \<noteq> CHR ''.''" "''.'' @ f"] by auto
  from parse_fraction_digits [OF assms(2,4) k(2,1)] obtain r where
    r: "parse_fraction f m = Inr r" "0 \<le> r" "r \<le> m" by blast
  have b: "int n * m + r \<le> (int n + 1) * m" using r(3) by (simp add: algebra_simps)
  have "m \<le> 2 ^ 50" unfolding k(2) using k(1) by (intro power_increasing) auto
  then have "r \<le> INT64_MAX" using r(3) by (simp add: INT64_MAX_def)
  with parse_whole_show [OF m(1) r(2), of n] b assms(5)
  have "parse_whole (show_nat n) m r = Inr (int n * m + r)" by simp
  then have "util_parse_size_int_and_float ?num m = Inr (int n * m + r)"
    using dot hd(1) assms(3) r(1) by (simp add: util_parse_size_int_and_float_def)
  then show ?thesis using tw hd assms(1) b r(2) by (simp add: util_parse_byte_size_string_def)
qed

theorem util_parse_byte_size_string_fraction_witness:
  "\<exists>r. util_parse_byte_size_string (Some (show_nat 1 @ ''.'' @ ''5'' @ ''G'')) = Inr r \<and>
       SIZE_GB \<le> r \<and> r \<le> 2 * SIZE_GB"
proof -
  have "parse_unit_multiple ''G'' = Some SIZE_GB" by code_simp
  from util_parse_byte_size_string_fraction [OF this, of "''5''" 1] show ?thesis
    by (simp add: size_defs INT64_MAX_def isdigit_def code_def)
qed

subsection \<open>Unique strings\<close>

lemma smap_replace_keys:
  assumes "smap_ok m" "c_str k" "smap_replace ok k v m = (True, m')"
  shows "smap_ok m' \<and> fst ` set m' = insert k (fst ` set m)"
proof (cases "smap_find k m")
  case None
  with assms(3) have "m' = store_ins rbtree_str_cmp k v m" by (auto simp: spec_defs split: if_splits)
  with None assms show ?thesis by (simp add: str_cmp.store_ins_ok str_cmp.set_store_ins)
next
  case (Some w)
  with assms(3) have m': "m' = store_upd rbtree_str_cmp k v m" by (auto simp: spec_defs)
  have "k \<in> fst ` set m" using Some assms(1,2) str_cmp.store_find_None [of k m] by auto
  moreover have "fst ` set m' = fst ` set m"
    using str_cmp.store_upd_keys [of k v m] m' by (metis image_set)
  ultimately show ?thesis using m' assms(1) by (simp add: str_cmp.store_upd_ok insert_absorb)
qed

lemma smap_replace_True: "fst (smap_replace True k v m)"
  by (simp add: spec_defs)

lemma unique_loop_ok:
  "smap_ok m \<Longrightarrow> list_all c_str es \<Longrightarrow> unique_loop al i es m = Some m' \<Longrightarrow>
   smap_ok m' \<and> fst ` set m' = fst ` set m \<union> set es"
proof (induction es arbitrary: i m)
  case (Cons e es)
  from Cons.prems(3) obtain m1 where
    "smap_replace (al i) e True m = (True, m1)" "unique_loop al (Suc i) es m1 = Some m'"
    by (auto split: prod.splits bool.splits)
  with smap_replace_keys [of m e "al i" True m1] Cons.IH [of m1 "Suc i"] Cons.prems(1,2) show ?case by auto
qed simp

lemma unique_loop_total: "(\<And>i. al i) \<Longrightarrow> unique_loop al i es m \<noteq> None"
proof (induction es arbitrary: i m)
  case (Cons e es)
  from smap_replace_True [of e True m] Cons.prems [of i] obtain m1 where "smap_replace (al i) e True m = (True, m1)"
    by (cases "smap_replace True e True m") auto
  with Cons show ?case by simp
qed simp

lemma smap_ok_length: "smap_ok m \<Longrightarrow> length m = card (fst ` set m)"
  using distinct_card [OF str_cmp.store_distinct, of m] by simp

text \<open>C33. \<open>util_string_array_unique\<close> returns each of its strings once, in the order of the map's
  string comparison; with memory available it succeeds.\<close>

theorem util_string_array_unique_ok:
  assumes "list_all c_str es" "es \<noteq> []" "\<And>i. al i" "8 * length es \<le> MAX_MEMORY_SIZE"
  shows "\<exists>us. util_string_array_unique al es = (0, Some us) \<and> set us = set es \<and>
     sorted_wrt (\<lambda>a b. rbtree_str_cmp a b < 0) us \<and> distinct us"
proof -
  from unique_loop_total [of al 1 es "[]"] assms(3) obtain m where m: "unique_loop al 1 es [] = Some m" by auto
  with unique_loop_ok [of "[]" es al 1 m] assms(1) have k: "smap_ok m" "fst ` set m = set es" by auto
  have "length m \<le> length es" using smap_ok_length [OF k(1)] card_length [of es] by (simp add: k(2))
  moreover have "m \<noteq> []" using k(2) assms(2) by auto
  ultimately have "util_common_calloc_s True (length m * 8)"
    using assms(4) by (simp add: util_common_calloc_s_def)
  then have "util_string_array_unique al es = (0, Some (map fst m))"
    using m assms(2,3) by (simp add: util_string_array_unique_def)
  with k str_cmp.store_ok_keys [of m] str_cmp.store_distinct [of m] show ?thesis by auto
qed

theorem util_string_array_unique_ok_witness:
  "\<exists>us. util_string_array_unique all_ok [''b'', ''a'', ''b''] = (0, Some us) \<and> set us = {''a'', ''b''} \<and> distinct us"
  using util_string_array_unique_ok [of "[''b'', ''a'', ''b'']" all_ok] by (auto simp: MAX_MEMORY_SIZE_def)

end
