(* ===== verification/Container_State.thy ===== *)
theory Container_State
  imports Prelude
begin

section \<open>The state of a container\<close>

text \<open>
  src/src/daemon/modules/container/container_state.c: the flags, process identity and
  timestamps of a container, the operations the executor applies to them, and the status the
  client sees.  A \<open>container_state_t *\<close> is an \<open>option\<close> (NULL is None); its mutex is taken at
  the start and released at the end of every operation, so an operation is one atomic step.
  The clock (\<open>util_get_now_time_buffer\<close>) is the argument \<open>now\<close> of the operations that read it.
\<close>

definition defaultContainerTime :: string where
  "defaultContainerTime = ''0001-01-01T00:00:00Z''"

datatype Container_Status =
    CONTAINER_STATUS_UNKNOWN | CONTAINER_STATUS_CREATED | CONTAINER_STATUS_STARTING
  | CONTAINER_STATUS_RUNNING | CONTAINER_STATUS_STOPPED | CONTAINER_STATUS_PAUSED
  | CONTAINER_STATUS_RESTARTING | CONTAINER_STATUS_MAX_STATE

record health_log_element =
  log_start :: "string option"
  log_end :: "string option"
  log_exit_code :: int
  log_output :: "string option"

record defs_health =
  health_status :: "string option"
  failing_streak :: int
  health_log :: "health_log_element list"

record container_state =
  running :: bool
  paused :: bool
  restarting :: bool
  starting :: bool
  dead :: bool
  oom_killed :: bool
  removal_inprogress :: bool
  has_been_manually_stopped :: bool
  pid :: int
  start_time :: nat
  p_pid :: int
  p_start_time :: nat
  exit_code :: int
  restart_count :: int
  error :: "string option"
  started_at :: "string option"
  finished_at :: "string option"
  health :: "defs_health option"

record pid_ppid_info_t =
  info_pid :: int
  info_start_time :: nat
  info_ppid :: int
  info_pstart_time :: nat

subsection \<open>Operations\<close>

text \<open>\<open>container_state_new\<close>: two allocations and the initialisation of the mutex may fail; a new
  state is zeroed apart from its two timestamps.\<close>

definition zero_state :: container_state where
  "zero_state = \<lparr> running = False, paused = False, restarting = False, starting = False, dead = False,
     oom_killed = False, removal_inprogress = False, has_been_manually_stopped = False, pid = 0, start_time = 0,
     p_pid = 0, p_start_time = 0, exit_code = 0, restart_count = 0, error = None, started_at = None,
     finished_at = None, health = None \<rparr>"

definition container_state_new :: "alloc \<Rightarrow> int \<Rightarrow> container_state option" where
  "container_state_new al mutex_init =
     (if \<not> al 0 then None
      else if mutex_init \<noteq> 0 then None
      else if \<not> al 1 then None
      else Some (zero_state\<lparr>started_at := Some defaultContainerTime, finished_at := Some defaultContainerTime\<rparr>))"

definition container_state_set_starting :: "container_state option \<Rightarrow> container_state option" where
  "container_state_set_starting = map_option (\<lambda>s. s\<lparr>starting := True\<rparr>)"

definition container_state_set_dead :: "container_state option \<Rightarrow> container_state option" where
  "container_state_set_dead = map_option (\<lambda>s. s\<lparr>dead := True\<rparr>)"

definition container_state_reset_starting :: "container_state option \<Rightarrow> container_state option" where
  "container_state_reset_starting = map_option (\<lambda>s. s\<lparr>starting := False\<rparr>)"

definition container_state_set_running ::
    "string \<Rightarrow> container_state option \<Rightarrow> pid_ppid_info_t option \<Rightarrow> bool \<Rightarrow> container_state option" where
  "container_state_set_running now s pid_info initial =
     map_option (\<lambda>s.
       let s = s\<lparr>error := None, running := True, starting := False, restarting := False\<rparr>;
           s = (if initial then s\<lparr>paused := False\<rparr> else s);
           s = s\<lparr>exit_code := 0\<rparr>;
           s = (case pid_info of
                  Some i \<Rightarrow> s\<lparr>pid := info_pid i, start_time := info_start_time i,
                              p_pid := info_ppid i, p_start_time := info_pstart_time i\<rparr>
                | None \<Rightarrow> s\<lparr>pid := 0, start_time := 0, p_pid := 0, p_start_time := 0\<rparr>)
       in s\<lparr>started_at := Some now\<rparr>) s"

definition container_state_set_stopped :: "string \<Rightarrow> container_state option \<Rightarrow> int \<Rightarrow> container_state option" where
  "container_state_set_stopped now s ec =
     map_option (\<lambda>s. s\<lparr>running := False, starting := False, restarting := False, paused := False,
       exit_code := ec, pid := 0, start_time := 0, p_pid := 0, p_start_time := 0,
       finished_at := Some now\<rparr>) s"

definition container_state_set_paused :: "container_state option \<Rightarrow> container_state option" where
  "container_state_set_paused = map_option (\<lambda>s. s\<lparr>paused := True\<rparr>)"

definition container_state_reset_paused :: "container_state option \<Rightarrow> container_state option" where
  "container_state_reset_paused = map_option (\<lambda>s. s\<lparr>paused := False\<rparr>)"

definition container_restart_update_start_and_finish_time ::
    "string \<Rightarrow> container_state option \<Rightarrow> string option \<Rightarrow> container_state option" where
  "container_restart_update_start_and_finish_time now s finish_at =
     map_option (\<lambda>s. s\<lparr>running := True, starting := False, restarting := False, paused := False,
       exit_code := 0, finished_at := finish_at, started_at := Some now\<rparr>) s"

definition container_state_set_restarting :: "string \<Rightarrow> container_state option \<Rightarrow> int \<Rightarrow> container_state option" where
  "container_state_set_restarting now s ec =
     map_option (\<lambda>s. s\<lparr>running := True, starting := False, restarting := True, paused := False,
       pid := 0, start_time := 0, p_pid := 0, p_start_time := 0, exit_code := ec,
       finished_at := Some now\<rparr>) s"

definition container_state_increase_restart_count :: "container_state option \<Rightarrow> container_state option" where
  "container_state_increase_restart_count = map_option (\<lambda>s. s\<lparr>restart_count := restart_count s + 1\<rparr>)"

definition container_state_reset_restart_count :: "container_state option \<Rightarrow> container_state option" where
  "container_state_reset_restart_count = map_option (\<lambda>s. s\<lparr>restart_count := 0\<rparr>)"

definition container_state_get_restart_count :: "container_state option \<Rightarrow> int" where
  "container_state_get_restart_count s = (case s of None \<Rightarrow> 0 | Some s \<Rightarrow> restart_count s)"

definition container_state_set_removal_in_progress :: "container_state option \<Rightarrow> bool \<times> container_state option" where
  "container_state_set_removal_in_progress s =
     (case s of
        None \<Rightarrow> (False, None)
      | Some st \<Rightarrow> if removal_inprogress st then (True, Some st)
                  else (False, Some (st\<lparr>removal_inprogress := True\<rparr>)))"

definition container_state_reset_removal_in_progress :: "container_state option \<Rightarrow> container_state option" where
  "container_state_reset_removal_in_progress = map_option (\<lambda>s. s\<lparr>removal_inprogress := False\<rparr>)"

text \<open>\<open>container_state_set_error\<close> has no NULL check on the state: it takes the state itself.\<close>

definition container_state_set_error :: "container_state \<Rightarrow> string option \<Rightarrow> container_state" where
  "container_state_set_error s err = (if err \<noteq> None then s\<lparr>error := err\<rparr> else s)"

definition container_state_set_has_been_manual_stopped :: "container_state option \<Rightarrow> container_state option" where
  "container_state_set_has_been_manual_stopped = map_option (\<lambda>s. s\<lparr>has_been_manually_stopped := True\<rparr>)"

definition container_state_reset_has_been_manual_stopped :: "container_state option \<Rightarrow> container_state option" where
  "container_state_reset_has_been_manual_stopped = map_option (\<lambda>s. s\<lparr>has_been_manually_stopped := False\<rparr>)"

definition container_state_get_has_been_manual_stopped :: "container_state option \<Rightarrow> bool" where
  "container_state_get_has_been_manual_stopped s = (case s of None \<Rightarrow> False | Some s \<Rightarrow> has_been_manually_stopped s)"

subsection \<open>Status and copies\<close>

definition container_state_judge_status :: "container_state option \<Rightarrow> Container_Status" where
  "container_state_judge_status state =
     (case state of
        None \<Rightarrow> CONTAINER_STATUS_UNKNOWN
      | Some s \<Rightarrow>
          if running s then
            (if paused s then CONTAINER_STATUS_PAUSED
             else if restarting s then CONTAINER_STATUS_RESTARTING
             else CONTAINER_STATUS_RUNNING)
          else if starting s then CONTAINER_STATUS_STARTING
          else if started_at s = None \<or> finished_at s = None then CONTAINER_STATUS_UNKNOWN
          else if started_at s = Some defaultContainerTime \<and> finished_at s = Some defaultContainerTime
            then CONTAINER_STATUS_CREATED
          else CONTAINER_STATUS_STOPPED)"

definition container_state_get_status :: "container_state option \<Rightarrow> Container_Status" where
  "container_state_get_status s = (if s = None then CONTAINER_STATUS_UNKNOWN else container_state_judge_status s)"

fun container_state_to_string :: "Container_Status \<Rightarrow> string" where
  "container_state_to_string CONTAINER_STATUS_UNKNOWN = ''unknown''"
| "container_state_to_string CONTAINER_STATUS_CREATED = ''inited''"
| "container_state_to_string CONTAINER_STATUS_STARTING = ''starting''"
| "container_state_to_string CONTAINER_STATUS_RUNNING = ''running''"
| "container_state_to_string CONTAINER_STATUS_STOPPED = ''exited''"
| "container_state_to_string CONTAINER_STATUS_PAUSED = ''paused''"
| "container_state_to_string CONTAINER_STATUS_RESTARTING = ''restarting''"
| "container_state_to_string CONTAINER_STATUS_MAX_STATE = ''unknown''"

definition container_is_valid_state_string :: "string option \<Rightarrow> bool" where
  "container_is_valid_state_string state =
     (case state of
        None \<Rightarrow> False
      | Some s \<Rightarrow> \<not> (s \<noteq> ''paused'' \<and> s \<noteq> ''restarting'' \<and> s \<noteq> ''running'' \<and>
                     s \<noteq> ''dead'' \<and> s \<noteq> ''created'' \<and> s \<noteq> ''exited''))"

text \<open>\<open>container_dup_health_check_status\<close>: allocation 0 is the copy, allocation 1 its table of
  log entries, allocation 2 + i the i-th entry.  None is the error return; Some d is the return
  of 0 with \<open>*dst\<close> holding d (the callers pass a \<open>dst\<close> that holds NULL).\<close>

definition dup_log_element :: "health_log_element \<Rightarrow> health_log_element" where
  "dup_log_element e = \<lparr> log_start = log_start e, log_end = log_end e,
     log_exit_code = log_exit_code e, log_output = log_output e \<rparr>"

fun dup_health_log :: "alloc \<Rightarrow> nat \<Rightarrow> health_log_element list \<Rightarrow> health_log_element list \<Rightarrow>
    health_log_element list option" where
  "dup_health_log al i [] done = Some done"
| "dup_health_log al i (e # es) done =
     (if \<not> al (2 + i) then None else dup_health_log al (Suc i) es (done @ [dup_log_element e]))"

definition container_dup_health_check_status :: "alloc \<Rightarrow> defs_health option \<Rightarrow> defs_health option option" where
  "container_dup_health_check_status al src =
     (case src of
        None \<Rightarrow> Some None
      | Some h \<Rightarrow>
          if \<not> al 0 then None
          else let result = \<lparr> health_status = health_status h, failing_streak = failing_streak h, health_log = [] \<rparr>
               in if length (health_log h) \<noteq> 0 then
                    (if length (health_log h) > SIZE_MAX div 8 then None
                     else if \<not> util_common_calloc_s (al 1) (8 * length (health_log h)) then None
                     else case dup_health_log al 0 (health_log h) [] of
                            None \<Rightarrow> None
                          | Some l \<Rightarrow> Some (Some (result\<lparr>health_log := l\<rparr>)))
                  else Some (Some result))"

definition or_default_time :: "string option \<Rightarrow> string option" where
  "or_default_time t = (case t of Some t \<Rightarrow> Some t | None \<Rightarrow> Some defaultContainerTime)"

definition container_dup_state :: "alloc \<Rightarrow> container_state option \<Rightarrow> container_state option" where
  "container_dup_state al s =
     (case s of
        None \<Rightarrow> None
      | Some src \<Rightarrow>
          if \<not> al 0 then None
          else let state = zero_state\<lparr>pid := pid src, oom_killed := oom_killed src, dead := dead src,
                     paused := paused src, running := running src, restarting := restarting src,
                     removal_inprogress := removal_inprogress src, starting := starting src,
                     exit_code := exit_code src, started_at := or_default_time (started_at src),
                     finished_at := or_default_time (finished_at src), error := error src\<rparr>
               in case container_dup_health_check_status (\<lambda>i. al (Suc i)) (health src) of
                    None \<Rightarrow> None
                  | Some h \<Rightarrow> Some (state\<lparr>health := h, restart_count := restart_count src\<rparr>))"

record container_inspect_state =
  i_status :: string
  i_running :: bool
  i_paused :: bool
  i_restarting :: bool
  i_pid :: int
  i_exit_code :: int
  i_started_at :: "string option"
  i_finished_at :: "string option"
  i_error :: "string option"
  i_health :: "defs_health option"

definition container_state_to_inspect_state :: "alloc \<Rightarrow> container_state option \<Rightarrow> container_inspect_state option" where
  "container_state_to_inspect_state al s =
     (case s of
        None \<Rightarrow> None
      | Some src \<Rightarrow>
          if \<not> al 0 then None
          else case container_dup_health_check_status (\<lambda>i. al (Suc i)) (health src) of
                 None \<Rightarrow> None
               | Some h \<Rightarrow> Some \<lparr> i_status = container_state_to_string (container_state_judge_status (Some src)),
                     i_running = running src, i_paused = paused src, i_restarting = restarting src,
                     i_pid = pid src, i_exit_code = exit_code src,
                     i_started_at = or_default_time (started_at src),
                     i_finished_at = or_default_time (finished_at src),
                     i_error = error src, i_health = h \<rparr>)"

definition container_state_get_exitcode :: "container_state option \<Rightarrow> 32 word" where
  "container_state_get_exitcode s = (case s of None \<Rightarrow> 0 | Some s \<Rightarrow> word_of_int (exit_code s))"

definition container_is_running :: "container_state option \<Rightarrow> bool" where
  "container_is_running s = (case s of None \<Rightarrow> False | Some s \<Rightarrow> running s)"

definition container_is_restarting :: "container_state option \<Rightarrow> bool" where
  "container_is_restarting s = (case s of None \<Rightarrow> False | Some s \<Rightarrow> restarting s)"

definition container_is_paused :: "container_state option \<Rightarrow> bool" where
  "container_is_paused s = (case s of None \<Rightarrow> False | Some s \<Rightarrow> paused s)"

definition container_is_removal_in_progress :: "container_state option \<Rightarrow> bool" where
  "container_is_removal_in_progress s = (case s of None \<Rightarrow> False | Some s \<Rightarrow> removal_inprogress s)"

definition container_is_dead :: "container_state option \<Rightarrow> bool" where
  "container_is_dead s = (case s of None \<Rightarrow> False | Some s \<Rightarrow> dead s)"

definition container_state_get_pid :: "container_state option \<Rightarrow> int" where
  "container_state_get_pid s = (case s of None \<Rightarrow> 0 | Some s \<Rightarrow> pid s)"

definition container_state_get_started_at :: "container_state option \<Rightarrow> string option" where
  "container_state_get_started_at s = (case s of None \<Rightarrow> None | Some s \<Rightarrow> started_at s)"

lemmas state_op_defs =
  container_state_set_starting_def container_state_set_dead_def container_state_reset_starting_def
  container_state_set_running_def container_state_set_stopped_def container_state_set_paused_def
  container_state_reset_paused_def container_restart_update_start_and_finish_time_def
  container_state_set_restarting_def container_state_increase_restart_count_def
  container_state_reset_restart_count_def container_state_set_removal_in_progress_def
  container_state_reset_removal_in_progress_def container_state_set_error_def
  container_state_set_has_been_manual_stopped_def container_state_reset_has_been_manual_stopped_def

subsection \<open>The life of a state\<close>

text \<open>
  One rule per operation.  A clock value is any string but the reserved
  \<^const>\<open>defaultContainerTime\<close>; \<open>finish_at\<close> is any string.
\<close>

inductive state_step :: "container_state \<Rightarrow> container_state \<Rightarrow> bool" where
  st_starting: "container_state_set_starting (Some s) = Some s' \<Longrightarrow> state_step s s'"
| st_dead: "container_state_set_dead (Some s) = Some s' \<Longrightarrow> state_step s s'"
| st_reset_starting: "container_state_reset_starting (Some s) = Some s' \<Longrightarrow> state_step s s'"
| st_running: "now \<noteq> defaultContainerTime \<Longrightarrow>
    container_state_set_running now (Some s) info initial = Some s' \<Longrightarrow> state_step s s'"
| st_stopped: "now \<noteq> defaultContainerTime \<Longrightarrow>
    container_state_set_stopped now (Some s) ec = Some s' \<Longrightarrow> state_step s s'"
| st_paused: "container_state_set_paused (Some s) = Some s' \<Longrightarrow> state_step s s'"
| st_reset_paused: "container_state_reset_paused (Some s) = Some s' \<Longrightarrow> state_step s s'"
| st_restart_update: "now \<noteq> defaultContainerTime \<Longrightarrow>
    container_restart_update_start_and_finish_time now (Some s) (Some finish_at) = Some s' \<Longrightarrow> state_step s s'"
| st_restarting: "now \<noteq> defaultContainerTime \<Longrightarrow>
    container_state_set_restarting now (Some s) ec = Some s' \<Longrightarrow> state_step s s'"
| st_increase_count: "container_state_increase_restart_count (Some s) = Some s' \<Longrightarrow> state_step s s'"
| st_reset_count: "container_state_reset_restart_count (Some s) = Some s' \<Longrightarrow> state_step s s'"
| st_removal: "container_state_set_removal_in_progress (Some s) = (r, Some s') \<Longrightarrow> state_step s s'"
| st_reset_removal: "container_state_reset_removal_in_progress (Some s) = Some s' \<Longrightarrow> state_step s s'"
| st_error: "container_state_set_error s err = s' \<Longrightarrow> state_step s s'"
| st_manual: "container_state_set_has_been_manual_stopped (Some s) = Some s' \<Longrightarrow> state_step s s'"
| st_reset_manual: "container_state_reset_has_been_manual_stopped (Some s) = Some s' \<Longrightarrow> state_step s s'"

definition state_inv :: "container_state \<Rightarrow> bool" where
  "state_inv s \<longleftrightarrow>
     (restarting s \<longrightarrow> running s) \<and>
     (\<not> running s \<or> restarting s \<longrightarrow> pid s = 0 \<and> start_time s = 0 \<and> p_pid s = 0 \<and> p_start_time s = 0) \<and>
     started_at s \<noteq> None \<and> finished_at s \<noteq> None"

definition ever_run :: "container_state \<Rightarrow> bool" where
  "ever_run s \<longleftrightarrow> started_at s \<noteq> Some defaultContainerTime \<or> finished_at s \<noteq> Some defaultContainerTime"

lemma state_inv_new: "container_state_new al mi = Some s \<Longrightarrow> state_inv s \<and> \<not> ever_run s \<and> \<not> running s"
  by (auto simp: container_state_new_def state_inv_def ever_run_def zero_state_def split: if_splits)

lemmas state_op_simps = state_op_defs Let_def option.map option.inject option.case prod.inject

lemma state_step_inv: "state_step s s' \<Longrightarrow> state_inv s \<Longrightarrow> state_inv s'"
  by (induction rule: state_step.induct)
    (simp_all only: state_op_simps split: if_split_asm, (erule conjE subst, simp add: state_inv_def split: option.split)+)

lemma state_step_ever_run: "state_step s s' \<Longrightarrow> ever_run s \<or> running s' \<and> \<not> running s \<Longrightarrow> ever_run s'"
  by (induction rule: state_step.induct)
    (simp_all only: state_op_simps split: if_split_asm, ((elim conjE)?, hypsubst, simp add: ever_run_def split: option.splits)+)

lemma state_steps_inv: "state_step\<^sup>*\<^sup>* s s' \<Longrightarrow> state_inv s \<Longrightarrow> state_inv s'"
  by (induction rule: rtranclp_induct) (auto intro: state_step_inv)

lemma state_steps_ever_run: "state_step\<^sup>*\<^sup>* s s' \<Longrightarrow> ever_run s \<Longrightarrow> ever_run s'"
  by (induction rule: rtranclp_induct) (auto intro: state_step_ever_run)

lemma state_steps_running: "state_step\<^sup>*\<^sup>* s s' \<Longrightarrow> \<not> running s \<Longrightarrow> running s' \<Longrightarrow> ever_run s'"
  by (induction rule: rtranclp_induct) (auto intro: state_step_ever_run)

lemma judge_status_created: "container_state_judge_status (Some s) = CONTAINER_STATUS_CREATED \<Longrightarrow> \<not> ever_run s"
  by (auto simp: container_state_judge_status_def ever_run_def split: if_splits)

text \<open>C6. Whatever sequence of operations a new container state goes through, a state that is
  restarting is also running; a state that is not running, or is restarting, records no process
  (pid, parent pid and both start times are 0); and its status is never "unknown".\<close>

theorem container_state_invariant:
  assumes "container_state_new al mi = Some s" "state_step\<^sup>*\<^sup>* s s'"
  shows "(container_is_restarting (Some s') \<longrightarrow> container_is_running (Some s')) \<and>
         (\<not> container_is_running (Some s') \<or> container_is_restarting (Some s') \<longrightarrow>
            container_state_get_pid (Some s') = 0 \<and> start_time s' = 0 \<and> p_pid s' = 0 \<and> p_start_time s' = 0) \<and>
         container_state_get_status (Some s') \<noteq> CONTAINER_STATUS_UNKNOWN"
proof -
  have "state_inv s'" using state_inv_new [OF assms(1)] state_steps_inv [OF assms(2)] by blast
  then show ?thesis
    by (auto simp: state_inv_def container_is_restarting_def container_is_running_def container_state_get_pid_def
        container_state_get_status_def container_state_judge_status_def)
qed

lemma two_steps: "r a b \<Longrightarrow> r b c \<Longrightarrow> r\<^sup>*\<^sup>* a c"
  by (meson converse_rtranclp_into_rtranclp r_into_rtranclp)

definition ex_new :: container_state where
  "ex_new = the (container_state_new all_ok 0)"

definition ex_running :: container_state where
  "ex_running = the (container_state_set_running ''2021-08-01T00:00:00Z'' (Some ex_new)
     (Some \<lparr> info_pid = 42, info_start_time = 7, info_ppid = 41, info_pstart_time = 6 \<rparr>) True)"

definition ex_restarting :: container_state where
  "ex_restarting = the (container_state_set_restarting ''2021-08-02T00:00:00Z'' (Some ex_running) 137)"

lemmas ex_state_defs = ex_new_def ex_running_def ex_restarting_def container_state_new_def state_op_defs
  zero_state_def defaultContainerTime_def

lemma ex_new_eq: "container_state_new all_ok 0 = Some ex_new"
  by (simp add: ex_state_defs)

lemma ex_run: "state_step ex_new ex_running"
  by (rule st_running [where now = "''2021-08-01T00:00:00Z''" and initial = True
        and info = "Some \<lparr> info_pid = 42, info_start_time = 7, info_ppid = 41, info_pstart_time = 6 \<rparr>"])
    (simp_all add: ex_state_defs)

lemma ex_restart: "state_step ex_running ex_restarting"
  by (rule st_restarting [where now = "''2021-08-02T00:00:00Z''" and ec = 137]) (simp_all add: ex_state_defs)

theorem container_state_invariant_witness:
  "container_is_restarting (Some ex_restarting) \<and> pid ex_running = 42 \<and>
   container_is_running (Some ex_restarting) \<and> container_state_get_pid (Some ex_restarting) = 0"
  using container_state_invariant [OF ex_new_eq two_steps [of state_step, OF ex_run ex_restart]]
  by (simp add: container_is_restarting_def) (simp add: ex_state_defs)

text \<open>C24. A container that has once been running never shows the status "created" again, whatever
  operations follow.\<close>

theorem container_state_never_created_again:
  assumes "container_state_new al mi = Some s" "state_step\<^sup>*\<^sup>* s r" "container_is_running (Some r)"
    and "state_step\<^sup>*\<^sup>* r s'"
  shows "container_state_get_status (Some s') \<noteq> CONTAINER_STATUS_CREATED"
proof -
  have "ever_run r"
    using state_inv_new [OF assms(1)] state_steps_running [OF assms(2)] assms(3)
    by (simp add: container_is_running_def)
  then have "ever_run s'" by (rule state_steps_ever_run [OF assms(4)])
  then show ?thesis using judge_status_created by (auto simp: container_state_get_status_def)
qed

theorem container_state_never_created_again_witness:
  "container_state_get_status (Some ex_new) = CONTAINER_STATUS_CREATED \<and>
   container_state_get_status (Some ex_restarting) \<noteq> CONTAINER_STATUS_CREATED"
  using container_state_never_created_again
    [OF ex_new_eq r_into_rtranclp [of state_step, OF ex_run] _ r_into_rtranclp [of state_step, OF ex_restart]]
  by (simp add: container_is_running_def container_state_get_status_def)
    (simp add: ex_state_defs container_state_judge_status_def)



lemma dup_log_element [simp]: "dup_log_element e = e"
  by (simp add: dup_log_element_def)

lemma dup_health_log_ok: "\<forall>j. al j \<Longrightarrow> dup_health_log al i es acc = Some (acc @ es)"
  by (induction es arbitrary: i acc) simp_all

lemma dup_health_log_Some: "dup_health_log al i es acc = Some l \<Longrightarrow> l = acc @ es"
  by (induction es arbitrary: i acc) (fastforce split: if_splits)+

lemma dup_health_Some: "container_dup_health_check_status al h = Some h' \<Longrightarrow> h' = h"
  by (auto simp: container_dup_health_check_status_def Let_def split: option.splits if_splits
      dest!: dup_health_log_Some)

lemma dup_health_ok:
  "\<forall>j. al j \<Longrightarrow> (\<forall>x. h = Some x \<longrightarrow> 8 * length (health_log x) \<le> MAX_MEMORY_SIZE) \<Longrightarrow>
   container_dup_health_check_status al h = Some h"
  by (auto simp: container_dup_health_check_status_def Let_def dup_health_log_ok util_common_calloc_s_def
      SIZE_MAX_def MAX_MEMORY_SIZE_def split: option.splits)

text \<open>A copy made by \<open>container_dup_state\<close>, whenever it is made, has the status of the original
  and agrees with it on every field but the process start times, the parent pid and the
  manual-stop flag, which the copy leaves at zero; with memory available the copy is made.\<close>

theorem container_dup_state_copies:
  assumes "started_at s \<noteq> None" "finished_at s \<noteq> None"
  shows "(\<forall>d. container_dup_state al (Some s) = Some d \<longrightarrow>
            d = s\<lparr>start_time := 0, p_pid := 0, p_start_time := 0, has_been_manually_stopped := False\<rparr> \<and>
            container_state_judge_status (Some d) = container_state_judge_status (Some s)) \<and>
         ((\<forall>i. al i) \<and> (\<forall>h. health s = Some h \<longrightarrow> 8 * length (health_log h) \<le> MAX_MEMORY_SIZE) \<longrightarrow>
            container_dup_state al (Some s) \<noteq> None)"
proof (intro conjI allI impI; (elim conjE)?)
  fix d assume d: "container_dup_state al (Some s) = Some d"
  then show "d = s\<lparr>start_time := 0, p_pid := 0, p_start_time := 0, has_been_manually_stopped := False\<rparr>"
    using assms by (auto simp: container_dup_state_def or_default_time_def zero_state_def Let_def
        split: if_splits option.splits dest!: dup_health_Some intro!: container_state.equality)
  then show "container_state_judge_status (Some d) = container_state_judge_status (Some s)"
    by (simp add: container_state_judge_status_def)
next
  assume "\<forall>i. al i" "\<forall>h. health s = Some h \<longrightarrow> 8 * length (health_log h) \<le> MAX_MEMORY_SIZE"
  then show "container_dup_state al (Some s) \<noteq> None"
    by (simp add: container_dup_state_def dup_health_ok Let_def)
qed

theorem container_dup_state_copies_witness:
  "\<exists>d. container_dup_state all_ok (Some ex_running) = Some d \<and> pid d = 42 \<and> start_time d = 0 \<and>
       container_state_judge_status (Some d) = CONTAINER_STATUS_RUNNING"
proof -
  have "container_dup_state all_ok (Some ex_running) \<noteq> None"
    using container_dup_state_copies [of ex_running all_ok] by (simp add: ex_state_defs)
  then obtain d where d: "container_dup_state all_ok (Some ex_running) = Some d" by blast
  have eq: "d = ex_running\<lparr>start_time := 0, p_pid := 0, p_start_time := 0, has_been_manually_stopped := False\<rparr>"
    using container_dup_state_copies [of ex_running all_ok] d by (simp add: ex_state_defs)
  show ?thesis
    by (rule exI [of _ d], simp add: d, simp add: eq ex_state_defs container_state_judge_status_def)
qed



end
