(* ===== verification/Atomic.thy ===== *)
theory Atomic
  imports Prelude
begin

section \<open>Reference counters\<close>

text \<open>
  src/src/utils/cutils/util_atomic.h: 64 bit counters behind one mutex, so each operation is one
  step on the counter.  A counter that is decremented to zero tells its owner to free the object.
\<close>

type_synonym refcnt = "64 word"

definition atomic_int_get :: "refcnt \<Rightarrow> refcnt" where
  "atomic_int_get v = v"

definition atomic_int_set :: "refcnt \<Rightarrow> refcnt \<Rightarrow> refcnt" where
  "atomic_int_set old v = v"

definition atomic_int_inc :: "refcnt \<Rightarrow> refcnt" where
  "atomic_int_inc v = v + 1"

definition atomic_int_dec_test :: "refcnt \<Rightarrow> bool \<times> refcnt" where
  "atomic_int_dec_test v = (v - 1 = 0, v - 1)"

definition atomic_int_compare_exchange :: "refcnt \<Rightarrow> refcnt \<Rightarrow> refcnt \<Rightarrow> bool \<times> refcnt" where
  "atomic_int_compare_exchange v oldval newval = (if v = oldval then (True, newval) else (False, v))"

text \<open>A counted object is its counter and its payload; None is a freed object.\<close>

definition ref_take :: "(refcnt \<times> 'a) option \<Rightarrow> (refcnt \<times> 'a) option" where
  "ref_take ob = (case ob of None \<Rightarrow> None | Some (c, x) \<Rightarrow> Some (atomic_int_inc c, x))"

definition ref_drop :: "(refcnt \<times> 'a) option \<Rightarrow> (refcnt \<times> 'a) option" where
  "ref_drop ob =
     (case ob of
        None \<Rightarrow> None
      | Some (c, x) \<Rightarrow> (case atomic_int_dec_test c of (z, c') \<Rightarrow> if z then None else Some (c', x)))"

lemma ref_drop_Some: "ref_drop (Some (c, x)) = (if c = 1 then None else Some (c - 1, x))"
  by (simp add: ref_drop_def atomic_int_dec_test_def)

lemma ref_take_Some [simp]: "ref_take (Some (c, x)) = Some (c + 1, x)"
  by (simp add: ref_take_def atomic_int_inc_def)

lemma ref_drop_take: "c \<noteq> 0 \<Longrightarrow> ref_drop (ref_take (Some (c, x))) = Some (c, x)"
  by (simp add: ref_drop_Some)

end
