(* ===== verification/Restart_Manager.thy ===== *)
theory Restart_Manager
  imports Container_State Atomic
begin

section \<open>The restart manager\<close>

text \<open>
  src/src/daemon/modules/container/restart_manager/restartmanager.c: whether an exited container is
  started again, after how long, and the cancellation of a pending restart.  The mutex makes each
  operation one step.  The timeout is a number of nanoseconds.
\<close>

definition Time_Milli :: int where "Time_Milli = 1000000"

definition Time_Second :: int where "Time_Second = 1000 * Time_Milli"

definition Time_Minute :: int where "Time_Minute = 60 * Time_Second"

definition backoffMultipulier :: int where "backoffMultipulier = 2"

definition defaultTimeout :: int where "defaultTimeout = 100 * Time_Milli"

definition maxRestartTimeout :: int where "maxRestartTimeout = Time_Minute"

lemmas time_defs = Time_Milli_def Time_Second_def Time_Minute_def backoffMultipulier_def
  defaultTimeout_def maxRestartTimeout_def

record restart_policy =
  policy_name :: "string option"
  maximum_retry_count :: int

record restart_manager_t =
  policy :: restart_policy
  failure_count :: int
  timeout :: int
  canceled :: bool

text \<open>\<open>restart_manager_new\<close>: the two allocations and the two initialisations may fail; the counter of
  the new manager is 1.\<close>

definition restart_manager_new ::
    "alloc \<Rightarrow> int \<Rightarrow> int \<Rightarrow> restart_policy option \<Rightarrow> int \<Rightarrow> (refcnt \<times> restart_manager_t) option" where
  "restart_manager_new al mutex_init cond_init pol failures =
     (if \<not> al 0 then None
      else if mutex_init \<noteq> 0 then None
      else if cond_init \<noteq> 0 then None
      else if \<not> al 1 then None
      else Some (atomic_int_set 0 1,
        \<lparr> policy = (case pol of
                     Some p \<Rightarrow> \<lparr> policy_name = policy_name p, maximum_retry_count = maximum_retry_count p \<rparr>
                   | None \<Rightarrow> \<lparr> policy_name = None, maximum_retry_count = 0 \<rparr>),
          failure_count = failures, timeout = 0, canceled = False \<rparr>))"

definition restart_manager_refinc ::
    "(refcnt \<times> restart_manager_t) option \<Rightarrow> (refcnt \<times> restart_manager_t) option" where
  "restart_manager_refinc rm = ref_take rm"

definition restart_manager_unref ::
    "(refcnt \<times> restart_manager_t) option \<Rightarrow> (refcnt \<times> restart_manager_t) option" where
  "restart_manager_unref rm = ref_drop rm"

definition restart_manager_set_policy ::
    "bool \<Rightarrow> restart_manager_t option \<Rightarrow> restart_policy option \<Rightarrow> int \<times> restart_manager_t option" where
  "restart_manager_set_policy calloc rm pol =
     (case (rm, pol) of
        (Some r, Some p) \<Rightarrow>
          if \<not> calloc then (-1, rm)
          else (0, Some (r\<lparr>policy := \<lparr> policy_name = policy_name p, maximum_retry_count = maximum_retry_count p \<rparr>\<rparr>))
      | _ \<Rightarrow> (-1, rm))"

definition restart_manager_set_items :: "restart_manager_t \<Rightarrow> int \<Rightarrow> int \<Rightarrow> restart_manager_t" where
  "restart_manager_set_items rm ec exec_duration =
     (let rm = (if ec \<noteq> 0 then rm\<lparr>failure_count := failure_count rm + 1\<rparr> else rm\<lparr>failure_count := 0\<rparr>);
          rm = (if exec_duration \<ge> 10 then rm\<lparr>timeout := 0\<rparr> else rm);
          rm = (if timeout rm = 0 then rm\<lparr>timeout := defaultTimeout\<rparr>
                else if timeout rm < maxRestartTimeout then rm\<lparr>timeout := timeout rm * backoffMultipulier\<rparr>
                else rm)
      in if timeout rm > maxRestartTimeout then rm\<lparr>timeout := maxRestartTimeout\<rparr> else rm)"

definition should_be_restart :: "restart_manager_t \<Rightarrow> string \<Rightarrow> int \<Rightarrow> bool \<Rightarrow> bool" where
  "should_be_restart rm name ec manually_stopped =
     (if name = ''always'' then True
      else if name = ''unless-stopped'' \<and> \<not> manually_stopped then True
      else if name = ''on-failure'' then
        (if maximum_retry_count (policy rm) = 0 \<or> failure_count rm \<le> maximum_retry_count (policy rm)
         then ec \<noteq> 0 else False)
      else if name = ''on-reboot'' then ec = 129
      else False)"

text \<open>The part of \<open>restart_manager_should_restart\<close> under the manager's lock: the decision, the
  timeout it stores (None: \<open>*timeout\<close> is not written), and the manager.\<close>

definition rm_should_restart ::
    "restart_manager_t \<Rightarrow> int \<Rightarrow> bool \<Rightarrow> int \<Rightarrow> bool \<times> int option \<times> restart_manager_t" where
  "rm_should_restart rm ec manually_stopped exec_duration =
     (case policy_name (policy rm) of
        None \<Rightarrow> (False, None, rm)
      | Some name \<Rightarrow>
          if canceled rm then (False, None, rm)
          else let rm = restart_manager_set_items rm ec exec_duration;
                   restart = should_be_restart rm name ec manually_stopped
               in (restart, if restart then Some (timeout rm) else None, rm))"

definition restart_manager_cancel :: "restart_manager_t option \<Rightarrow> int \<times> restart_manager_t option" where
  "restart_manager_cancel rm =
     (case rm of None \<Rightarrow> (-1, None) | Some r \<Rightarrow> (0, Some (r\<lparr>canceled := True\<rparr>)))"

text \<open>
  The deadline that \<open>restart_manager_wait_cancel_cond_wait\<close> computes from the clock
  \<open>(tv_sec, tv_nsec)\<close>, and the wait on it: \<open>timedwait\<close> is the result of
  \<open>pthread_cond_timedwait\<close> for a deadline (0 when it is woken, ETIMEDOUT when the deadline passes).
\<close>

definition wait_cancel_deadline :: "int \<times> int \<Rightarrow> int \<Rightarrow> int \<times> int" where
  "wait_cancel_deadline ts tmo =
     (let sec = tmo div Time_Second;
          nsec = tmo - sec * Time_Second;
          nsec = nsec + snd ts
      in (fst ts + (sec + nsec div Time_Second), nsec mod Time_Second))"

definition restart_manager_wait_cancel_cond_wait ::
    "(int \<times> int) option \<Rightarrow> (int \<times> int \<Rightarrow> int) \<Rightarrow> int \<Rightarrow> int" where
  "restart_manager_wait_cancel_cond_wait clock timedwait tmo =
     (case clock of None \<Rightarrow> -1 | Some ts \<Rightarrow> timedwait (wait_cancel_deadline ts tmo))"

definition restart_manager_wait_cancel ::
    "(int \<times> int) option \<Rightarrow> (int \<times> int \<Rightarrow> int) \<Rightarrow> restart_manager_t option \<Rightarrow> int \<Rightarrow> int" where
  "restart_manager_wait_cancel clock timedwait rm tmo =
     (case rm of
        None \<Rightarrow> -1
      | Some r \<Rightarrow> if canceled r then 0 else restart_manager_wait_cancel_cond_wait clock timedwait tmo)"

text \<open>
  The thread \<open>container_restart\<close>, on the container it finds in the store (None: it is gone).  The
  arguments are what it asks for on the way: whether the garbage collector holds the container, its
  manager, the wait, and \<open>start_container\<close>, which changes the state.  The result is the state the
  thread leaves and whether it broadcasts the stop.
\<close>

definition container_restart ::
    "int \<Rightarrow> container_state option \<Rightarrow> bool \<Rightarrow> restart_manager_t option \<Rightarrow> (restart_manager_t \<Rightarrow> int) \<Rightarrow>
     (container_state \<Rightarrow> int \<times> container_state) \<Rightarrow> string \<Rightarrow> int \<Rightarrow> container_state option \<times> bool" where
  "container_restart detach cont in_gc rm wait_cancel start_container now ec =
     (if detach \<noteq> 0 then (cont, False)
      else case cont of
        None \<Rightarrow> (None, False)
      | Some st \<Rightarrow>
          if in_gc then (container_state_set_stopped now (Some st) ec, True)
          else case rm of
            None \<Rightarrow> (container_state_set_stopped now (Some st) ec, True)
          | Some r \<Rightarrow>
              if wait_cancel r = 0 then (container_state_set_stopped now (Some st) ec, True)
              else case start_container st of
                (ret, st') \<Rightarrow>
                  if ret \<noteq> 0 \<and> container_is_restarting (Some st')
                  then (container_state_set_stopped now (Some st') ec, True)
                  else (Some st', False))"

subsection \<open>Sequences of exits\<close>

text \<open>An exit is an exit code, the manual-stop flag and the number of seconds the container ran.\<close>

type_synonym exit_event = "int \<times> bool \<times> int"

fun rm_run :: "restart_manager_t \<Rightarrow> exit_event list \<Rightarrow> (bool \<times> int option) list \<times> restart_manager_t" where
  "rm_run rm [] = ([], rm)"
| "rm_run rm ((ec, ms, dur) # es) =
     (case rm_should_restart rm ec ms dur of
        (r, t, rm') \<Rightarrow> (case rm_run rm' es of (ds, rm'') \<Rightarrow> ((r, t) # ds, rm'')))"

lemma set_items_keeps [simp]:
  "policy (restart_manager_set_items rm ec d) = policy rm"
  "canceled (restart_manager_set_items rm ec d) = canceled rm"
  by (auto simp: restart_manager_set_items_def Let_def)

lemma set_items_failures:
  "failure_count (restart_manager_set_items rm ec d) = (if ec = 0 then 0 else failure_count rm + 1)"
  by (auto simp: restart_manager_set_items_def Let_def)

lemma set_items_timeout:
  "timeout (restart_manager_set_items rm ec d) =
     (if d \<ge> 10 \<or> timeout rm = 0 then defaultTimeout
      else if timeout rm < maxRestartTimeout then min (timeout rm * 2) maxRestartTimeout
      else maxRestartTimeout)"
  by (auto simp: restart_manager_set_items_def Let_def time_defs min_def)

definition backoff_ok :: "int \<Rightarrow> bool" where
  "backoff_ok t \<longleftrightarrow> defaultTimeout \<le> t \<and> t \<le> maxRestartTimeout"

lemma set_items_backoff:
  "timeout rm = 0 \<or> backoff_ok (timeout rm) \<Longrightarrow> backoff_ok (timeout (restart_manager_set_items rm ec d))"
  by (auto simp: set_items_timeout backoff_ok_def time_defs)

lemma rm_should_restart_active:
  "policy_name (policy rm) = Some p \<Longrightarrow> \<not> canceled rm \<Longrightarrow>
   rm_should_restart rm ec ms d =
     (let rm' = restart_manager_set_items rm ec d; r = should_be_restart rm' p ec ms
      in (r, if r then Some (timeout rm') else None, rm'))"
  by (simp add: rm_should_restart_def)

lemma rm_run_Cons_active:
  "policy_name (policy rm) = Some p \<Longrightarrow> \<not> canceled rm \<Longrightarrow>
   rm_run rm ((ec, ms, d) # es) =
     (let rm' = restart_manager_set_items rm ec d; r = should_be_restart rm' p ec ms
      in ((r, if r then Some (timeout rm') else None) # fst (rm_run rm' es), snd (rm_run rm' es)))"
  by (simp add: rm_should_restart_active Let_def split: prod.split)

lemma rm_run_backoff:
  "policy_name (policy rm) = Some p \<Longrightarrow> \<not> canceled rm \<Longrightarrow> timeout rm = 0 \<or> backoff_ok (timeout rm) \<Longrightarrow>
   \<forall>(r, t) \<in> set (fst (rm_run rm es)). \<forall>d. t = Some d \<longrightarrow> backoff_ok d"
proof (induction es arbitrary: rm)
  case (Cons e es)
  obtain ec ms d where e: "e = (ec, ms, d)" by (cases e)
  let ?rm = "restart_manager_set_items rm ec d"
  have b: "backoff_ok (timeout ?rm)" by (rule set_items_backoff [OF Cons.prems(3)])
  from Cons.IH [of ?rm] Cons.prems(1,2) b have
    "\<forall>(r, t) \<in> set (fst (rm_run ?rm es)). \<forall>d. t = Some d \<longrightarrow> backoff_ok d" by simp
  with b show ?case unfolding e rm_run_Cons_active [OF Cons.prems(1,2)] by (auto simp: Let_def split: if_splits)
qed simp

lemma rm_run_quick:
  "policy_name (policy rm) = Some p \<Longrightarrow> \<not> canceled rm \<Longrightarrow> \<forall>(ec, ms, d) \<in> set es. d < 10 \<Longrightarrow>
   timeout rm = min (defaultTimeout * 2 ^ k) maxRestartTimeout \<Longrightarrow>
   timeout (snd (rm_run rm es)) = min (defaultTimeout * 2 ^ (k + length es)) maxRestartTimeout"
proof (induction es arbitrary: rm k)
  case (Cons e es)
  obtain ec ms d where e: "e = (ec, ms, d)" by (cases e)
  let ?rm = "restart_manager_set_items rm ec d"
  have d: "d < 10" using Cons.prems(3) e by auto
  have "timeout rm \<noteq> 0" using Cons.prems(4) by (auto simp: time_defs min_def)
  then have "timeout ?rm = min (defaultTimeout * 2 ^ Suc k) maxRestartTimeout"
    using d Cons.prems(4) by (auto simp: set_items_timeout min_def time_defs)
  from Cons.IH [of ?rm "Suc k", OF _ _ _ this] Cons.prems(1,2,3) show ?case
    unfolding e rm_run_Cons_active [OF Cons.prems(1,2)] by (simp add: Let_def)
qed simp

text \<open>C5. The delay before a restart doubles from 100 milliseconds with each exit of a container that
  ran less than 10 seconds, up to one minute and no further: after n + 1 such exits of a new manager it
  is the smaller of 100 ms times \<open>2 ^ n\<close> and one minute.  Whatever the exits, every delay handed out is
  between these bounds.\<close>

theorem restart_backoff:
  assumes "policy_name (policy rm) = Some p" "\<not> canceled rm" "timeout rm = 0"
  shows "(\<forall>(r, t) \<in> set (fst (rm_run rm es)). \<forall>d. t = Some d \<longrightarrow> defaultTimeout \<le> d \<and> d \<le> maxRestartTimeout) \<and>
    (es \<noteq> [] \<and> (\<forall>(ec, ms, d) \<in> set es. d < 10) \<longrightarrow>
       timeout (snd (rm_run rm es)) = min (defaultTimeout * 2 ^ (length es - 1)) maxRestartTimeout)"
proof
  show "\<forall>(r, t) \<in> set (fst (rm_run rm es)). \<forall>d. t = Some d \<longrightarrow> defaultTimeout \<le> d \<and> d \<le> maxRestartTimeout"
    using rm_run_backoff [OF assms(1,2)] assms(3) by (simp add: backoff_ok_def)
  show "es \<noteq> [] \<and> (\<forall>(ec, ms, d) \<in> set es. d < 10) \<longrightarrow>
    timeout (snd (rm_run rm es)) = min (defaultTimeout * 2 ^ (length es - 1)) maxRestartTimeout"
  proof (intro impI; elim conjE)
    assume es: "es \<noteq> []" "\<forall>(ec, ms, d) \<in> set es. d < 10"
    then obtain ec ms d es' where e: "es = (ec, ms, d) # es'" by (cases es) auto
    let ?rm = "restart_manager_set_items rm ec d"
    have "timeout ?rm = min (defaultTimeout * 2 ^ 0) maxRestartTimeout"
      using assms(3) by (simp add: set_items_timeout time_defs)
    from rm_run_quick [of ?rm p es' 0, OF _ _ _ this] es(2) assms(1,2)
    show "timeout (snd (rm_run rm es)) = min (defaultTimeout * 2 ^ (length es - 1)) maxRestartTimeout"
      unfolding e rm_run_Cons_active [OF assms(1,2)] by (simp add: Let_def)
  qed
qed

definition ex_rm :: "string \<Rightarrow> int \<Rightarrow> restart_manager_t" where
  "ex_rm p n = \<lparr> policy = \<lparr> policy_name = Some p, maximum_retry_count = n \<rparr>, failure_count = 0, timeout = 0, canceled = False \<rparr>"

theorem restart_backoff_witness:
  "timeout (snd (rm_run (ex_rm ''always'' 0) (replicate 3 (1, False, 2)))) = 4 * defaultTimeout \<and>
   timeout (snd (rm_run (ex_rm ''always'' 0) (replicate 12 (1, False, 2)))) = maxRestartTimeout"
  using restart_backoff [of "ex_rm ''always'' 0" "''always''" "replicate 3 (1, False, 2)"]
    restart_backoff [of "ex_rm ''always'' 0" "''always''" "replicate 12 (1, False, 2)"]
  by (simp add: ex_rm_def time_defs)

lemma on_failure_run:
  "policy rm = \<lparr> policy_name = Some ''on-failure'', maximum_retry_count = N \<rparr> \<Longrightarrow> \<not> canceled rm \<Longrightarrow>
   \<forall>(ec, ms, d) \<in> set es. ec \<noteq> 0 \<Longrightarrow>
   map fst (fst (rm_run rm es)) = map (\<lambda>i. N = 0 \<or> failure_count rm + 1 + int i \<le> N) [0..<length es]"
proof (induction es arbitrary: rm)
  case (Cons e es)
  obtain ec ms d where e: "e = (ec, ms, d)" by (cases e)
  let ?rm = "restart_manager_set_items rm ec d"
  have p: "policy_name (policy rm) = Some ''on-failure''" using Cons.prems(1) by simp
  have ec: "ec \<noteq> 0" using Cons.prems(3) e by auto
  have "map fst (fst (rm_run ?rm es)) = map (\<lambda>i. N = 0 \<or> failure_count ?rm + 1 + int i \<le> N) [0..<length es]"
    using Cons.prems by (intro Cons.IH) auto
  moreover have "should_be_restart ?rm ''on-failure'' ec ms \<longleftrightarrow> N = 0 \<or> failure_count rm + 1 \<le> N"
    using ec Cons.prems(1) by (simp add: should_be_restart_def set_items_failures)
  ultimately show ?case
    unfolding e rm_run_Cons_active [OF p Cons.prems(2)] using ec
    by (simp add: Let_def set_items_failures upt_conv_Cons map_Suc_upt [symmetric] algebra_simps del: upt_Suc)
qed simp



lemma rm_run_canceled: "canceled rm \<Longrightarrow> rm_run rm es = (replicate (length es) (False, None), rm)"
proof (induction es)
  case (Cons e es)
  obtain ec ms d where e: "e = (ec, ms, d)" by (cases e)
  from Cons show ?case by (simp add: e rm_should_restart_def split: option.split)
qed simp

text \<open>C27. Cancelling is final: after \<open>restart_manager_cancel\<close> no exit leads to a restart, no delay is
  handed out, the counters no longer change, and a wait for the cancellation returns 0 at once.\<close>

theorem restart_cancel_final:
  assumes "restart_manager_cancel (Some rm) = (ret, Some rm')"
  shows "ret = 0 \<and> rm_run rm' es = (replicate (length es) (False, None), rm') \<and>
    restart_manager_wait_cancel clock timedwait (Some rm') tmo = 0"
  using assms by (auto simp: restart_manager_cancel_def restart_manager_wait_cancel_def rm_run_canceled)

theorem restart_cancel_final_witness:
  "fst (rm_run ((ex_rm ''always'' 0)\<lparr>canceled := True\<rparr>) [(1, False, 2)]) = [(False, None)]"
  using restart_cancel_final [of "ex_rm ''always'' 0" 0 "(ex_rm ''always'' 0)\<lparr>canceled := True\<rparr>" "[(1, False, 2)]"]
  by (simp add: restart_manager_cancel_def)

text \<open>The deadline of the wait is the clock plus the timeout, to the nanosecond, and is
  normalised: its nanoseconds are below one second, as the wait requires.\<close>

theorem wait_cancel_deadline_exact:
  "wait_cancel_deadline (s, ns) tmo = (s', ns') \<Longrightarrow>
   s' * Time_Second + ns' = s * Time_Second + ns + tmo \<and> 0 \<le> ns' \<and> ns' < Time_Second"
proof -
  assume d: "wait_cancel_deadline (s, ns) tmo = (s', ns')"
  define n where "n = tmo - tmo div Time_Second * Time_Second + ns"
  have T: "0 < Time_Second" by (simp add: time_defs)
  from d have s: "s' = s + (tmo div Time_Second + n div Time_Second)" "ns' = n mod Time_Second"
    by (simp_all add: wait_cancel_deadline_def Let_def n_def)
  have "n div Time_Second * Time_Second + ns' = n" unfolding s(2) by (rule div_mult_mod_eq)
  then have "s' * Time_Second + ns' = s * Time_Second + tmo div Time_Second * Time_Second + n"
    unfolding s(1) distrib_right by linarith
  also have "\<dots> = s * Time_Second + ns + tmo" by (simp add: n_def)
  finally show ?thesis using T by (simp add: s(2))
qed

theorem wait_cancel_deadline_exact_witness: "wait_cancel_deadline (7, 950000000) 100000000 = (8, 50000000)"
proof -
  obtain s ns where d: "wait_cancel_deadline (7, 950000000) 100000000 = (s, ns)" by fastforce
  from wait_cancel_deadline_exact [OF d] have "s * 1000000000 + ns = 8050000000" "0 \<le> ns" "ns < 1000000000"
    by (simp_all add: time_defs)
  then have "s < 9" "7 < s" by linarith+
  then have "s = 8" by linarith
  with d \<open>s * 1000000000 + ns = 8050000000\<close> show ?thesis by simp
qed

text \<open>C28. A restart that does not happen leaves no container behind in the restarting state: when the
  garbage collector has it, there is no manager, the restart is cancelled, or the start fails, the
  thread ends with the container not restarting.\<close>

theorem container_restart_settles:
  assumes "in_gc \<or> rm = None \<or> (\<exists>r. rm = Some r \<and> (wait_cancel r = 0 \<or> fst (start_container st) \<noteq> 0))"
  shows "\<exists>st' b. container_restart 0 (Some st) in_gc rm wait_cancel start_container now ec = (Some st', b) \<and>
    \<not> restarting st'"
  using assms
  by (auto simp: container_restart_def container_state_set_stopped_def container_is_restarting_def
      split: option.split prod.split)

theorem container_restart_settles_witness:
  "\<exists>st' b. container_restart 0 (Some ex_restarting) False (Some (ex_rm ''always'' 0)) (\<lambda>r. 110)
       (\<lambda>st. (-1, st)) ''now'' 137 = (Some st', b) \<and> \<not> restarting st'"
  using container_restart_settles [of False "Some (ex_rm ''always'' 0)" "\<lambda>r. 110" "\<lambda>st. (-1, st)" ex_restarting "''now''" 137]
  by simp

end
