(* ===== verification/Containers_Store.thy ===== *)
theory Containers_Store
  imports Map_Store Atomic Strings
begin

section \<open>The store of containers and the index of their names\<close>

text \<open>
  src/src/daemon/modules/container/containers_store.c with the reference counting of
  src/src/daemon/modules/container/container_unix.c.  Containers live at addresses; \<open>objs\<close> gives the
  counter and the content of the live ones, \<open>ids\<close> is the map \<open>g_containers_store\<close> from ids to
  addresses, \<open>names\<close> the map \<open>g_indexs\<close> from names to ids.  The read-write locks make each
  operation one step; an operation takes the outcome of its i-th lock call as \<open>lk i\<close> and of its
  unlock as \<open>ul\<close>, where the code reacts to them.
\<close>

record 'c cstore =
  objs :: "nat \<Rightarrow> (refcnt \<times> 'c) option"
  ids :: "nat smap"
  names :: "string smap"

subsection \<open>Counting references\<close>

definition container_refinc :: "nat option \<Rightarrow> 'c cstore \<Rightarrow> 'c cstore" where
  "container_refinc cont s =
     (case cont of None \<Rightarrow> s | Some a \<Rightarrow> s\<lparr>objs := (objs s)(a := ref_take (objs s a))\<rparr>)"

definition container_unref :: "nat option \<Rightarrow> 'c cstore \<Rightarrow> 'c cstore" where
  "container_unref cont s =
     (case cont of None \<Rightarrow> s | Some a \<Rightarrow> s\<lparr>objs := (objs s)(a := ref_drop (objs s a))\<rparr>)"

text \<open>\<open>memory_store_map_kvfree\<close>, called on the value an entry loses.\<close>

definition memory_store_map_kvfree :: "nat \<Rightarrow> 'c cstore \<Rightarrow> 'c cstore" where
  "memory_store_map_kvfree value s = container_unref (Some value) s"

subsection \<open>The store\<close>

definition memory_store_new :: "alloc \<Rightarrow> int \<Rightarrow> nat smap option" where
  "memory_store_new al rwlock_init =
     (if \<not> al 0 then None else if rwlock_init \<noteq> 0 then None else if \<not> al 1 then None else Some [])"

definition containers_store_init :: "alloc \<Rightarrow> int \<Rightarrow> 'c cstore \<Rightarrow> int \<times> 'c cstore" where
  "containers_store_init al rwlock_init s =
     (case memory_store_new al rwlock_init of None \<Rightarrow> (-1, s) | Some m \<Rightarrow> (0, s\<lparr>ids := m\<rparr>))"

definition containers_store_add :: "bool \<Rightarrow> bool \<Rightarrow> bool \<Rightarrow> string \<Rightarrow> nat \<Rightarrow> 'c cstore \<Rightarrow> bool \<times> 'c cstore" where
  "containers_store_add lk ul calloc cid cont s =
     (if \<not> lk then (False, s)
      else let (ret, m) = smap_replace calloc cid cont (ids s);
               s' = (case smap_find cid (ids s) of None \<Rightarrow> s | Some old \<Rightarrow> memory_store_map_kvfree old s)
           in (ul \<and> ret, s'\<lparr>ids := m\<rparr>))"

definition containers_store_get_by_id :: "bool \<Rightarrow> string option \<Rightarrow> 'c cstore \<Rightarrow> nat option \<times> 'c cstore" where
  "containers_store_get_by_id lk cid s =
     (case cid of
        None \<Rightarrow> (None, s)
      | Some i \<Rightarrow>
          if \<not> lk then (None, s)
          else let cont = smap_find i (ids s) in (cont, container_refinc cont s))"

definition container_name_index_get :: "bool \<Rightarrow> string option \<Rightarrow> 'c cstore \<Rightarrow> string option" where
  "container_name_index_get lk name s =
     (case name of None \<Rightarrow> None | Some n \<Rightarrow> if \<not> lk then None else smap_find n (names s))"

definition containers_store_get_by_name ::
    "bool \<Rightarrow> bool \<Rightarrow> string option \<Rightarrow> 'c cstore \<Rightarrow> nat option \<times> 'c cstore" where
  "containers_store_get_by_name lk0 lk1 name s =
     (case name of
        None \<Rightarrow> (None, s)
      | Some n \<Rightarrow>
          (case container_name_index_get lk0 (Some n) s of
             None \<Rightarrow> (None, s)
           | Some cid \<Rightarrow> containers_store_get_by_id lk1 (Some cid) s))"

text \<open>The loop over the entries: None is the exit on a second match.\<close>

fun prefix_loop :: "string \<Rightarrow> nat smap \<Rightarrow> nat option \<Rightarrow> nat option option" where
  "prefix_loop p [] cont = Some cont"
| "prefix_loop p ((container_id, value) # r) cont =
     (if prefix p container_id then (if cont \<noteq> None then None else prefix_loop p r (Some value))
      else prefix_loop p r cont)"

definition containers_store_get_by_prefix ::
    "bool \<Rightarrow> bool \<Rightarrow> string option \<Rightarrow> 'c cstore \<Rightarrow> nat option \<times> 'c cstore" where
  "containers_store_get_by_prefix lk calloc pre s =
     (case pre of
        None \<Rightarrow> (None, s)
      | Some p \<Rightarrow>
          if \<not> lk then (None, s)
          else if \<not> calloc then (None, s)
          else case prefix_loop p (ids s) None of
                 None \<Rightarrow> (None, s)
               | Some cont \<Rightarrow> (cont, container_refinc cont s))"

definition containers_store_get ::
    "alloc \<Rightarrow> bool \<Rightarrow> string option \<Rightarrow> 'c cstore \<Rightarrow> nat option \<times> 'c cstore" where
  "containers_store_get lk calloc id_or_name s =
     (if id_or_name = None then (None, s)
      else case containers_store_get_by_id (lk 0) id_or_name s of
        (Some c, s1) \<Rightarrow> (Some c, s1)
      | (None, s1) \<Rightarrow>
          (case containers_store_get_by_name (lk 1) (lk 2) id_or_name s1 of
             (Some c, s2) \<Rightarrow> (Some c, s2)
           | (None, s2) \<Rightarrow>
               (case containers_store_get_by_prefix (lk 3) calloc id_or_name s2 of
                  (Some c, s3) \<Rightarrow> (Some c, s3)
                | (None, s3) \<Rightarrow> (None, s3))))"

text \<open>\<open>containers_store_list\<close>: the return value, the array and the store.\<close>

definition containers_store_list :: "bool \<Rightarrow> alloc \<Rightarrow> 'c cstore \<Rightarrow> int \<times> nat list \<times> 'c cstore" where
  "containers_store_list lk al s =
     (if \<not> lk then (-1, [], s)
      else let n = length (ids s)
           in if n = 0 then (0, [], s)
              else if n > SIZE_MAX div 8 then (-1, [], s)
              else if \<not> util_common_calloc_s (al 0) (8 * n) then (-1, [], s)
              else if \<not> al 1 then (-1, [], s)
              else let conts = map snd (ids s)
                   in (0, conts, foldl (\<lambda>s a. container_refinc (Some a) s) s conts))"

fun append_ids :: "alloc \<Rightarrow> nat \<Rightarrow> string list \<Rightarrow> str_array option \<Rightarrow> str_array option option" where
  "append_ids al i [] arr = Some arr"
| "append_ids al i (cid # r) arr =
     (case util_array_append (al i) arr (Some cid) of
        (ret, a) \<Rightarrow> if ret \<noteq> 0 then None else append_ids al (Suc i) r a)"

definition containers_store_list_ids :: "bool \<Rightarrow> alloc \<Rightarrow> 'c cstore \<Rightarrow> str_array option" where
  "containers_store_list_ids lk al s =
     (if \<not> lk then None
      else if length (ids s) = 0 then None
      else if \<not> al 0 then None
      else case append_ids al 1 (map fst (ids s)) None of None \<Rightarrow> None | Some a \<Rightarrow> a)"

definition containers_store_remove :: "bool \<Rightarrow> bool \<Rightarrow> string \<Rightarrow> 'c cstore \<Rightarrow> bool \<times> 'c cstore" where
  "containers_store_remove lk ul cid s =
     (if \<not> lk then (False, s)
      else let (ret, m) = smap_remove cid (ids s);
               s' = (case smap_find cid (ids s) of None \<Rightarrow> s | Some old \<Rightarrow> memory_store_map_kvfree old s)
           in (ul \<and> ret, s'\<lparr>ids := m\<rparr>))"

subsection \<open>The index of names\<close>

definition name_index_new :: "alloc \<Rightarrow> int \<Rightarrow> string smap option" where
  "name_index_new al rwlock_init =
     (if \<not> al 0 then None else if rwlock_init \<noteq> 0 then None else if \<not> al 1 then None else Some [])"

definition container_name_index_init :: "alloc \<Rightarrow> int \<Rightarrow> 'c cstore \<Rightarrow> int \<times> 'c cstore" where
  "container_name_index_init al rwlock_init s =
     (case name_index_new al rwlock_init of None \<Rightarrow> (-1, s) | Some m \<Rightarrow> (0, s\<lparr>names := m\<rparr>))"

definition container_name_index_add ::
    "bool \<Rightarrow> bool \<Rightarrow> bool \<Rightarrow> string \<Rightarrow> string \<Rightarrow> 'c cstore \<Rightarrow> bool \<times> 'c cstore" where
  "container_name_index_add lk ul calloc name cid s =
     (if \<not> lk then (False, s)
      else let (ret, m) = smap_insert calloc name cid (names s) in (ul \<and> ret, s\<lparr>names := m\<rparr>))"

definition container_name_index_rename ::
    "bool \<Rightarrow> bool \<Rightarrow> bool \<Rightarrow> string \<Rightarrow> string \<Rightarrow> string \<Rightarrow> 'c cstore \<Rightarrow> bool \<times> 'c cstore" where
  "container_name_index_rename lk ul calloc new_name old_name cid s =
     (if \<not> lk then (False, s)
      else let (ret, m) = smap_insert calloc new_name cid (names s)
           in if \<not> ret then (False, s\<lparr>names := m\<rparr>)
              else let (ret, m) = smap_remove old_name m in (ul \<and> ret, s\<lparr>names := m\<rparr>))"

definition container_name_index_remove :: "bool \<Rightarrow> bool \<Rightarrow> string \<Rightarrow> 'c cstore \<Rightarrow> bool \<times> 'c cstore" where
  "container_name_index_remove lk ul name s =
     (if \<not> lk then (False, s)
      else let (ret, m) = smap_remove name (names s) in (ul \<and> ret, s\<lparr>names := m\<rparr>))"

fun invert_names :: "alloc \<Rightarrow> nat \<Rightarrow> string smap \<Rightarrow> string smap \<Rightarrow> string smap option" where
  "invert_names al i [] m = Some m"
| "invert_names al i ((name, cid) # r) m =
     (case smap_insert (al i) cid name m of
        (ret, m') \<Rightarrow> if \<not> ret then None else invert_names al (Suc i) r m')"

definition container_name_index_get_all :: "bool \<Rightarrow> alloc \<Rightarrow> 'c cstore \<Rightarrow> string smap option" where
  "container_name_index_get_all lk al s =
     (if \<not> al 0 then None
      else if \<not> lk then None
      else if length (names s) = 0 then Some []
      else if \<not> al 1 then None
      else invert_names al 2 (names s) [])"

subsection \<open>Finding a container\<close>

lemma prefix_loop_Some: "prefix_loop p m (Some a) = (if \<exists>e \<in> set m. prefix p (fst e) then None else Some (Some a))"
  by (induction m) (auto split: if_splits)

lemma prefix_loop_None:
  "prefix_loop p m None =
     (case filter (\<lambda>e. prefix p (fst e)) m of [] \<Rightarrow> Some None | [e] \<Rightarrow> Some (Some (snd e)) | _ \<Rightarrow> None)"
proof (induction m)
  case (Cons e m)
  have "(\<exists>x\<in>set m. prefix p (fst x)) \<longleftrightarrow> filter (\<lambda>e. prefix p (fst e)) m \<noteq> []"
    by (auto simp: filter_empty_conv)
  with Cons show ?case by (cases e) (auto simp: prefix_loop_Some split: list.split)
qed simp

text \<open>What the three searches mean: an exact id, else the container a name stands for, else the only
  container whose id starts with the text.\<close>

definition unique_prefix :: "string \<Rightarrow> nat smap \<Rightarrow> nat option" where
  "unique_prefix p m = (case filter (\<lambda>e. prefix p (fst e)) m of [e] \<Rightarrow> Some (snd e) | _ \<Rightarrow> None)"

definition resolve :: "string \<Rightarrow> 'c cstore \<Rightarrow> nat option" where
  "resolve n s =
     (case smap_find n (ids s) of
        Some a \<Rightarrow> Some a
      | None \<Rightarrow>
          (case Option.bind (smap_find n (names s)) (\<lambda>cid. smap_find cid (ids s)) of
             Some a \<Rightarrow> Some a
           | None \<Rightarrow> unique_prefix n (ids s)))"

lemma unique_prefix_filter: "unique_prefix p m = Some a \<longleftrightarrow> (\<exists>cid. filter (\<lambda>e. prefix p (fst e)) m = [(cid, a)])"
  by (simp add: unique_prefix_def split: list.split)

lemma unique_prefix_iff:
  assumes "smap_ok m"
  shows "unique_prefix p m = Some a \<longleftrightarrow>
    (\<exists>cid. (cid, a) \<in> set m \<and> prefix p cid \<and> (\<forall>e \<in> set m. prefix p (fst e) \<longrightarrow> fst e = cid))"
proof -
  have d: "distinct (map fst m)" using assms by (rule str_cmp.store_distinct)
  have "filter (\<lambda>e. prefix p (fst e)) m = [(cid, a)] \<longleftrightarrow>
      (cid, a) \<in> set m \<and> prefix p cid \<and> (\<forall>e \<in> set m. prefix p (fst e) \<longrightarrow> fst e = cid)" for cid
  proof
    assume f: "filter (\<lambda>e. prefix p (fst e)) m = [(cid, a)]"
    have iff: "e \<in> set m \<and> prefix p (fst e) \<longleftrightarrow> e = (cid, a)" for e
      using arg_cong [OF f, of "\<lambda>xs. e \<in> set xs"] by simp
    have "(cid, a) \<in> set m \<and> prefix p cid" using iff [of "(cid, a)"] by simp
    moreover have "fst e = cid" if "e \<in> set m" "prefix p (fst e)" for e using iff [of e] that by simp
    ultimately show "(cid, a) \<in> set m \<and> prefix p cid \<and> (\<forall>e \<in> set m. prefix p (fst e) \<longrightarrow> fst e = cid)" by blast
  next
    assume c: "(cid, a) \<in> set m \<and> prefix p cid \<and> (\<forall>e \<in> set m. prefix p (fst e) \<longrightarrow> fst e = cid)"
    have "e = (cid, a)" if e: "e \<in> set m" "prefix p (fst e)" for e
    proof -
      have "fst e = cid" using c e by blast
      then have "(cid, snd e) = e" by (cases e) simp
      with e(1) have "(cid, snd e) \<in> set m" by simp
      with c have "snd e = a" by (blast intro: eq_key_imp_eq_value [OF d])
      with \<open>fst e = cid\<close> show ?thesis by (cases e) simp
    qed
    moreover have "prefix p (fst (cid, a))" "(cid, a) \<in> set m" using c by simp_all
    ultimately have "set (filter (\<lambda>e. prefix p (fst e)) m) = {(cid, a)}" unfolding set_filter by blast
    moreover have "distinct (filter (\<lambda>e. prefix p (fst e)) m)" using d by (simp add: distinct_map)
    ultimately show "filter (\<lambda>e. prefix p (fst e)) m = [(cid, a)]" by (intro distinct_singleton)
  qed
  then show ?thesis unfolding unique_prefix_filter by (simp only:)
qed

lemma get_by_prefix:
  "containers_store_get_by_prefix True True (Some n) s = (unique_prefix n (ids s), container_refinc (unique_prefix n (ids s)) s)"
  by (auto simp: containers_store_get_by_prefix_def prefix_loop_None unique_prefix_def container_refinc_def
      split: list.split)

lemma get_by_name:
  "containers_store_get_by_name True True (Some n) s =
     (let a = Option.bind (smap_find n (names s)) (\<lambda>cid. smap_find cid (ids s)) in (a, container_refinc a s))"
  by (auto simp: containers_store_get_by_name_def containers_store_get_by_id_def container_name_index_get_def
      container_refinc_def Let_def split: option.split)

lemma containers_store_get_resolve:
  assumes "\<And>i. lk i" "calloc"
  shows "containers_store_get lk calloc (Some n) s = (resolve n s, container_refinc (resolve n s) s)"
proof (cases "smap_find n (ids s)")
  case (Some a)
  with assms show ?thesis by (simp add: containers_store_get_def containers_store_get_by_id_def resolve_def Let_def)
next
  case None
  then have id: "containers_store_get_by_id True (Some n) s = (None, s)"
    by (simp add: containers_store_get_by_id_def container_refinc_def)
  show ?thesis
  proof (cases "Option.bind (smap_find n (names s)) (\<lambda>cid. smap_find cid (ids s))")
    case None': None
    then have "containers_store_get_by_name True True (Some n) s = (None, s)"
      by (simp add: get_by_name container_refinc_def)
    with None None' id assms show ?thesis
      by (cases "unique_prefix n (ids s)")
        (simp_all add: containers_store_get_def resolve_def get_by_prefix container_refinc_def)
  next
    case (Some a)
    with None id assms show ?thesis by (simp add: containers_store_get_def resolve_def get_by_name Let_def)
  qed
qed

text \<open>C9. \<open>containers_store_get\<close> finds a container by its full id first, then by name, then by a prefix
  that only one id has: a returned container's reference count has been raised by one, an ambiguous
  prefix finds nothing, and nothing else changes.\<close>

theorem containers_store_get_spec:
  assumes "\<And>i. lk i" "calloc" "smap_ok (ids s)"
  shows "containers_store_get lk calloc (Some n) s = (resolve n s, container_refinc (resolve n s) s) \<and>
    (\<forall>a. smap_find n (ids s) = Some a \<longrightarrow> resolve n s = Some a) \<and>
    (\<forall>cid a. smap_find n (ids s) = None \<and> smap_find n (names s) = Some cid \<and> smap_find cid (ids s) = Some a \<longrightarrow>
       resolve n s = Some a) \<and>
    (smap_find n (ids s) = None \<and> smap_find n (names s) = None \<longrightarrow>
       (\<forall>a. resolve n s = Some a \<longleftrightarrow>
          (\<exists>cid. (cid, a) \<in> set (ids s) \<and> prefix n cid \<and> (\<forall>e \<in> set (ids s). prefix n (fst e) \<longrightarrow> fst e = cid))))"
  using containers_store_get_resolve [OF assms(1,2)] unique_prefix_iff [OF assms(3)]
  by (simp add: resolve_def)

definition ex_store :: "string cstore" where
  "ex_store = \<lparr> objs = (\<lambda>a. if a = 1 then Some (1, ''web'') else if a = 2 then Some (1, ''db'') else None),
     ids = [(''aa10'', 1), (''ab20'', 2)], names = [(''db'', ''ab20'')] \<rparr>"

theorem containers_store_get_spec_witness:
  "fst (containers_store_get all_ok True (Some ''aa10'') ex_store) = Some 1 \<and>
   fst (containers_store_get all_ok True (Some ''db'') ex_store) = Some 2 \<and>
   fst (containers_store_get all_ok True (Some ''a'') ex_store) = None"
proof -
  have "smap_ok (ids ex_store)" by (simp add: ex_store_def store_ok_def) code_simp
  moreover have "resolve ''aa10'' ex_store = Some 1" "resolve ''db'' ex_store = Some 2" "resolve ''a'' ex_store = None"
    by code_simp+
  ultimately show ?thesis
    using containers_store_get_spec [of all_ok True ex_store "''aa10''"] containers_store_get_spec [of all_ok True ex_store "''db''"]
      containers_store_get_spec [of all_ok True ex_store "''a''"] by simp
qed

subsection \<open>Counting is exact\<close>

abbreviation entries_to :: "nat \<Rightarrow> nat smap \<Rightarrow> nat" where
  "entries_to a m \<equiv> count_list (map snd m) a"

lemma entries_ins: "entries_to a (store_ins cmp k v m) = entries_to a m + (if v = a then 1 else 0)"
  by (induction cmp k v m rule: store_ins.induct) auto

lemma entries_upd:
  "store_find cmp k m = Some old \<Longrightarrow>
   entries_to a (store_upd cmp k v m) + (if old = a then 1 else 0) = entries_to a m + (if v = a then 1 else 0)"
  by (induction m) (auto split: if_splits)

lemma entries_del:
  "store_find cmp k m = Some old \<Longrightarrow>
   entries_to a (store_del cmp k m) + (if old = a then 1 else 0) = entries_to a m"
  by (induction m) (auto split: if_splits)

text \<open>\<open>held a\<close> is the number of references to the container at \<open>a\<close> that callers own.  The count
  is exact when the counter of every live container is the number of references callers own plus
  the number of entries of the store that point to it, and freed containers have neither.\<close>

definition counted :: "'c cstore \<Rightarrow> (nat \<Rightarrow> nat) \<Rightarrow> bool" where
  "counted s held \<longleftrightarrow>
     (\<forall>a. case objs s a of
            None \<Rightarrow> held a = 0 \<and> entries_to a (ids s) = 0
          | Some (c, x) \<Rightarrow> unat c = held a + entries_to a (ids s) \<and> 0 < unat c)"

definition store_inv :: "'c cstore \<Rightarrow> (nat \<Rightarrow> nat) \<Rightarrow> bool" where
  "store_inv s held \<longleftrightarrow> smap_ok (ids s) \<and> counted s held"

text \<open>The steps of the daemon on the store.  A caller drops only a reference it owns and hands the
  reference it owns to the store when it adds a container.  Fewer than 2 to the 63 references are owned
  and fewer entries are in the store.\<close>

definition refs_bounded :: "'c cstore \<Rightarrow> (nat \<Rightarrow> nat) \<Rightarrow> bool" where
  "refs_bounded s held \<longleftrightarrow> length (ids s) < 2 ^ 62 \<and> (\<forall>a. held a < 2 ^ 62)"

inductive store_step :: "'c cstore \<times> (nat \<Rightarrow> nat) \<Rightarrow> 'c cstore \<times> (nat \<Rightarrow> nat) \<Rightarrow> bool" where
  new: "objs s a = None \<Longrightarrow>
    store_step (s, held) (s\<lparr>objs := (objs s)(a := Some (atomic_int_set 0 1, x))\<rparr>, held(a := 1))"
| get: "refs_bounded s held \<Longrightarrow> containers_store_get lk ok (Some n) s = (Some a, s') \<Longrightarrow>
    store_step (s, held) (s', held(a := held a + 1))"
| get_none: "containers_store_get lk ok n s = (None, s') \<Longrightarrow> store_step (s, held) (s', held)"
| unref: "0 < held a \<Longrightarrow> store_step (s, held) (container_unref (Some a) s, held(a := held a - 1))"
| add: "0 < held a \<Longrightarrow> c_str cid \<Longrightarrow> containers_store_add lk True ok cid a s = (True, s') \<Longrightarrow>
    store_step (s, held) (s', held(a := held a - 1))"
| add_fail: "c_str cid \<Longrightarrow> containers_store_add lk True ok cid a s = (False, s') \<Longrightarrow> store_step (s, held) (s', held)"
| remove: "c_str cid \<Longrightarrow> containers_store_remove lk ul cid s = (r, s') \<Longrightarrow> store_step (s, held) (s', held)"
| list: "refs_bounded s held \<Longrightarrow> containers_store_list lk al s = (ret, conts, s') \<Longrightarrow>
    store_step (s, held) (s', \<lambda>a. held a + count_list conts a)"
| name_add: "container_name_index_add lk ul ok n cid s = (r, s') \<Longrightarrow> store_step (s, held) (s', held)"
| name_rename: "container_name_index_rename lk ul ok n n' cid s = (r, s') \<Longrightarrow> store_step (s, held) (s', held)"
| name_remove: "container_name_index_remove lk ul n s = (r, s') \<Longrightarrow> store_step (s, held) (s', held)"

lemma store_find_in: "store_find cmp k m = Some v \<Longrightarrow> v \<in> snd ` set m"
  by (induction m) (auto split: if_splits simp: image_iff)

lemma prefix_loop_in: "prefix_loop p m c = Some (Some a) \<Longrightarrow> c = Some a \<or> a \<in> snd ` set m"
  by (induction p m c rule: prefix_loop.induct) (auto split: if_splits)

definition got :: "'c cstore \<Rightarrow> nat option \<times> 'c cstore \<Rightarrow> bool" where
  "got s r \<longleftrightarrow> (case fst r of None \<Rightarrow> snd r = s | Some a \<Rightarrow> a \<in> snd ` set (ids s) \<and> snd r = container_refinc (Some a) s)"

lemma got_None [simp]: "got s (None, s')  \<longleftrightarrow> s' = s"
  by (simp add: got_def)

lemma get_by_id_got: "got s (containers_store_get_by_id lk n s)"
  by (auto simp: containers_store_get_by_id_def got_def container_refinc_def Let_def store_find_in split: option.splits)

lemma get_by_name_got: "got s (containers_store_get_by_name lk lk' n s)"
  using get_by_id_got [of s lk'] by (auto simp: containers_store_get_by_name_def split: option.split)

lemma get_by_prefix_got: "got s (containers_store_get_by_prefix lk ok n s)"
  using prefix_loop_in [of "the n" "ids s" None]
  by (auto simp: containers_store_get_by_prefix_def got_def container_refinc_def split: option.splits)

lemma containers_store_get_got: "got s (containers_store_get lk ok n s)"
proof -
  obtain c1 s1 where 1: "containers_store_get_by_id (lk 0) n s = (c1, s1)" by fastforce
  obtain c2 s2 where 2: "containers_store_get_by_name (lk 1) (lk 2) n s = (c2, s2)" by fastforce
  obtain c3 s3 where 3: "containers_store_get_by_prefix (lk 3) ok n s = (c3, s3)" by fastforce
  note g = get_by_id_got [of s "lk 0" n, unfolded 1] get_by_name_got [of s "lk 1" "lk 2" n, unfolded 2]
    get_by_prefix_got [of s "lk 3" ok n, unfolded 3]
  show ?thesis
  proof (cases c1)
    case (Some a)
    with g(1) 1 show ?thesis by (simp add: containers_store_get_def)
  next
    case None
    then have s1: "s1 = s" using g(1) by simp
    show ?thesis
    proof (cases c2)
      case (Some a)
      with None s1 g(2) 1 2 show ?thesis by (simp add: containers_store_get_def)
    next
      case None': None
      then have "s2 = s" using g(2) by simp
      with None None' s1 g(3) 1 2 3 show ?thesis by (cases c3) (simp_all add: containers_store_get_def)
    qed
  qed
qed

lemma ids_refinc [simp]: "ids (container_refinc c s) = ids s"
  by (simp add: container_refinc_def split: option.split)

lemma ids_unref [simp]: "ids (container_unref c s) = ids s"
  by (simp add: container_unref_def split: option.split)

lemma counted_sameI:
  assumes "counted s held" "\<And>b. held' b + entries_to b m' = held b + entries_to b (ids s)"
  shows "counted (s\<lparr>ids := m'\<rparr>) held'"
  unfolding counted_def
proof
  fix b
  show "case objs (s\<lparr>ids := m'\<rparr>) b of None \<Rightarrow> held' b = 0 \<and> entries_to b (ids (s\<lparr>ids := m'\<rparr>)) = 0
    | Some (c, x) \<Rightarrow> unat c = held' b + entries_to b (ids (s\<lparr>ids := m'\<rparr>)) \<and> 0 < unat c"
    using assms(1) assms(2) [of b] by (auto simp: counted_def split: option.splits dest!: spec [of _ b])
qed

lemma counted_drop:
  assumes "counted s held" "0 < held a + entries_to a (ids s)"
    and "\<And>b. held' b + entries_to b m' + (if b = a then 1 else 0) = held b + entries_to b (ids s)"
  shows "counted ((container_unref (Some a) s)\<lparr>ids := m'\<rparr>) held'"
  unfolding counted_def
proof
  fix b
  let ?s = "(container_unref (Some a) s)\<lparr>ids := m'\<rparr>"
  have b: "case objs s b of None \<Rightarrow> held b = 0 \<and> entries_to b (ids s) = 0
    | Some (c, x) \<Rightarrow> unat c = held b + entries_to b (ids s) \<and> 0 < unat c"
    using assms(1) by (simp add: counted_def)
  show "case objs ?s b of None \<Rightarrow> held' b = 0 \<and> entries_to b (ids ?s) = 0
    | Some (c, x) \<Rightarrow> unat c = held' b + entries_to b (ids ?s) \<and> 0 < unat c"
  proof (cases "b = a")
    case False
    then have "held' b + entries_to b m' = held b + entries_to b (ids s)" using assms(3) [of b] by simp
    with False b show ?thesis by (auto simp: container_unref_def split: option.splits)
  next
    case True
    with b assms(2) obtain c x where c: "objs s a = Some (c, x)" "unat c = held a + entries_to a (ids s)"
      by (auto split: option.splits)
    have h: "held' a + entries_to a m' + 1 = unat c" using assms(3) [of a] c(2) by simp
    then have "c \<noteq> 0" by auto
    then have "unat (c - 1) = unat c - 1" by (rule unat_minus_one)
    moreover have "c = 1 \<longleftrightarrow> unat c = 1" by (metis unat_1 unsigned_word_eqI)
    ultimately show ?thesis using True c(1) h by (auto simp: container_unref_def ref_drop_Some)
  qed
qed

lemma counted_take:
  assumes "counted s held" "objs s a \<noteq> None" "Suc (held a + entries_to a (ids s)) < 2 ^ 64"
  shows "counted (container_refinc (Some a) s) (held(a := held a + 1))"
  unfolding counted_def
proof
  fix b
  let ?s = "container_refinc (Some a) s"
  have b: "case objs s b of None \<Rightarrow> held b = 0 \<and> entries_to b (ids s) = 0
    | Some (c, x) \<Rightarrow> unat c = held b + entries_to b (ids s) \<and> 0 < unat c"
    using assms(1) by (simp add: counted_def)
  show "case objs ?s b of None \<Rightarrow> (held(a := held a + 1)) b = 0 \<and> entries_to b (ids ?s) = 0
    | Some (c, x) \<Rightarrow> unat c = (held(a := held a + 1)) b + entries_to b (ids ?s) \<and> 0 < unat c"
  proof (cases "b = a")
    case False
    with b show ?thesis by (auto simp: container_refinc_def split: option.splits)
  next
    case True
    with b assms(2) obtain c x where c: "objs s a = Some (c, x)" "unat c = held a + entries_to a (ids s)"
      by (auto split: option.splits)
    have "unat (c + 1) = unat c + 1" using assms(3) c(2) by (simp add: unat_word_ariths)
    then show ?thesis using True c by (simp add: container_refinc_def)
  qed
qed

lemma entries_pos: "0 < entries_to a m \<longleftrightarrow> a \<in> snd ` set m"
  by (induction m) auto

lemma counted_live: "counted s held \<Longrightarrow> 0 < held a + entries_to a (ids s) \<Longrightarrow> objs s a \<noteq> None"
  by (auto simp: counted_def split: option.splits dest!: spec [of _ a])

lemma entries_le: "entries_to a m \<le> length m"
  using count_le_length [of "map snd m" a] by simp

lemma counted_take_list:
  "counted s held \<Longrightarrow> (\<And>a. a \<in> set conts \<Longrightarrow> a \<in> snd ` set (ids s)) \<Longrightarrow>
   (\<And>a. held a + count_list conts a + entries_to a (ids s) < 2 ^ 64) \<Longrightarrow>
   counted (foldl (\<lambda>s a. container_refinc (Some a) s) s conts) (\<lambda>a. held a + count_list conts a) \<and>
   ids (foldl (\<lambda>s a. container_refinc (Some a) s) s conts) = ids s"
proof (induction conts arbitrary: s held)
  case (Cons a conts)
  let ?s = "container_refinc (Some a) s"
  have "0 < entries_to a (ids s)" using Cons.prems(2) [of a] by (simp add: entries_pos)
  then have live: "objs s a \<noteq> None" using counted_live [OF Cons.prems(1), of a] by simp
  define h where "h = held(a := held a + 1)"
  have "counted ?s h"
    unfolding h_def using Cons.prems(3) [of a] by (intro counted_take [OF Cons.prems(1) live]) simp
  moreover have "h b + count_list conts b + entries_to b (ids ?s) < 2 ^ 64" for b
    using Cons.prems(3) [of b] by (auto simp: h_def split: if_splits)
  ultimately have "counted (foldl (\<lambda>s a. container_refinc (Some a) s) ?s conts) (\<lambda>b. h b + count_list conts b) \<and>
      ids (foldl (\<lambda>s a. container_refinc (Some a) s) ?s conts) = ids ?s"
    using Cons.prems(2) by (intro Cons.IH) auto
  moreover have "(\<lambda>b. h b + count_list conts b) = (\<lambda>b. held b + count_list (a # conts) b)"
    by (auto simp: h_def)
  ultimately show ?case by simp
qed simp

lemma counted_names [simp]: "counted (s\<lparr>names := m\<rparr>) held \<longleftrightarrow> counted s held"
  by (simp add: counted_def cong: option.case_cong)

lemma store_add_inv:
  assumes "store_inv s held" "c_str cid" "containers_store_add lk True ok cid a s = (r, s')" "0 < held a \<or> \<not> r"
  shows "store_inv s' (if r then held(a := held a - 1) else held)"
proof (cases "lk \<and> fst (smap_replace ok cid a (ids s))")
  case False
  then have "s' = s \<and> \<not> r"
    using assms(1-3) smap.rep_fail [of cid "ids s" ok a] smap.rep_ret [of cid "ids s" ok a]
    by (auto simp: containers_store_add_def store_inv_def split: prod.splits if_splits option.splits)
  with assms(1) show ?thesis by simp
next
  case True
  obtain m where m: "smap_replace ok cid a (ids s) = (True, m)" using True by (cases "smap_replace ok cid a (ids s)") auto
  have r: "r" using assms(3) True m by (simp add: containers_store_add_def)
  have ok: "smap_ok m" using smap.rep_inv [OF assms(2), of "ids s" ok a] assms(1) m by (simp add: store_inv_def)
  have h: "0 < held a" using assms(4) r by simp
  show ?thesis
  proof (cases "smap_find cid (ids s)")
    case None
    then have m': "m = store_ins rbtree_str_cmp cid a (ids s)" using m by (auto simp: spec_defs split: if_splits)
    have "counted (s\<lparr>ids := m\<rparr>) (held(a := held a - 1))"
      using assms(1) h by (intro counted_sameI [of s held]) (auto simp: store_inv_def m' entries_ins)
    with None m assms(3) True r ok show ?thesis by (auto simp: containers_store_add_def store_inv_def)
  next
    case (Some old)
    then have m': "m = store_upd rbtree_str_cmp cid a (ids s)" using m by (auto simp: spec_defs)
    have "0 < entries_to old (ids s)" using store_find_in [OF Some] by (simp add: entries_pos)
    moreover have "(held(a := held a - 1)) b + entries_to b m + (if b = old then 1 else 0) =
        held b + entries_to b (ids s)" for b
      using entries_upd [OF Some, of a b] h unfolding m' by (auto split: if_splits)
    ultimately have "counted ((container_unref (Some old) s)\<lparr>ids := m\<rparr>) (held(a := held a - 1))"
      using assms(1) by (intro counted_drop [of s held]) (simp_all add: store_inv_def)
    with Some m assms(3) True r ok show ?thesis
      by (auto simp: containers_store_add_def store_inv_def memory_store_map_kvfree_def)
  qed
qed

lemma store_remove_inv:
  assumes "store_inv s held" "c_str cid" "containers_store_remove lk ul cid s = (r, s')"
  shows "store_inv s' held"
proof (cases "lk \<and> smap_find cid (ids s) \<noteq> None")
  case False
  then have "s' = s" using assms(3) by (auto simp: containers_store_remove_def spec_defs split: if_splits)
  with assms(1) show ?thesis by simp
next
  case True
  then obtain old where Some: "smap_find cid (ids s) = Some old" by auto
  define m where "m = store_del rbtree_str_cmp cid (ids s)"
  have "0 < entries_to old (ids s)" using store_find_in [OF Some] by (simp add: entries_pos)
  moreover have "held b + entries_to b m + (if b = old then 1 else 0) = held b + entries_to b (ids s)" for b
    using entries_del [OF Some, of b] unfolding m_def by (auto split: if_splits)
  ultimately have "counted ((container_unref (Some old) s)\<lparr>ids := m\<rparr>) held"
    using assms(1) by (intro counted_drop [of s held]) (simp_all add: store_inv_def)
  moreover have "smap_ok m" using assms(1,2) by (simp add: store_inv_def m_def str_cmp.store_del_ok)
  ultimately show ?thesis using assms(3) True Some
    by (auto simp: containers_store_remove_def store_inv_def spec_defs memory_store_map_kvfree_def m_def)
qed

lemma store_list_inv:
  assumes "store_inv s held" "refs_bounded s held" "containers_store_list lk al s = (ret, conts, s')"
  shows "store_inv s' (\<lambda>a. held a + count_list conts a)"
proof (cases "conts = []")
  case True
  have "s' = s" using assms(3) True
    by (auto simp: containers_store_list_def Let_def split: if_splits)
  with True assms(1) show ?thesis by simp
next
  case False
  have c: "conts = map snd (ids s)" "s' = foldl (\<lambda>s a. container_refinc (Some a) s) s conts"
    using assms(3) False by (auto simp: containers_store_list_def Let_def split: if_splits)
  have "held a + count_list conts a + entries_to a (ids s) < 2 ^ 64" for a
    using assms(2) entries_le [of "ids s" a] unfolding refs_bounded_def c(1) by (auto dest!: spec [of _ a])
  then show ?thesis
    using counted_take_list [of s held conts] assms(1) c by (auto simp: store_inv_def)
qed

lemma store_step_inv:
  assumes "store_step p p'" "store_inv (fst p) (snd p)"
  shows "store_inv (fst p') (snd p')"
  using assms
proof (induction rule: store_step.induct)
  case (new s a held x)
  have "held a = 0" "entries_to a (ids s) = 0"
    using new by (auto simp: store_inv_def counted_def split: option.splits dest!: spec [of _ a])
  with new show ?case
    by (auto simp: store_inv_def counted_def atomic_int_set_def cong: option.case_cong)
next
  case (get s held lk ok n a s')
  have g: "a \<in> snd ` set (ids s)" "s' = container_refinc (Some a) s"
    using containers_store_get_got [of s lk ok "Some n"] get.hyps(2) by (simp_all add: got_def)
  then have "0 < held a + entries_to a (ids s)" by (simp add: entries_pos)
  with get.prems counted_live [of s held a] have "objs s a \<noteq> None" by (simp add: store_inv_def)
  moreover have "Suc (held a + entries_to a (ids s)) < 2 ^ 64"
    using get.hyps(1) entries_le [of "ids s" a] unfolding refs_bounded_def by (auto dest!: spec [of _ a])
  ultimately show ?case using get.prems g(2) counted_take [of s held a] by (simp add: store_inv_def fun_upd_def)
next
  case (get_none lk ok n s s' held)
  with containers_store_get_got [of s lk ok n] show ?case by simp
next
  case (unref held a s)
  have "counted ((container_unref (Some a) s)\<lparr>ids := ids s\<rparr>) (held(a := held a - 1))"
    using unref by (intro counted_drop [of s held]) (auto simp: store_inv_def)
  with unref show ?case by (simp add: store_inv_def container_unref_def fun_upd_def)
next
  case (add held a cid lk ok s s')
  then show ?case using store_add_inv [of s held cid lk ok a True s'] by (simp add: fun_upd_def)
next
  case (add_fail cid lk ok a s s' held)
  then show ?case using store_add_inv [of s held cid lk ok a False s'] by simp
next
  case (remove cid lk ul s r s' held)
  then show ?case using store_remove_inv [of s held cid lk ul r s'] by simp
next
  case (list s held lk al ret conts s')
  then show ?case using store_list_inv [of s held lk al ret conts s'] by simp
qed (auto simp: store_inv_def container_name_index_add_def container_name_index_rename_def
    container_name_index_remove_def Let_def split: if_splits prod.splits)

lemma store_steps_inv: "store_step\<^sup>*\<^sup>* p p' \<Longrightarrow> store_inv (fst p) (snd p) \<Longrightarrow> store_inv (fst p') (snd p')"
  by (induction rule: rtranclp_induct) (auto intro: store_step_inv)

text \<open>C2. Containers are never freed too early and never leaked by the store.  Starting from a new,
  empty store, after any sequence of creations, lookups, listings, additions, removals, renames and
  releases, the counter of a live container is exactly the number of references its users own plus
  the number of store entries that point to it; so a container that someone can still reach is
  live, and one that nobody can reach has been freed.\<close>

theorem containers_store_counts:
  assumes "containers_store_init al ri s0 = (0, s)" "\<And>a. objs s0 a = None"
    and "store_step\<^sup>*\<^sup>* (s, \<lambda>a. 0) (s', held)"
  shows "(case objs s' a of
            None \<Rightarrow> held a = 0 \<and> a \<notin> snd ` set (ids s')
          | Some (c, x) \<Rightarrow> unat c = held a + count_list (map snd (ids s')) a \<and>
                          (0 < held a \<or> a \<in> snd ` set (ids s')))"
proof -
  have "store_inv s (\<lambda>a. 0)"
    using assms(1,2)
    by (auto simp: containers_store_init_def memory_store_new_def store_inv_def counted_def split: if_splits)
  then have "counted s' held" using store_steps_inv [OF assms(3)] by (simp add: store_inv_def)
  then show ?thesis
    unfolding counted_def using entries_pos [of "ids s'" a]
    by (auto split: option.splits dest!: spec [of _ a])
qed

definition ex_store_empty :: "string cstore" where
  "ex_store_empty = \<lparr> objs = (\<lambda>a. None), ids = [], names = [] \<rparr>"

definition ex_store_new :: "string cstore" where
  "ex_store_new = ex_store_empty\<lparr>objs := (objs ex_store_empty)(7 := Some (atomic_int_set 0 1, ''web''))\<rparr>"

definition ex_store_added :: "string cstore" where
  "ex_store_added = snd (containers_store_add True True True ''aa10'' 7 ex_store_new)"

lemma ex_store_steps: "store_step\<^sup>*\<^sup>* (ex_store_empty, \<lambda>a. 0) (ex_store_added, (\<lambda>a. 0)(7 := 0))"
proof -
  have 1: "store_step (ex_store_empty, \<lambda>a. 0) (ex_store_new, (\<lambda>a. 0)(7 := 1))"
    unfolding ex_store_new_def by (rule store_step.new) (simp add: ex_store_empty_def)
  have a: "containers_store_add True True True ''aa10'' 7 ex_store_new = (True, ex_store_added)"
    by (simp add: ex_store_added_def containers_store_add_def ex_store_new_def ex_store_empty_def spec_defs)
  have "store_step (ex_store_new, (\<lambda>a. 0)(7 := 1)) (ex_store_added, ((\<lambda>a. 0)(7 := 1))(7 := ((\<lambda>a. 0)(7 := 1 :: nat)) (7 :: nat) - 1))"
    by (rule store_step.add [OF _ _ a]) simp_all
  with 1 show ?thesis by (simp add: converse_rtranclp_into_rtranclp)
qed

theorem containers_store_counts_witness:
  "\<exists>c x. objs ex_store_added 7 = Some (c, x) \<and> unat c = count_list (map snd (ids ex_store_added)) 7"
proof -
  have init: "containers_store_init all_ok 0 ex_store_empty = (0, ex_store_empty)"
    by (simp add: containers_store_init_def memory_store_new_def ex_store_empty_def)
  have "7 \<in> snd ` set (ids ex_store_added)"
    by (simp add: ex_store_added_def containers_store_add_def ex_store_new_def ex_store_empty_def spec_defs)
  with containers_store_counts [OF init _ ex_store_steps, of 7] show ?thesis
    by (auto simp: ex_store_empty_def split: option.splits)
qed

end
