(* ===== verification/RB_Tree.thy ===== *)
theory RB_Tree
  imports Prelude "HOL-Library.Monad_Syntax"
begin

text \<open>
  The red-black tree of rb_tree.c on its heap.  A tree is its root, its sentinel and the heap of its
  nodes, with addresses as naturals and NULL as 0.  Every function that follows a pointer returns an
  option: None stands for a pointer that is NULL, freed or never allocated, and for a loop that does
  not end, so a result \<open>Some\<close> says that neither happens.  The comparator and whether there is a
  \<open>kvfreer\<close>, which \<open>rbtree_new\<close> stores once and for all, are the arguments \<open>cmp\<close> and \<open>fr\<close>; the calls
  of \<open>kvfreer\<close> are returned as the list of its arguments.  The address that the allocator returns for
  a node (None: out of memory) is an argument too.
\<close>

datatype rbtree_colour = RED | BLACK

record ('k, 'v) rb_node =
  nkey :: "'k option"
  nvalue :: "'v option"
  colour :: rbtree_colour
  nleft :: nat
  nright :: nat
  nparent :: nat

record ('k, 'v) rb_tree =
  rb_root :: nat
  rb_nil :: nat
  heap :: "nat \<rightharpoonup> ('k, 'v) rb_node"

record ('k, 'v) rb_iterator =
  itor_tree :: "('k, 'v) rb_tree"
  itor_node :: nat

type_synonym ('k, 'v) frees = "('k option \<times> 'v option) list"

text \<open>Writing a field of the node at an address, and \<open>free\<close>.\<close>

definition upd_node :: "nat \<Rightarrow> (('k, 'v) rb_node \<Rightarrow> ('k, 'v) rb_node) \<Rightarrow> ('k, 'v) rb_tree \<Rightarrow> ('k, 'v) rb_tree option" where
  "upd_node p f t = (case heap t p of None \<Rightarrow> None | Some n \<Rightarrow> Some (t\<lparr>heap := (heap t)(p \<mapsto> f n)\<rparr>))"

abbreviation set_colour :: "nat \<Rightarrow> rbtree_colour \<Rightarrow> ('k, 'v) rb_tree \<Rightarrow> ('k, 'v) rb_tree option" where
  "set_colour p c \<equiv> upd_node p (colour_update (\<lambda>_. c))"

abbreviation set_left :: "nat \<Rightarrow> nat \<Rightarrow> ('k, 'v) rb_tree \<Rightarrow> ('k, 'v) rb_tree option" where
  "set_left p q \<equiv> upd_node p (nleft_update (\<lambda>_. q))"

abbreviation set_right :: "nat \<Rightarrow> nat \<Rightarrow> ('k, 'v) rb_tree \<Rightarrow> ('k, 'v) rb_tree option" where
  "set_right p q \<equiv> upd_node p (nright_update (\<lambda>_. q))"

abbreviation set_parent :: "nat \<Rightarrow> nat \<Rightarrow> ('k, 'v) rb_tree \<Rightarrow> ('k, 'v) rb_tree option" where
  "set_parent p q \<equiv> upd_node p (nparent_update (\<lambda>_. q))"

definition free_node :: "nat \<Rightarrow> ('k, 'v) rb_tree \<Rightarrow> ('k, 'v) rb_tree option" where
  "free_node p t = (case heap t p of None \<Rightarrow> None | Some _ \<Rightarrow> Some (t\<lparr>heap := (heap t)(p := None)\<rparr>))"

definition rbtree_create_node ::
    "nat option \<Rightarrow> 'k option \<Rightarrow> 'v option \<Rightarrow> nat \<Rightarrow> nat \<Rightarrow> nat \<Rightarrow> (nat \<rightharpoonup> ('k, 'v) rb_node) \<Rightarrow> nat \<times> (nat \<rightharpoonup> ('k, 'v) rb_node)" where
  "rbtree_create_node mem k v l r p h =
     (case mem of
        None \<Rightarrow> (0, h)
      | Some a \<Rightarrow> (a, h(a \<mapsto> \<lparr>nkey = k, nvalue = v, colour = BLACK, nleft = l, nright = r, nparent = p\<rparr>)))"

subsection \<open>Searching\<close>

partial_function (option) rbtree_recursive_search ::
    "('k \<Rightarrow> 'k \<Rightarrow> int) \<Rightarrow> ('k, 'v) rb_tree \<Rightarrow> nat \<Rightarrow> 'k \<Rightarrow> nat option" where
  "rbtree_recursive_search cmp t node k =
     (if node = rb_nil t then Some node
      else do {
        n \<leftarrow> heap t node;
        k' \<leftarrow> nkey n;
        if cmp k k' = 0 then Some node
        else if cmp k k' < 0 then rbtree_recursive_search cmp t (nleft n) k
        else rbtree_recursive_search cmp t (nright n) k
      })"

definition rbtree_find :: "('k \<Rightarrow> 'k \<Rightarrow> int) \<Rightarrow> ('k, 'v) rb_tree option \<Rightarrow> 'k option \<Rightarrow> nat option" where
  "rbtree_find cmp tree key =
     (case (tree, key) of
        (Some t, Some k) \<Rightarrow> rbtree_recursive_search cmp t (rb_root t) k
      | _ \<Rightarrow> Some 0)"

definition rbtree_search :: "('k \<Rightarrow> 'k \<Rightarrow> int) \<Rightarrow> ('k, 'v) rb_tree option \<Rightarrow> 'k option \<Rightarrow> 'v option option" where
  "rbtree_search cmp tree key =
     (case (tree, key) of
        (Some t, Some k) \<Rightarrow> do {
          find \<leftarrow> rbtree_find cmp tree key;
          if find = rb_nil t then Some None
          else do { n \<leftarrow> heap t find; Some (nvalue n) }
        }
      | _ \<Rightarrow> Some None)"

definition rbtree_new :: "bool \<Rightarrow> nat option \<Rightarrow> ('k, 'v) rb_tree option" where
  "rbtree_new calloc mem =
     (if \<not> calloc then None
      else let (nil, h) = rbtree_create_node mem None None 0 0 0 Map.empty
           in Some \<lparr>rb_root = nil, rb_nil = nil, heap = h\<rparr>)"

partial_function (option) rbtree_destroy_all ::
    "bool \<Rightarrow> ('k, 'v) rb_tree \<Rightarrow> nat \<Rightarrow> (('k, 'v) frees \<times> ('k, 'v) rb_tree) option" where
  "rbtree_destroy_all fr t node =
     (if node = rb_nil t then Some ([], t)
      else do {
        n \<leftarrow> heap t node;
        (fs, t) \<leftarrow> (if nleft n \<noteq> rb_nil t then rbtree_destroy_all fr t (nleft n) else Some ([], t));
        n \<leftarrow> heap t node;
        (gs, t) \<leftarrow> (if nright n \<noteq> rb_nil t then rbtree_destroy_all fr t (nright n) else Some ([], t));
        n \<leftarrow> heap t node;
        t \<leftarrow> free_node node t;
        Some (fs @ gs @ (if fr then [(nkey n, nvalue n)] else []), t)
      })"

definition rbtree_clear :: "bool \<Rightarrow> ('k, 'v) rb_tree option \<Rightarrow> (('k, 'v) frees \<times> ('k, 'v) rb_tree option) option" where
  "rbtree_clear fr tree =
     (case tree of
        None \<Rightarrow> Some ([], None)
      | Some t \<Rightarrow> do { (fs, t) \<leftarrow> rbtree_destroy_all fr t (rb_root t); Some (fs, Some t) })"

text \<open>\<open>rbtree_free\<close> returns the calls of \<open>kvfreer\<close> and the cells of the heap that are left; the
  pointer \<open>tree->nil\<close> may be NULL, which \<open>free\<close> accepts.\<close>

definition rbtree_free :: "bool \<Rightarrow> ('k, 'v) rb_tree option \<Rightarrow> (('k, 'v) frees \<times> (nat \<rightharpoonup> ('k, 'v) rb_node)) option" where
  "rbtree_free fr tree = do {
     (fs, tree) \<leftarrow> rbtree_clear fr tree;
     t \<leftarrow> tree;
     t \<leftarrow> (if rb_nil t = 0 then Some t else free_node (rb_nil t) t);
     Some (fs, heap t)
   }"

subsection \<open>Rotations\<close>

definition left_rot :: "('k, 'v) rb_tree \<Rightarrow> nat \<Rightarrow> ('k, 'v) rb_tree option" where
  "left_rot t node = do {
     n \<leftarrow> heap t node;
     let y = nright n;
     yn \<leftarrow> heap t y;
     t \<leftarrow> set_right node (nleft yn) t;
     yn \<leftarrow> heap t y;
     t \<leftarrow> (if nleft yn \<noteq> rb_nil t then set_parent (nleft yn) node t else Some t);
     n \<leftarrow> heap t node;
     t \<leftarrow> set_parent y (nparent n) t;
     n \<leftarrow> heap t node;
     t \<leftarrow> (if nparent n = rb_nil t then Some (t\<lparr>rb_root := y\<rparr>)
          else do {
            p \<leftarrow> heap t (nparent n);
            if node = nleft p then set_left (nparent n) y t else set_right (nparent n) y t
          });
     t \<leftarrow> set_left y node t;
     set_parent node y t
   }"

definition right_rot :: "('k, 'v) rb_tree \<Rightarrow> nat \<Rightarrow> ('k, 'v) rb_tree option" where
  "right_rot t node = do {
     n \<leftarrow> heap t node;
     let y = nleft n;
     yn \<leftarrow> heap t y;
     t \<leftarrow> set_left node (nright yn) t;
     yn \<leftarrow> heap t y;
     t \<leftarrow> (if nright yn \<noteq> rb_nil t then set_parent (nright yn) node t else Some t);
     n \<leftarrow> heap t node;
     t \<leftarrow> set_parent y (nparent n) t;
     n \<leftarrow> heap t node;
     t \<leftarrow> (if nparent n = rb_nil t then Some (t\<lparr>rb_root := y\<rparr>)
          else do {
            p \<leftarrow> heap t (nparent n);
            if node = nright p then set_right (nparent n) y t else set_left (nparent n) y t
          });
     t \<leftarrow> set_right y node t;
     set_parent node y t
   }"

subsection \<open>Insertion\<close>

text \<open>
  One turn of the loop of \<open>rbtree_insert_fixup\<close>, for a node whose parent is red: \<open>Inr\<close> goes on with
  the next node, \<open>Inl\<close> is the early return on a NULL uncle.
\<close>

definition insert_fixup_left ::
    "('k, 'v) rb_tree \<Rightarrow> nat \<Rightarrow> (('k, 'v) rb_tree + ('k, 'v) rb_tree \<times> nat) option" where
  "insert_fixup_left t node = do {
     n \<leftarrow> heap t node;
     p \<leftarrow> heap t (nparent n);
     g \<leftarrow> heap t (nparent p);
     let y = nright g;
     if y = 0 then Some (Inl t)
     else do {
       yn \<leftarrow> heap t y;
       if colour yn = RED then do {
         t \<leftarrow> set_colour (nparent n) BLACK t;
         t \<leftarrow> set_colour y BLACK t;
         p \<leftarrow> heap t (nparent n);
         t \<leftarrow> set_colour (nparent p) RED t;
         p \<leftarrow> heap t (nparent n);
         Some (Inr (t, nparent p))
       } else do {
         (t, node) \<leftarrow> (if node = nright p then do { t \<leftarrow> left_rot t (nparent n); Some (t, nparent n) }
                       else Some (t, node));
         n \<leftarrow> heap t node;
         t \<leftarrow> set_colour (nparent n) BLACK t;
         p \<leftarrow> heap t (nparent n);
         t \<leftarrow> set_colour (nparent p) RED t;
         p \<leftarrow> heap t (nparent n);
         t \<leftarrow> right_rot t (nparent p);
         Some (Inr (t, node))
       }
     }
   }"

definition insert_fixup_right ::
    "('k, 'v) rb_tree \<Rightarrow> nat \<Rightarrow> (('k, 'v) rb_tree + ('k, 'v) rb_tree \<times> nat) option" where
  "insert_fixup_right t node = do {
     n \<leftarrow> heap t node;
     p \<leftarrow> heap t (nparent n);
     g \<leftarrow> heap t (nparent p);
     let y = nleft g;
     if y = 0 then Some (Inl t)
     else do {
       yn \<leftarrow> heap t y;
       if colour yn = RED then do {
         t \<leftarrow> set_colour (nparent n) BLACK t;
         t \<leftarrow> set_colour y BLACK t;
         p \<leftarrow> heap t (nparent n);
         t \<leftarrow> set_colour (nparent p) RED t;
         p \<leftarrow> heap t (nparent n);
         Some (Inr (t, nparent p))
       } else do {
         (t, node) \<leftarrow> (if node = nleft p then do { t \<leftarrow> right_rot t (nparent n); Some (t, nparent n) }
                       else Some (t, node));
         n \<leftarrow> heap t node;
         t \<leftarrow> set_colour (nparent n) BLACK t;
         p \<leftarrow> heap t (nparent n);
         t \<leftarrow> set_colour (nparent p) RED t;
         p \<leftarrow> heap t (nparent n);
         t \<leftarrow> left_rot t (nparent p);
         Some (Inr (t, node))
       }
     }
   }"

partial_function (option) rbtree_insert_fixup :: "('k, 'v) rb_tree \<Rightarrow> nat \<Rightarrow> ('k, 'v) rb_tree option" where
  "rbtree_insert_fixup t node = do {
     n \<leftarrow> heap t node;
     p \<leftarrow> heap t (nparent n);
     if colour p = RED then do {
       g \<leftarrow> heap t (nparent p);
       r \<leftarrow> (if nparent n = nleft g then insert_fixup_left t node else insert_fixup_right t node);
       case r of Inl t \<Rightarrow> Some t | Inr x \<Rightarrow> rbtree_insert_fixup (fst x) (snd x)
     } else set_colour (rb_root t) BLACK t
   }"

text \<open>The descent of \<open>insert_node\<close> to the node below which the new one goes.\<close>

partial_function (option) insert_descend ::
    "('k \<Rightarrow> 'k \<Rightarrow> int) \<Rightarrow> ('k, 'v) rb_tree \<Rightarrow> 'k \<Rightarrow> nat \<Rightarrow> nat \<Rightarrow> nat option" where
  "insert_descend cmp t k previous index =
     (if index = rb_nil t then Some previous
      else do {
        n \<leftarrow> heap t index;
        k' \<leftarrow> nkey n;
        if cmp k k' < 0 then insert_descend cmp t k index (nleft n)
        else insert_descend cmp t k index (nright n)
      })"

definition insert_node :: "('k \<Rightarrow> 'k \<Rightarrow> int) \<Rightarrow> ('k, 'v) rb_tree \<Rightarrow> nat \<Rightarrow> ('k, 'v) rb_tree option" where
  "insert_node cmp t node = do {
     n \<leftarrow> heap t node;
     k \<leftarrow> nkey n;
     previous \<leftarrow> insert_descend cmp t k (rb_nil t) (rb_root t);
     t \<leftarrow> set_parent node previous t;
     t \<leftarrow> (if previous = rb_nil t then Some (t\<lparr>rb_root := node\<rparr>)
          else do {
            p \<leftarrow> heap t previous;
            k' \<leftarrow> nkey p;
            if cmp k k' < 0 then set_left previous node t else set_right previous node t
          });
     t \<leftarrow> set_left node (rb_nil t) t;
     t \<leftarrow> set_right node (rb_nil t) t;
     t \<leftarrow> set_colour node RED t;
     rbtree_insert_fixup t node
   }"

definition rbtree_insert ::
    "('k \<Rightarrow> 'k \<Rightarrow> int) \<Rightarrow> nat option \<Rightarrow> ('k, 'v) rb_tree option \<Rightarrow> 'k option \<Rightarrow> 'v option \<Rightarrow> (bool \<times> ('k, 'v) rb_tree option) option" where
  "rbtree_insert cmp mem tree key val =
     (case (tree, key, val) of
        (Some t, Some k, Some v) \<Rightarrow> do {
          find \<leftarrow> rbtree_find cmp tree key;
          if find \<noteq> rb_nil t then Some (False, tree)
          else let (node, h) = rbtree_create_node mem key val (rb_nil t) (rb_nil t) (rb_nil t) (heap t) in
            if node = 0 then Some (False, tree)
            else do { t \<leftarrow> insert_node cmp (t\<lparr>heap := h\<rparr>) node; Some (True, Some t) }
        }
      | _ \<Rightarrow> Some (False, tree))"

definition rbtree_replace ::
    "('k \<Rightarrow> 'k \<Rightarrow> int) \<Rightarrow> bool \<Rightarrow> nat option \<Rightarrow> ('k, 'v) rb_tree option \<Rightarrow> 'k option \<Rightarrow> 'v option \<Rightarrow>
     (bool \<times> ('k, 'v) frees \<times> ('k, 'v) rb_tree option) option" where
  "rbtree_replace cmp fr mem tree key val =
     (case (tree, key, val) of
        (Some t, Some k, Some v) \<Rightarrow> do {
          node \<leftarrow> rbtree_find cmp tree key;
          if node = rb_nil t then do { (b, tree) \<leftarrow> rbtree_insert cmp mem tree key val; Some (b, [], tree) }
          else do {
            n \<leftarrow> heap t node;
            t \<leftarrow> upd_node node (nvalue_update (\<lambda>_. val)) t;
            Some (True, (if fr then [(key, nvalue n)] else []), Some t)
          }
        }
      | _ \<Rightarrow> Some (False, [], tree))"

subsection \<open>Removal\<close>

partial_function (option) leftmost :: "('k, 'v) rb_tree \<Rightarrow> nat \<Rightarrow> nat option" where
  "leftmost t node = do { n \<leftarrow> heap t node; if nleft n \<noteq> rb_nil t then leftmost t (nleft n) else Some node }"

partial_function (option) rightmost :: "('k, 'v) rb_tree \<Rightarrow> nat \<Rightarrow> nat option" where
  "rightmost t node = do { n \<leftarrow> heap t node; if nright n \<noteq> rb_nil t then rightmost t (nright n) else Some node }"

definition rbtree_minimum :: "('k, 'v) rb_tree \<Rightarrow> nat \<Rightarrow> nat option" where
  "rbtree_minimum t node = (if node = rb_nil t then Some (rb_nil t) else leftmost t node)"

definition rbtree_maximum :: "('k, 'v) rb_tree \<Rightarrow> nat \<Rightarrow> nat option" where
  "rbtree_maximum t node = (if node = rb_nil t then Some (rb_nil t) else rightmost t node)"

text \<open>\<open>p == tree->nil || p->colour == BLACK\<close>.\<close>

definition black_or_nil :: "('k, 'v) rb_tree \<Rightarrow> nat \<Rightarrow> bool option" where
  "black_or_nil t p = (if p = rb_nil t then Some True else do { n \<leftarrow> heap t p; Some (colour n = BLACK) })"

text \<open>
  A turn of the fix-up for a node that is a left child: first a red sibling is rotated away, then the
  black sibling is recoloured or rotated.  \<open>near\<close> and \<open>far\<close> are the two halves of \<open>flag\<close>.
\<close>

definition erase_left_red :: "('k, 'v) rb_tree \<Rightarrow> nat \<Rightarrow> (('k, 'v) rb_tree \<times> nat) option" where
  "erase_left_red t node = do {
     n \<leftarrow> heap t node;
     let parent = nparent n;
     p \<leftarrow> heap t parent;
     let sibling = nright p;
     s \<leftarrow> heap t sibling;
     if colour s = RED then do {
       t \<leftarrow> set_colour parent RED t;
       t \<leftarrow> set_colour sibling BLACK t;
       t \<leftarrow> left_rot t parent;
       n \<leftarrow> heap t node;
       p \<leftarrow> heap t (nparent n);
       Some (t, nright p)
     } else Some (t, sibling)
   }"

definition erase_left_black :: "('k, 'v) rb_tree \<Rightarrow> nat \<Rightarrow> nat \<Rightarrow> (('k, 'v) rb_tree \<times> nat) option" where
  "erase_left_black t node sibling = do {
     s \<leftarrow> heap t sibling;
     near \<leftarrow> black_or_nil t (nleft s);
     far \<leftarrow> (if near then black_or_nil t (nright s) else Some False);
     if near \<and> far then do {
       t \<leftarrow> set_colour sibling RED t;
       n \<leftarrow> heap t node;
       Some (t, nparent n)
     } else do {
       far \<leftarrow> black_or_nil t (nright s);
       (t, sibling) \<leftarrow> (if far then do {
           t \<leftarrow> set_colour sibling RED t;
           s \<leftarrow> heap t sibling;
           t \<leftarrow> set_colour (nleft s) BLACK t;
           t \<leftarrow> right_rot t sibling;
           n \<leftarrow> heap t node;
           p \<leftarrow> heap t (nparent n);
           Some (t, nright p)
         } else Some (t, sibling));
       n \<leftarrow> heap t node;
       p \<leftarrow> heap t (nparent n);
       t \<leftarrow> set_colour sibling (colour p) t;
       t \<leftarrow> set_colour (nparent n) BLACK t;
       s \<leftarrow> heap t sibling;
       t \<leftarrow> set_colour (nright s) BLACK t;
       t \<leftarrow> left_rot t (nparent n);
       Some (t, rb_root t)
     }
   }"

definition do_with_left_node_not_null :: "('k, 'v) rb_tree \<Rightarrow> nat \<Rightarrow> (('k, 'v) rb_tree \<times> nat) option" where
  "do_with_left_node_not_null t node = do {
     (t, sibling) \<leftarrow> erase_left_red t node;
     erase_left_black t node sibling
   }"

definition erase_right_red :: "('k, 'v) rb_tree \<Rightarrow> nat \<Rightarrow> (('k, 'v) rb_tree \<times> nat) option" where
  "erase_right_red t node = do {
     n \<leftarrow> heap t node;
     let parent = nparent n;
     p \<leftarrow> heap t parent;
     let sibling = nleft p;
     s \<leftarrow> heap t sibling;
     if colour s = RED then do {
       t \<leftarrow> set_colour sibling BLACK t;
       t \<leftarrow> set_colour parent RED t;
       t \<leftarrow> right_rot t parent;
       n \<leftarrow> heap t node;
       p \<leftarrow> heap t (nparent n);
       Some (t, nleft p)
     } else Some (t, sibling)
   }"

definition erase_right_black :: "('k, 'v) rb_tree \<Rightarrow> nat \<Rightarrow> nat \<Rightarrow> (('k, 'v) rb_tree \<times> nat) option" where
  "erase_right_black t node sibling = do {
     s \<leftarrow> heap t sibling;
     near \<leftarrow> black_or_nil t (nright s);
     far \<leftarrow> (if near then black_or_nil t (nleft s) else Some False);
     if near \<and> far then do {
       t \<leftarrow> set_colour sibling RED t;
       n \<leftarrow> heap t node;
       Some (t, nparent n)
     } else do {
       far \<leftarrow> black_or_nil t (nleft s);
       (t, sibling) \<leftarrow> (if far then do {
           t \<leftarrow> set_colour sibling RED t;
           s \<leftarrow> heap t sibling;
           t \<leftarrow> set_colour (nright s) BLACK t;
           t \<leftarrow> left_rot t sibling;
           n \<leftarrow> heap t node;
           p \<leftarrow> heap t (nparent n);
           Some (t, nleft p)
         } else Some (t, sibling));
       n \<leftarrow> heap t node;
       p \<leftarrow> heap t (nparent n);
       t \<leftarrow> set_colour sibling (colour p) t;
       t \<leftarrow> set_colour (nparent n) BLACK t;
       s \<leftarrow> heap t sibling;
       t \<leftarrow> set_colour (nleft s) BLACK t;
       t \<leftarrow> right_rot t (nparent n);
       Some (t, rb_root t)
     }
   }"

definition do_with_left_node_null :: "('k, 'v) rb_tree \<Rightarrow> nat \<Rightarrow> (('k, 'v) rb_tree \<times> nat) option" where
  "do_with_left_node_null t node = do {
     (t, sibling) \<leftarrow> erase_right_red t node;
     erase_right_black t node sibling
   }"

partial_function (option) rbtree_erase_fixup :: "('k, 'v) rb_tree \<Rightarrow> nat \<Rightarrow> ('k, 'v) rb_tree option" where
  "rbtree_erase_fixup t node = do {
     black \<leftarrow> black_or_nil t node;
     if black \<and> node \<noteq> rb_root t then do {
       n \<leftarrow> heap t node;
       p \<leftarrow> heap t (nparent n);
       x \<leftarrow> (if node = nleft p then do_with_left_node_not_null t node else do_with_left_node_null t node);
       rbtree_erase_fixup (fst x) (snd x)
     } else if node \<noteq> 0 then set_colour node BLACK t
     else Some t
   }"

definition rbtree_transplant :: "('k, 'v) rb_tree \<Rightarrow> nat \<Rightarrow> nat \<Rightarrow> ('k, 'v) rb_tree option" where
  "rbtree_transplant t u v = do {
     un \<leftarrow> heap t u;
     t \<leftarrow> (if nparent un = rb_nil t then Some (t\<lparr>rb_root := v\<rparr>)
          else do {
            p \<leftarrow> heap t (nparent un);
            if u = nleft p then set_left (nparent un) v t else set_right (nparent un) v t
          });
     un \<leftarrow> heap t u;
     set_parent v (nparent un) t
   }"

text \<open>Putting \<open>y\<close> in the place of the node with two children.\<close>

definition erase_relink :: "('k, 'v) rb_tree \<Rightarrow> nat \<Rightarrow> nat \<Rightarrow> ('k, 'v) rb_tree option" where
  "erase_relink t node y = do {
     t \<leftarrow> rbtree_transplant t node y;
     n \<leftarrow> heap t node;
     t \<leftarrow> set_left y (nleft n) t;
     yn \<leftarrow> heap t y;
     t \<leftarrow> set_parent (nleft yn) y t;
     n \<leftarrow> heap t node;
     set_colour y (colour n) t
   }"

text \<open>The unlinking part of \<open>rbtree_erase\<close>, before the fix-up: the tree, \<open>x\<close> and \<open>y_original_colour\<close>.\<close>

definition erase_unlink :: "('k, 'v) rb_tree \<Rightarrow> nat \<Rightarrow> (('k, 'v) rb_tree \<times> nat \<times> rbtree_colour) option" where
  "erase_unlink t node = do {
     n \<leftarrow> heap t node;
     if nleft n = rb_nil t then do {
       t \<leftarrow> rbtree_transplant t node (nright n);
       Some (t, nright n, colour n)
     } else if nright n = rb_nil t then do {
       t \<leftarrow> rbtree_transplant t node (nleft n);
       Some (t, nleft n, colour n)
     } else do {
       y \<leftarrow> rbtree_minimum t (nright n);
       yn \<leftarrow> heap t y;
       let x = nright yn;
       t \<leftarrow> (if nparent yn = node then set_parent x y t
            else do {
              t \<leftarrow> rbtree_transplant t y (nright yn);
              n \<leftarrow> heap t node;
              t \<leftarrow> set_right y (nright n) t;
              yn \<leftarrow> heap t y;
              set_parent (nright yn) y t
            });
       t \<leftarrow> erase_relink t node y;
       Some (t, x, colour yn)
     }
   }"

definition rbtree_erase :: "bool \<Rightarrow> ('k, 'v) rb_tree \<Rightarrow> nat \<Rightarrow> (('k, 'v) frees \<times> ('k, 'v) rb_tree) option" where
  "rbtree_erase fr t node = do {
     (t, x, c) \<leftarrow> erase_unlink t node;
     t \<leftarrow> (if c = BLACK then rbtree_erase_fixup t x else Some t);
     n \<leftarrow> heap t node;
     t \<leftarrow> free_node node t;
     Some ((if fr then [(nkey n, nvalue n)] else []), t)
   }"

definition rbtree_remove ::
    "('k \<Rightarrow> 'k \<Rightarrow> int) \<Rightarrow> bool \<Rightarrow> ('k, 'v) rb_tree option \<Rightarrow> 'k option \<Rightarrow> (bool \<times> ('k, 'v) frees \<times> ('k, 'v) rb_tree option) option" where
  "rbtree_remove cmp fr tree key =
     (case (tree, key) of
        (Some t, Some k) \<Rightarrow> do {
          node \<leftarrow> rbtree_find cmp tree key;
          if node = rb_nil t then Some (False, [], tree)
          else do { (fs, t) \<leftarrow> rbtree_erase fr t node; Some (True, fs, Some t) }
        }
      | _ \<Rightarrow> Some (False, [], tree))"

subsection \<open>Size and iteration\<close>

partial_function (option) number_of_nodes :: "('k, 'v) rb_tree \<Rightarrow> nat \<Rightarrow> nat option" where
  "number_of_nodes t node =
     (if node = rb_nil t then Some 0
      else do {
        n \<leftarrow> heap t node;
        l \<leftarrow> number_of_nodes t (nleft n);
        r \<leftarrow> number_of_nodes t (nright n);
        Some (1 + l + r)
      })"

definition rbtree_size :: "('k, 'v) rb_tree option \<Rightarrow> nat option" where
  "rbtree_size tree = (case tree of None \<Rightarrow> Some 0 | Some t \<Rightarrow> number_of_nodes t (rb_root t))"

text \<open>The iterator operations that move return the iterator too.\<close>

definition rbtree_iterator_first :: "('k, 'v) rb_iterator option \<Rightarrow> (bool \<times> ('k, 'v) rb_iterator option) option" where
  "rbtree_iterator_first itor =
     (case itor of
        None \<Rightarrow> Some (False, None)
      | Some i \<Rightarrow> do {
          a \<leftarrow> rbtree_minimum (itor_tree i) (rb_root (itor_tree i));
          Some (a \<noteq> rb_nil (itor_tree i), Some (i\<lparr>itor_node := a\<rparr>))
        })"

definition rbtree_iterator_last :: "('k, 'v) rb_iterator option \<Rightarrow> (bool \<times> ('k, 'v) rb_iterator option) option" where
  "rbtree_iterator_last itor =
     (case itor of
        None \<Rightarrow> Some (False, None)
      | Some i \<Rightarrow> do {
          a \<leftarrow> rbtree_maximum (itor_tree i) (rb_root (itor_tree i));
          Some (a \<noteq> rb_nil (itor_tree i), Some (i\<lparr>itor_node := a\<rparr>))
        })"

definition rbtree_iterator_new :: "bool \<Rightarrow> ('k, 'v) rb_tree option \<Rightarrow> ('k, 'v) rb_iterator option option" where
  "rbtree_iterator_new calloc tree =
     (case tree of
        None \<Rightarrow> Some None
      | Some t \<Rightarrow>
          if \<not> calloc then Some None
          else do { (b, i) \<leftarrow> rbtree_iterator_first (Some \<lparr>itor_tree = t, itor_node = 0\<rparr>); Some i })"

definition rbtree_iterator_valid :: "('k, 'v) rb_iterator option \<Rightarrow> bool" where
  "rbtree_iterator_valid itor = (case itor of None \<Rightarrow> False | Some i \<Rightarrow> itor_node i \<noteq> rb_nil (itor_tree i))"

partial_function (option) successor_up :: "('k, 'v) rb_tree \<Rightarrow> nat \<Rightarrow> nat \<Rightarrow> nat option" where
  "successor_up t node successor =
     (if successor = rb_nil t then Some successor
      else do {
        s \<leftarrow> heap t successor;
        if node = nright s then successor_up t successor (nparent s) else Some successor
      })"

definition rbtree_successor :: "('k, 'v) rb_tree \<Rightarrow> nat \<Rightarrow> nat option" where
  "rbtree_successor t node =
     (if node = 0 then Some 0
      else do {
        n \<leftarrow> heap t node;
        if nright n \<noteq> rb_nil t then rbtree_minimum t (nright n) else successor_up t node (nparent n)
      })"

partial_function (option) predecessor_up :: "('k, 'v) rb_tree \<Rightarrow> nat \<Rightarrow> nat \<Rightarrow> nat option" where
  "predecessor_up t node predecessor =
     (if predecessor = rb_nil t then Some predecessor
      else do {
        s \<leftarrow> heap t predecessor;
        if node = nleft s then predecessor_up t predecessor (nparent s) else Some predecessor
      })"

definition rbtree_predecessor :: "('k, 'v) rb_tree \<Rightarrow> nat \<Rightarrow> nat option" where
  "rbtree_predecessor t node = do {
     n \<leftarrow> heap t node;
     if nleft n \<noteq> rb_nil t then rbtree_maximum t (nleft n) else predecessor_up t node (nparent n)
   }"

definition rbtree_iterator_next :: "('k, 'v) rb_iterator option \<Rightarrow> (bool \<times> ('k, 'v) rb_iterator option) option" where
  "rbtree_iterator_next itor =
     (case itor of
        None \<Rightarrow> Some (False, None)
      | Some i \<Rightarrow>
          if itor_node i = rb_nil (itor_tree i) then Some (False, itor)
          else do {
            a \<leftarrow> rbtree_successor (itor_tree i) (itor_node i);
            Some (a \<noteq> rb_nil (itor_tree i), Some (i\<lparr>itor_node := a\<rparr>))
          })"

definition rbtree_iterator_prev :: "('k, 'v) rb_iterator option \<Rightarrow> (bool \<times> ('k, 'v) rb_iterator option) option" where
  "rbtree_iterator_prev itor =
     (case itor of
        None \<Rightarrow> Some (False, None)
      | Some i \<Rightarrow>
          if itor_node i = rb_nil (itor_tree i) then Some (False, itor)
          else do {
            a \<leftarrow> rbtree_predecessor (itor_tree i) (itor_node i);
            Some (a \<noteq> rb_nil (itor_tree i), Some (i\<lparr>itor_node := a\<rparr>))
          })"

definition rbtree_iterator_key :: "('k, 'v) rb_iterator option \<Rightarrow> 'k option option" where
  "rbtree_iterator_key itor =
     (case itor of
        None \<Rightarrow> Some None
      | Some i \<Rightarrow>
          if itor_node i = 0 then Some None
          else do { n \<leftarrow> heap (itor_tree i) (itor_node i); Some (nkey n) })"

definition rbtree_iterator_value :: "('k, 'v) rb_iterator option \<Rightarrow> 'v option option" where
  "rbtree_iterator_value itor =
     (case itor of
        None \<Rightarrow> Some None
      | Some i \<Rightarrow>
          if itor_node i = 0 then Some None
          else do { n \<leftarrow> heap (itor_tree i) (itor_node i); Some (nvalue n) })"

end
