(* ===== verification/RB_Heap.thy ===== *)
theory RB_Heap
  imports RB_Tree "HOL-Library.Multiset"
begin

text \<open>
  Which functional tree a heap of nodes represents, with a focus: a path of frames from a subtree up
  to the root.  Reading a node, colouring it and rotating it are proved here once, at the focus; the
  fix-up proofs move the focus and use these facts, without looking at the heap again.
\<close>

subsection \<open>Trees, frames and the heap\<close>

datatype ('k, 'v) rbt = Lf | Nd "('k, 'v) rbt" nat rbtree_colour 'k 'v "('k, 'v) rbt"

text \<open>\<open>LF\<close>: the focus is the left child, and the tree is the right one; \<open>RF\<close>: the other way round.\<close>

datatype ('k, 'v) frame =
    LF nat rbtree_colour 'k 'v "('k, 'v) rbt"
  | RF "('k, 'v) rbt" nat rbtree_colour 'k 'v

fun plug :: "('k, 'v) frame list \<Rightarrow> ('k, 'v) rbt \<Rightarrow> ('k, 'v) rbt" where
  "plug [] x = x"
| "plug (LF a c k v r # fs) x = plug fs (Nd x a c k v r)"
| "plug (RF l a c k v # fs) x = plug fs (Nd l a c k v x)"

fun addrs :: "('k, 'v) rbt \<Rightarrow> nat list" where
  "addrs Lf = []"
| "addrs (Nd l a c k v r) = addrs l @ a # addrs r"

fun caddrs :: "('k, 'v) frame list \<Rightarrow> nat list" where
  "caddrs [] = []"
| "caddrs (LF a c k v r # fs) = a # addrs r @ caddrs fs"
| "caddrs (RF l a c k v # fs) = a # addrs l @ caddrs fs"

fun entries :: "('k, 'v) rbt \<Rightarrow> ('k \<times> 'v) list" where
  "entries Lf = []"
| "entries (Nd l a c k v r) = entries l @ (k, v) # entries r"

fun ptr :: "nat \<Rightarrow> ('k, 'v) rbt \<Rightarrow> nat" where
  "ptr nl Lf = nl"
| "ptr nl (Nd l a c k v r) = a"

fun cpar :: "nat \<Rightarrow> ('k, 'v) frame list \<Rightarrow> nat" where
  "cpar nl [] = nl"
| "cpar nl (LF a c k v r # fs) = a"
| "cpar nl (RF l a c k v # fs) = a"

abbreviation cell :: "rbtree_colour \<Rightarrow> 'k \<Rightarrow> 'v \<Rightarrow> nat \<Rightarrow> nat \<Rightarrow> nat \<Rightarrow> ('k, 'v) rb_node" where
  "cell c k v l r p \<equiv> \<lparr>nkey = Some k, nvalue = Some v, colour = c, nleft = l, nright = r, nparent = p\<rparr>"

fun tr :: "(nat \<rightharpoonup> ('k, 'v) rb_node) \<Rightarrow> nat \<Rightarrow> nat \<Rightarrow> ('k, 'v) rbt \<Rightarrow> bool" where
  "tr h nl par Lf = True"
| "tr h nl par (Nd l a c k v r) =
     (h a = Some (cell c k v (ptr nl l) (ptr nl r) par) \<and> tr h nl a l \<and> tr h nl a r)"

fun ctr :: "(nat \<rightharpoonup> ('k, 'v) rb_node) \<Rightarrow> nat \<Rightarrow> nat \<Rightarrow> ('k, 'v) frame list \<Rightarrow> bool" where
  "ctr h nl q [] = True"
| "ctr h nl q (LF a c k v r # fs) =
     (h a = Some (cell c k v q (ptr nl r) (cpar nl fs)) \<and> tr h nl a r \<and> ctr h nl a fs)"
| "ctr h nl q (RF l a c k v # fs) =
     (h a = Some (cell c k v (ptr nl l) q (cpar nl fs)) \<and> tr h nl a l \<and> ctr h nl a fs)"

text \<open>
  \<open>zrep nl t fs x nn X\<close>: with the sentinel \<open>nl\<close> holding \<open>nn\<close>, the tree \<open>t\<close> represents \<open>plug fs x\<close>,
  and \<open>X\<close> is the rest of its heap.
\<close>

definition zrep ::
    "nat \<Rightarrow> ('k, 'v) rb_tree \<Rightarrow> ('k, 'v) frame list \<Rightarrow> ('k, 'v) rbt \<Rightarrow> ('k, 'v) rb_node \<Rightarrow> (nat \<rightharpoonup> ('k, 'v) rb_node) \<Rightarrow> bool" where
  "zrep nl t fs x nn X \<longleftrightarrow>
     rb_nil t = nl \<and> rb_root t = ptr nl (plug fs x) \<and> heap t nl = Some nn \<and> nl \<noteq> 0 \<and>
     ctr (heap t) nl (ptr nl x) fs \<and> tr (heap t) nl (cpar nl fs) x \<and>
     distinct (addrs x @ caddrs fs) \<and> nl \<notin> set (addrs x @ caddrs fs) \<and> 0 \<notin> set (addrs x @ caddrs fs) \<and>
     (\<forall>a. a \<notin> set (addrs x @ caddrs fs) \<longrightarrow> a \<noteq> nl \<longrightarrow> heap t a = X a) \<and>
     X nl = None \<and> (\<forall>a \<in> set (addrs x @ caddrs fs). X a = None)"

lemma plug_append [simp]: "plug (fs @ gs) x = plug gs (plug fs x)"
  by (induction fs x rule: plug.induct) auto

lemma addrs_plug: "set (addrs (plug fs x)) = set (addrs x) \<union> set (caddrs fs)"
  by (induction fs x rule: plug.induct) auto

lemma caddrs_append [simp]: "caddrs (fs @ gs) = caddrs fs @ caddrs gs"
  by (induction fs rule: caddrs.induct) auto

lemma plug_ne_Lf: "x \<noteq> Lf \<Longrightarrow> plug fs x \<noteq> Lf"
  by (induction fs x rule: plug.induct) auto

lemma zrep_LF: "zrep nl t (LF a c k v r # fs) x nn X \<longleftrightarrow> zrep nl t fs (Nd x a c k v r) nn X"
  by (auto simp: zrep_def)

lemma zrep_RF: "zrep nl t (RF l a c k v # fs) x nn X \<longleftrightarrow> zrep nl t fs (Nd l a c k v x) nn X"
  by (auto simp: zrep_def)

lemma zrep_plug: "zrep nl t (gs @ fs) x nn X \<longleftrightarrow> zrep nl t fs (plug gs x) nn X"
  by (induction gs x rule: plug.induct) (simp_all add: zrep_LF zrep_RF)

lemma zrep_top: "zrep nl t fs x nn X \<longleftrightarrow> zrep nl t [] (plug fs x) nn X"
  using zrep_plug [where gs = fs and fs = "[]"] by simp

text \<open>Writing outside a tree or a context does not change what they represent.\<close>

lemma tr_frame [simp]: "a \<notin> set (addrs x) \<Longrightarrow> tr (h(a := n)) nl par x = tr h nl par x"
  by (induction x arbitrary: par) auto

lemma ctr_frame [simp]: "a \<notin> set (caddrs fs) \<Longrightarrow> ctr (h(a := n)) nl q fs = ctr h nl q fs"
  by (induction fs arbitrary: q rule: caddrs.induct) auto

lemma tr_cong: "(\<And>a. a \<in> set (addrs x) \<Longrightarrow> h a = h' a) \<Longrightarrow> tr h nl par x = tr h' nl par x"
  by (induction x arbitrary: par) auto

subsection \<open>Reading\<close>

lemma zrep_focus:
  "zrep nl t fs (Nd l a c k v r) nn X \<Longrightarrow> heap t a = Some (cell c k v (ptr nl l) (ptr nl r) (cpar nl fs))"
  by (simp add: zrep_def)

lemma zrep_nil: "zrep nl t fs x nn X \<Longrightarrow> heap t nl = Some nn \<and> rb_nil t = nl \<and> nl \<noteq> 0"
  by (simp add: zrep_def)

lemma zrep_root: "zrep nl t fs x nn X \<Longrightarrow> rb_root t = ptr nl (plug fs x)"
  by (simp add: zrep_def)

lemma zrep_ne:
  "zrep nl t fs (Nd l a c k v r) nn X \<Longrightarrow> a \<noteq> nl \<and> a \<noteq> 0"
  by (auto simp: zrep_def)

lemma ptr_in: "x \<noteq> Lf \<Longrightarrow> ptr nl x \<in> set (addrs x)"
  by (cases x) auto

lemma zrep_ptr_nil: "zrep nl t fs x nn X \<Longrightarrow> ptr nl x = nl \<longleftrightarrow> x = Lf"
  using ptr_in [of x nl] by (cases x) (auto simp: zrep_def)

subsection \<open>Writing at the focus\<close>

lemma ptr_plug: "ptr nl x = ptr nl y \<Longrightarrow> ptr nl (plug fs x) = ptr nl (plug fs y)"
  by (induction fs arbitrary: x y rule: caddrs.induct) auto

lemma ptr_plug_Cons: "fs \<noteq> [] \<Longrightarrow> ptr nl (plug fs x) = ptr nl (plug fs y)"
  by (cases fs rule: caddrs.cases) (auto intro: ptr_plug)

lemma zrep_upd:
  assumes "zrep nl t fs (Nd l a c k v r) nn X"
    and "\<And>c k v l r p. f (cell c k v l r p) = cell (fc c) k (fv v) l r p"
  shows "\<exists>t'. upd_node a f t = Some t' \<and> zrep nl t' fs (Nd l a (fc c) k (fv v) r) nn X"
  using assms ptr_plug [of nl "Nd l a c k v r" "Nd l a (fc c) k (fv v) r" fs]
  by (auto simp: upd_node_def zrep_def)

lemma zrep_colour:
  "zrep nl t fs (Nd l a c k v r) nn X \<Longrightarrow> \<exists>t'. set_colour a c' t = Some t' \<and> zrep nl t' fs (Nd l a c' k v r) nn X"
  by (rule zrep_upd [where fc = "\<lambda>_. c'" and fv = "\<lambda>v. v"]) auto

lemma zrep_value:
  "zrep nl t fs (Nd l a c k v r) nn X \<Longrightarrow>
   \<exists>t'. upd_node a (nvalue_update (\<lambda>_. Some v')) t = Some t' \<and> zrep nl t' fs (Nd l a c k v' r) nn X"
  by (rule zrep_upd [where fc = "\<lambda>c. c" and fv = "\<lambda>_. v'"]) auto

lemma upd_Some: "heap t p = Some n \<Longrightarrow> upd_node p f t = Some (t\<lparr>heap := (heap t)(p \<mapsto> f n)\<rparr>)"
  by (simp add: upd_node_def)

lemma ptr_cases: "ptr nl x = nl \<or> ptr nl x \<in> set (addrs x)"
  by (cases x) auto

lemma ptr_neq [simp]: "a \<notin> set (addrs x) \<Longrightarrow> a \<noteq> nl \<Longrightarrow> a \<noteq> ptr nl x" "a \<notin> set (addrs x) \<Longrightarrow> a \<noteq> nl \<Longrightarrow> ptr nl x \<noteq> a"
  using ptr_cases [of nl x] by auto

lemma cpar_cases: "cpar nl fs = nl \<or> cpar nl fs \<in> set (caddrs fs)"
  by (cases fs rule: caddrs.cases) auto

lemma zrep_ptr_cell:
  "zrep nl t fs x nn X \<Longrightarrow> heap t (ptr nl x) = Some (the (heap t (ptr nl x)))"
  by (cases x) (simp_all add: zrep_def)

lemma zrep_cpar_cell:
  "zrep nl t fs x nn X \<Longrightarrow> heap t (cpar nl fs) = Some (the (heap t (cpar nl fs)))"
  by (cases fs rule: caddrs.cases) (simp_all add: zrep_def)

lemma left_rot_eval:
  assumes "heap t a = Some (cell c k v l b p)" "heap t b = Some (cell c' k' v' m r a)" "a \<noteq> b"
    and "heap t m = Some mn" "m \<noteq> a" "m \<noteq> b"
    and "heap t p = Some pn" "p \<noteq> a" "p \<noteq> b" "p \<noteq> rb_nil t \<longrightarrow> p \<noteq> m"
  shows "left_rot t a = Some (t\<lparr>rb_root := if p = rb_nil t then b else rb_root t,
     heap := (let h = (heap t)(a \<mapsto> cell c k v l m b, b \<mapsto> cell c' k' v' a r p);
                  h = (if m = rb_nil t then h else h(m \<mapsto> mn\<lparr>nparent := a\<rparr>))
              in if p = rb_nil t then h else if a = nleft pn then h(p \<mapsto> pn\<lparr>nleft := b\<rparr>) else h(p \<mapsto> pn\<lparr>nright := b\<rparr>))\<rparr>)"
  using assms by (cases "m = rb_nil t"; cases "p = rb_nil t") (simp_all add: left_rot_def upd_Some Let_def fun_upd_twist)

lemma zrep_left_rot:
  assumes z: "zrep nl t fs (Nd l a c k v (Nd m b c' k' v' r)) nn X"
  shows "\<exists>t'. left_rot t a = Some t' \<and> zrep nl t' fs (Nd (Nd l a c k v m) b c' k' v' r) nn X"
proof -
  have rt: "ptr nl (plug fs (Nd (Nd l a c k v m) b c' k' v' r)) = (if fs = [] then b else rb_root t)"
    using z ptr_plug_Cons [of fs nl "Nd l a c k v (Nd m b c' k' v' r)" "Nd (Nd l a c k v m) b c' k' v' r"]
    by (auto simp: zrep_def)
  have d: "a \<noteq> b" "ptr nl m \<noteq> a" "ptr nl m \<noteq> b" "cpar nl fs \<noteq> a" "cpar nl fs \<noteq> b"
    "cpar nl fs \<noteq> rb_nil t \<longrightarrow> cpar nl fs \<noteq> ptr nl m"
    using z cpar_cases [of nl fs] ptr_cases [of nl m] by (auto simp: zrep_def)
  have m: "zrep nl t (LF b c' k' v' r # RF l a c k v # fs) m nn X" using z by (simp add: zrep_LF zrep_RF)
  have b: "zrep nl t (RF l a c k v # fs) (Nd m b c' k' v' r) nn X" using z by (simp add: zrep_LF zrep_RF)
  from zrep_focus [OF b] have b': "heap t b = Some (cell c' k' v' (ptr nl m) (ptr nl r) a)" by simp
  from zrep_focus [OF z] have a': "heap t a = Some (cell c k v (ptr nl l) b (cpar nl fs))" by simp
  note eval = left_rot_eval [OF a' b' d(1) zrep_ptr_cell [OF m] d(2,3) zrep_cpar_cell [OF z] d(4-6)]
  show ?thesis using z rt unfolding eval
    by (cases m; cases fs rule: caddrs.cases; clarsimp simp: zrep_def Let_def)
qed

lemma right_rot_eval:
  assumes "heap t a = Some (cell c k v b r p)" "heap t b = Some (cell c' k' v' l m a)" "a \<noteq> b"
    and "heap t m = Some mn" "m \<noteq> a" "m \<noteq> b"
    and "heap t p = Some pn" "p \<noteq> a" "p \<noteq> b" "p \<noteq> rb_nil t \<longrightarrow> p \<noteq> m"
  shows "right_rot t a = Some (t\<lparr>rb_root := if p = rb_nil t then b else rb_root t,
     heap := (let h = (heap t)(a \<mapsto> cell c k v m r b, b \<mapsto> cell c' k' v' l a p);
                  h = (if m = rb_nil t then h else h(m \<mapsto> mn\<lparr>nparent := a\<rparr>))
              in if p = rb_nil t then h else if a = nright pn then h(p \<mapsto> pn\<lparr>nright := b\<rparr>) else h(p \<mapsto> pn\<lparr>nleft := b\<rparr>))\<rparr>)"
  using assms by (cases "m = rb_nil t"; cases "p = rb_nil t") (simp_all add: right_rot_def upd_Some Let_def fun_upd_twist)

lemma zrep_right_rot:
  assumes z: "zrep nl t fs (Nd (Nd l b c' k' v' m) a c k v r) nn X"
  shows "\<exists>t'. right_rot t a = Some t' \<and> zrep nl t' fs (Nd l b c' k' v' (Nd m a c k v r)) nn X"
proof -
  have rt: "ptr nl (plug fs (Nd l b c' k' v' (Nd m a c k v r))) = (if fs = [] then b else rb_root t)"
    using z ptr_plug_Cons [of fs nl "Nd (Nd l b c' k' v' m) a c k v r" "Nd l b c' k' v' (Nd m a c k v r)"]
    by (auto simp: zrep_def)
  have d: "a \<noteq> b" "ptr nl m \<noteq> a" "ptr nl m \<noteq> b" "cpar nl fs \<noteq> a" "cpar nl fs \<noteq> b"
    "cpar nl fs \<noteq> rb_nil t \<longrightarrow> cpar nl fs \<noteq> ptr nl m"
    using z cpar_cases [of nl fs] ptr_cases [of nl m] by (auto simp: zrep_def)
  have m: "zrep nl t (RF l b c' k' v' # LF a c k v r # fs) m nn X" using z by (simp add: zrep_LF zrep_RF)
  have b: "zrep nl t (LF a c k v r # fs) (Nd l b c' k' v' m) nn X" using z by (simp add: zrep_LF zrep_RF)
  from zrep_focus [OF b] have b': "heap t b = Some (cell c' k' v' (ptr nl l) (ptr nl m) a)" by simp
  from zrep_focus [OF z] have a': "heap t a = Some (cell c k v b (ptr nl r) (cpar nl fs))" by simp
  note eval = right_rot_eval [OF a' b' d(1) zrep_ptr_cell [OF m] d(2,3) zrep_cpar_cell [OF z] d(4-6)]
  show ?thesis using z rt unfolding eval
    by (cases m; cases fs rule: caddrs.cases; clarsimp simp: zrep_def Let_def)
qed

end
