(* ===== verification/RB_Insert.thy ===== *)
theory RB_Insert
  imports RB_Heap
begin

text \<open>
  The colour invariant of the tree, and the proof that \<open>rbtree_insert_fixup\<close> ends, follows no bad
  pointer, keeps the entries and restores the invariant.
\<close>

subsection \<open>The colour invariant\<close>

fun col :: "('k, 'v) rbt \<Rightarrow> rbtree_colour" where
  "col Lf = BLACK"
| "col (Nd l a c k v r) = c"

fun ccol :: "('k, 'v) frame list \<Rightarrow> rbtree_colour" where
  "ccol [] = RED"
| "ccol (LF a c k v r # fs) = c"
| "ccol (RF l a c k v # fs) = c"

text \<open>\<open>bal n x\<close>: every path of \<open>x\<close> has \<open>n\<close> black nodes and no two red ones in a row; \<open>cbal n fs\<close>: the
  context is right for a subtree of black height \<open>n\<close>.\<close>

fun bal :: "nat \<Rightarrow> ('k, 'v) rbt \<Rightarrow> bool" where
  "bal n Lf \<longleftrightarrow> n = 0"
| "bal n (Nd l a RED k v r) \<longleftrightarrow> col l = BLACK \<and> col r = BLACK \<and> bal n l \<and> bal n r"
| "bal n (Nd l a BLACK k v r) \<longleftrightarrow> 0 < n \<and> bal (n - 1) l \<and> bal (n - 1) r"

fun cbal :: "nat \<Rightarrow> ('k, 'v) frame list \<Rightarrow> bool" where
  "cbal n [] \<longleftrightarrow> True"
| "cbal n (LF a RED k v r # fs) \<longleftrightarrow> col r = BLACK \<and> bal n r \<and> ccol fs = BLACK \<and> cbal n fs"
| "cbal n (LF a BLACK k v r # fs) \<longleftrightarrow> bal n r \<and> cbal (Suc n) fs"
| "cbal n (RF l a RED k v # fs) \<longleftrightarrow> col l = BLACK \<and> bal n l \<and> ccol fs = BLACK \<and> cbal n fs"
| "cbal n (RF l a BLACK k v # fs) \<longleftrightarrow> bal n l \<and> cbal (Suc n) fs"

definition rb_ok :: "('k, 'v) rbt \<Rightarrow> bool" where
  "rb_ok x \<longleftrightarrow> col x = BLACK \<and> (\<exists>n. bal n x)"

fun blacken :: "('k, 'v) rbt \<Rightarrow> ('k, 'v) rbt" where
  "blacken Lf = Lf"
| "blacken (Nd l a c k v r) = Nd l a BLACK k v r"

lemma colour_neq [simp]: "c \<noteq> RED \<longleftrightarrow> c = BLACK" "c \<noteq> BLACK \<longleftrightarrow> c = RED"
  by (cases c; simp)+

lemma bal_plug: "bal n x \<Longrightarrow> cbal n fs \<Longrightarrow> col x = BLACK \<or> ccol fs = BLACK \<Longrightarrow> rb_ok (plug fs x)"
proof (induction n fs arbitrary: x rule: cbal.induct)
  case (1 n)
  then show ?case by (auto simp: rb_ok_def)
qed simp_all

lemma plug_bal:
  "rb_ok (plug fs x) \<Longrightarrow> \<exists>n. bal n x \<and> cbal n fs \<and> (col x = BLACK \<or> ccol fs = BLACK)"
proof (induction fs arbitrary: x rule: caddrs.induct)
  case 1
  then show ?case by (auto simp: rb_ok_def)
next
  case (2 a c k v r fs)
  from 2 obtain n where "bal n (Nd x a c k v r)" "cbal n fs" "c = BLACK \<or> ccol fs = BLACK" by force
  then show ?case by (cases c; cases n) auto
next
  case (3 l a c k v fs)
  from 3 obtain n where "bal n (Nd l a c k v x)" "cbal n fs" "c = BLACK \<or> ccol fs = BLACK" by force
  then show ?case by (cases c; cases n) auto
qed

lemma rb_ok_blacken: "rb_ok x \<Longrightarrow> blacken x = x"
  by (cases x) (auto simp: rb_ok_def)

lemma entries_plug: "entries x = entries y \<Longrightarrow> entries (plug fs x) = entries (plug fs y)"
  by (induction fs arbitrary: x y rule: caddrs.induct) auto

lemma entries_blacken [simp]: "entries (blacken x) = entries x"
  by (cases x) auto

lemma zrep_col:
  "zrep nl t fs x nn X \<Longrightarrow> colour nn = BLACK \<Longrightarrow> \<exists>n. heap t (ptr nl x) = Some n \<and> colour n = col x"
  by (cases x) (simp_all add: zrep_def)

lemma zrep_ptr_0: "zrep nl t fs x nn X \<Longrightarrow> ptr nl x \<noteq> 0"
  by (cases x) (auto simp: zrep_def)

subsection \<open>The turns of the loop\<close>

lemma fixup_recolour_left:
  assumes z: "zrep nl t fs (Nd (Nd pl p RED kp vp pr) g BLACK kg vg (Nd ul u RED ku vu ur)) nn X"
    and n: "heap t a = Some n" "nparent n = p"
  shows "\<exists>t'. insert_fixup_left t a = Some (Inr (t', g)) \<and>
    zrep nl t' fs (Nd (Nd pl p BLACK kp vp pr) g RED kg vg (Nd ul u BLACK ku vu ur)) nn X"
proof -
  let ?U = "Nd ul u RED ku vu ur"
  have z1: "zrep nl t (LF g BLACK kg vg ?U # fs) (Nd pl p RED kp vp pr) nn X" using z by (simp add: zrep_LF)
  have z2: "zrep nl t (RF (Nd pl p RED kp vp pr) g BLACK kg vg # fs) ?U nn X" using z by (simp add: zrep_RF)
  obtain t1 where t1: "set_colour p BLACK t = Some t1" "zrep nl t1 (LF g BLACK kg vg ?U # fs) (Nd pl p BLACK kp vp pr) nn X"
    using zrep_colour [OF z1] by blast
  then have "zrep nl t1 (RF (Nd pl p BLACK kp vp pr) g BLACK kg vg # fs) ?U nn X" by (simp add: zrep_LF zrep_RF)
  from zrep_colour [OF this] obtain t2 where t2: "set_colour u BLACK t1 = Some t2"
    "zrep nl t2 (RF (Nd pl p BLACK kp vp pr) g BLACK kg vg # fs) (Nd ul u BLACK ku vu ur) nn X" by blast
  then have z3: "zrep nl t2 (LF g BLACK kg vg (Nd ul u BLACK ku vu ur) # fs) (Nd pl p BLACK kp vp pr) nn X"
    and "zrep nl t2 fs (Nd (Nd pl p BLACK kp vp pr) g BLACK kg vg (Nd ul u BLACK ku vu ur)) nn X"
    by (simp_all add: zrep_LF zrep_RF)
  from zrep_colour [OF this(2)] obtain t3 where t3: "set_colour g RED t2 = Some t3"
    "zrep nl t3 fs (Nd (Nd pl p BLACK kp vp pr) g RED kg vg (Nd ul u BLACK ku vu ur)) nn X" by blast
  then have z4: "zrep nl t3 (LF g RED kg vg (Nd ul u BLACK ku vu ur) # fs) (Nd pl p BLACK kp vp pr) nn X" by (simp add: zrep_LF)
  have "insert_fixup_left t a = Some (Inr (t3, g))"
    using n t1(1) t2(1) t3(1) zrep_focus [OF z] zrep_focus [OF z1] zrep_focus [OF z2] zrep_focus [OF z3] zrep_focus [OF z4]
      zrep_ne [OF z2] by (simp add: insert_fixup_left_def)
  with t3(2) show ?thesis by blast
qed

lemma fixup_recolour_right:
  assumes z: "zrep nl t fs (Nd (Nd ul u RED ku vu ur) g BLACK kg vg (Nd pl p RED kp vp pr)) nn X"
    and n: "heap t a = Some n" "nparent n = p"
  shows "\<exists>t'. insert_fixup_right t a = Some (Inr (t', g)) \<and>
    zrep nl t' fs (Nd (Nd ul u BLACK ku vu ur) g RED kg vg (Nd pl p BLACK kp vp pr)) nn X"
proof -
  let ?U = "Nd ul u RED ku vu ur"
  have z1: "zrep nl t (RF ?U g BLACK kg vg # fs) (Nd pl p RED kp vp pr) nn X" using z by (simp add: zrep_RF)
  have z2: "zrep nl t (LF g BLACK kg vg (Nd pl p RED kp vp pr) # fs) ?U nn X" using z by (simp add: zrep_LF)
  obtain t1 where t1: "set_colour p BLACK t = Some t1" "zrep nl t1 (RF ?U g BLACK kg vg # fs) (Nd pl p BLACK kp vp pr) nn X"
    using zrep_colour [OF z1] by blast
  then have "zrep nl t1 (LF g BLACK kg vg (Nd pl p BLACK kp vp pr) # fs) ?U nn X" by (simp add: zrep_LF zrep_RF)
  from zrep_colour [OF this] obtain t2 where t2: "set_colour u BLACK t1 = Some t2"
    "zrep nl t2 (LF g BLACK kg vg (Nd pl p BLACK kp vp pr) # fs) (Nd ul u BLACK ku vu ur) nn X" by blast
  then have z3: "zrep nl t2 (RF (Nd ul u BLACK ku vu ur) g BLACK kg vg # fs) (Nd pl p BLACK kp vp pr) nn X"
    and "zrep nl t2 fs (Nd (Nd ul u BLACK ku vu ur) g BLACK kg vg (Nd pl p BLACK kp vp pr)) nn X"
    by (simp_all add: zrep_LF zrep_RF)
  from zrep_colour [OF this(2)] obtain t3 where t3: "set_colour g RED t2 = Some t3"
    "zrep nl t3 fs (Nd (Nd ul u BLACK ku vu ur) g RED kg vg (Nd pl p BLACK kp vp pr)) nn X" by blast
  then have z4: "zrep nl t3 (RF (Nd ul u BLACK ku vu ur) g RED kg vg # fs) (Nd pl p BLACK kp vp pr) nn X" by (simp add: zrep_RF)
  have "insert_fixup_right t a = Some (Inr (t3, g))"
    using n t1(1) t2(1) t3(1) zrep_focus [OF z] zrep_focus [OF z1] zrep_focus [OF z2] zrep_focus [OF z3] zrep_focus [OF z4]
      zrep_ne [OF z2] by (simp add: insert_fixup_right_def)
  with t3(2) show ?thesis by blast
qed

text \<open>The recolouring and rotation that end a turn with a black uncle.\<close>

lemma fixup_rotate_right:
  assumes z: "zrep nl t fs (Nd (Nd (Nd l a c k v r) p RED kp vp s) g BLACK kg vg u) nn X"
  shows "\<exists>t1 t2 t3 n. heap t a = Some n \<and> nparent n = p \<and> set_colour p BLACK t = Some t1 \<and>
    (\<exists>m. heap t1 p = Some m \<and> nparent m = g) \<and> set_colour g RED t1 = Some t2 \<and>
    (\<exists>m. heap t2 p = Some m \<and> nparent m = g) \<and> right_rot t2 g = Some t3 \<and>
    zrep nl t3 fs (Nd (Nd l a c k v r) p BLACK kp vp (Nd s g RED kg vg u)) nn X"
proof -
  let ?A = "Nd l a c k v r"
  have za: "zrep nl t (LF p RED kp vp s # LF g BLACK kg vg u # fs) ?A nn X"
    and "zrep nl t (LF g BLACK kg vg u # fs) (Nd ?A p RED kp vp s) nn X" using z by (simp_all add: zrep_LF)
  from zrep_colour [OF this(2)] obtain t1 where t1: "set_colour p BLACK t = Some t1"
    and z1: "zrep nl t1 (LF g BLACK kg vg u # fs) (Nd ?A p BLACK kp vp s) nn X" by blast
  then have "zrep nl t1 fs (Nd (Nd ?A p BLACK kp vp s) g BLACK kg vg u) nn X" by (simp add: zrep_LF)
  from zrep_colour [OF this] obtain t2 where t2: "set_colour g RED t1 = Some t2"
    and z2: "zrep nl t2 fs (Nd (Nd ?A p BLACK kp vp s) g RED kg vg u) nn X" by blast
  then have z2': "zrep nl t2 (LF g RED kg vg u # fs) (Nd ?A p BLACK kp vp s) nn X" by (simp add: zrep_LF)
  from zrep_right_rot [OF z2] obtain t3 where "right_rot t2 g = Some t3"
    "zrep nl t3 fs (Nd ?A p BLACK kp vp (Nd s g RED kg vg u)) nn X" by blast
  with t1 t2 zrep_focus [OF za] zrep_focus [OF z1] zrep_focus [OF z2'] show ?thesis by auto
qed

lemma fixup_rotate_left:
  assumes z: "zrep nl t fs (Nd u g BLACK kg vg (Nd s p RED kp vp (Nd l a c k v r))) nn X"
  shows "\<exists>t1 t2 t3 n. heap t a = Some n \<and> nparent n = p \<and> set_colour p BLACK t = Some t1 \<and>
    (\<exists>m. heap t1 p = Some m \<and> nparent m = g) \<and> set_colour g RED t1 = Some t2 \<and>
    (\<exists>m. heap t2 p = Some m \<and> nparent m = g) \<and> left_rot t2 g = Some t3 \<and>
    zrep nl t3 fs (Nd (Nd u g RED kg vg s) p BLACK kp vp (Nd l a c k v r)) nn X"
proof -
  let ?A = "Nd l a c k v r"
  have za: "zrep nl t (RF s p RED kp vp # RF u g BLACK kg vg # fs) ?A nn X"
    and "zrep nl t (RF u g BLACK kg vg # fs) (Nd s p RED kp vp ?A) nn X" using z by (simp_all add: zrep_RF)
  from zrep_colour [OF this(2)] obtain t1 where t1: "set_colour p BLACK t = Some t1"
    and z1: "zrep nl t1 (RF u g BLACK kg vg # fs) (Nd s p BLACK kp vp ?A) nn X" by blast
  then have "zrep nl t1 fs (Nd u g BLACK kg vg (Nd s p BLACK kp vp ?A)) nn X" by (simp add: zrep_RF)
  from zrep_colour [OF this] obtain t2 where t2: "set_colour g RED t1 = Some t2"
    and z2: "zrep nl t2 fs (Nd u g RED kg vg (Nd s p BLACK kp vp ?A)) nn X" by blast
  then have z2': "zrep nl t2 (RF u g RED kg vg # fs) (Nd s p BLACK kp vp ?A) nn X" by (simp add: zrep_RF)
  from zrep_left_rot [OF z2] obtain t3 where "left_rot t2 g = Some t3"
    "zrep nl t3 fs (Nd (Nd u g RED kg vg s) p BLACK kp vp ?A) nn X" by blast
  with t1 t2 zrep_focus [OF za] zrep_focus [OF z1] zrep_focus [OF z2'] show ?thesis by auto
qed

lemma fixup_outer_left:
  assumes z: "zrep nl t fs (Nd (Nd (Nd l a c k v r) p RED kp vp s) g BLACK kg vg u) nn X"
    and "col u = BLACK" "colour nn = BLACK"
  shows "\<exists>t'. insert_fixup_left t a = Some (Inr (t', a)) \<and>
    zrep nl t' fs (Nd (Nd l a c k v r) p BLACK kp vp (Nd s g RED kg vg u)) nn X"
proof -
  let ?P = "Nd (Nd l a c k v r) p RED kp vp s"
  have zu: "zrep nl t (RF ?P g BLACK kg vg # fs) u nn X" and zp: "zrep nl t (LF g BLACK kg vg u # fs) ?P nn X"
    and zs: "zrep nl t (RF (Nd l a c k v r) p RED kp vp # LF g BLACK kg vg u # fs) s nn X"
    using z by (simp_all add: zrep_LF zrep_RF)
  obtain un where un: "heap t (ptr nl u) = Some un" "colour un = BLACK" using zrep_col [OF zu] assms by auto
  have "a \<noteq> ptr nl s" using z by (auto simp: zrep_def)
  with un fixup_rotate_right [OF z] zrep_focus [OF z] zrep_focus [OF zp] zrep_ptr_0 [OF zu]
  show ?thesis by (auto simp: insert_fixup_left_def)
qed

lemma fixup_outer_right:
  assumes z: "zrep nl t fs (Nd u g BLACK kg vg (Nd s p RED kp vp (Nd l a c k v r))) nn X"
    and "col u = BLACK" "colour nn = BLACK"
  shows "\<exists>t'. insert_fixup_right t a = Some (Inr (t', a)) \<and>
    zrep nl t' fs (Nd (Nd u g RED kg vg s) p BLACK kp vp (Nd l a c k v r)) nn X"
proof -
  let ?P = "Nd s p RED kp vp (Nd l a c k v r)"
  have zu: "zrep nl t (LF g BLACK kg vg ?P # fs) u nn X" and zp: "zrep nl t (RF u g BLACK kg vg # fs) ?P nn X"
    using z by (simp_all add: zrep_LF zrep_RF)
  obtain un where un: "heap t (ptr nl u) = Some un" "colour un = BLACK" using zrep_col [OF zu] assms by auto
  have "a \<noteq> ptr nl s" using z by (auto simp: zrep_def)
  with un fixup_rotate_left [OF z] zrep_focus [OF z] zrep_focus [OF zp] zrep_ptr_0 [OF zu]
  show ?thesis by (auto simp: insert_fixup_right_def)
qed

lemma fixup_inner_left:
  assumes z: "zrep nl t fs (Nd (Nd s p RED kp vp (Nd l a c k v r)) g BLACK kg vg u) nn X"
    and "c = RED" "col u = BLACK" "colour nn = BLACK"
  shows "\<exists>t'. insert_fixup_left t a = Some (Inr (t', p)) \<and>
    zrep nl t' fs (Nd (Nd s p RED kp vp l) a BLACK k v (Nd r g RED kg vg u)) nn X"
proof -
  let ?P = "Nd s p RED kp vp (Nd l a c k v r)"
  have zu: "zrep nl t (RF ?P g BLACK kg vg # fs) u nn X" and zp: "zrep nl t (LF g BLACK kg vg u # fs) ?P nn X"
    and za: "zrep nl t (RF s p RED kp vp # LF g BLACK kg vg u # fs) (Nd l a c k v r) nn X"
    using z by (simp_all add: zrep_LF zrep_RF)
  obtain un where un: "heap t (ptr nl u) = Some un" "colour un = BLACK" using zrep_col [OF zu] assms by auto
  obtain t1 where t1: "left_rot t p = Some t1" "zrep nl t1 (LF g BLACK kg vg u # fs) (Nd (Nd s p RED kp vp l) a c k v r) nn X"
    using zrep_left_rot [OF zp] by blast
  then have "zrep nl t1 fs (Nd (Nd (Nd s p RED kp vp l) a RED k v r) g BLACK kg vg u) nn X"
    using \<open>c = RED\<close> by (simp add: zrep_LF)
  from fixup_rotate_right [OF this] un t1 zrep_focus [OF z] zrep_focus [OF zp] zrep_focus [OF za] zrep_ptr_0 [OF zu]
  show ?thesis by (auto simp: insert_fixup_left_def)
qed

lemma fixup_inner_right:
  assumes z: "zrep nl t fs (Nd u g BLACK kg vg (Nd (Nd l a c k v r) p RED kp vp s)) nn X"
    and "c = RED" "col u = BLACK" "colour nn = BLACK"
  shows "\<exists>t'. insert_fixup_right t a = Some (Inr (t', p)) \<and>
    zrep nl t' fs (Nd (Nd u g RED kg vg l) a BLACK k v (Nd r p RED kp vp s)) nn X"
proof -
  let ?P = "Nd (Nd l a c k v r) p RED kp vp s"
  have zu: "zrep nl t (LF g BLACK kg vg ?P # fs) u nn X" and zp: "zrep nl t (RF u g BLACK kg vg # fs) ?P nn X"
    and za: "zrep nl t (LF p RED kp vp s # RF u g BLACK kg vg # fs) (Nd l a c k v r) nn X"
    using z by (simp_all add: zrep_LF zrep_RF)
  obtain un where un: "heap t (ptr nl u) = Some un" "colour un = BLACK" using zrep_col [OF zu] assms by auto
  obtain t1 where t1: "right_rot t p = Some t1" "zrep nl t1 (RF u g BLACK kg vg # fs) (Nd l a c k v (Nd r p RED kp vp s)) nn X"
    using zrep_right_rot [OF zp] by blast
  then have "zrep nl t1 fs (Nd u g BLACK kg vg (Nd l a RED k v (Nd r p RED kp vp s))) nn X"
    using \<open>c = RED\<close> by (simp add: zrep_RF)
  from fixup_rotate_left [OF this] un t1 zrep_focus [OF z] zrep_focus [OF zp] zrep_focus [OF za] zrep_ptr_0 [OF zu]
  show ?thesis by (auto simp: insert_fixup_right_def)
qed

subsection \<open>The loop\<close>

lemma insert_fixup_stop:
  assumes z: "zrep nl t fs (Nd l a c k v r) nn X" and nn: "colour nn = BLACK" and "fs = [] \<or> ccol fs = BLACK"
  shows "\<exists>t'. rbtree_insert_fixup t a = Some t' \<and> zrep nl t' [] (blacken (plug fs (Nd l a c k v r))) nn X"
proof -
  have "\<exists>p. heap t (cpar nl fs) = Some p \<and> colour p = BLACK"
    using assms by (cases fs rule: caddrs.cases) (auto simp: zrep_def)
  then have e: "rbtree_insert_fixup t a = set_colour (rb_root t) BLACK t"
    using zrep_focus [OF z] by (subst rbtree_insert_fixup.simps) auto
  obtain l' a' c' k' v' r' where T: "plug fs (Nd l a c k v r) = Nd l' a' c' k' v' r'"
    using plug_ne_Lf [of "Nd l a c k v r" fs] by (cases "plug fs (Nd l a c k v r)") auto
  with z have "zrep nl t [] (Nd l' a' c' k' v' r') nn X" "rb_root t = a'"
    by (simp_all add: zrep_top [of nl t fs] zrep_root)
  with zrep_colour [OF this(1), of BLACK] show ?thesis by (simp add: e T)
qed

text \<open>The result of a turn that ends the loop: the new node is red below a black node.\<close>

lemma insert_fixup_done:
  assumes "rbtree_insert_fixup t a = rbtree_insert_fixup t' b"
    and "zrep nl t' (gs @ fs) (Nd l b c k v r) nn X" "colour nn = BLACK" "ccol gs = BLACK"
    and "bal n (plug gs (Nd l b c k v r))" "cbal n fs" "col (plug gs (Nd l b c k v r)) = BLACK"
  shows "\<exists>t' T. rbtree_insert_fixup t a = Some t' \<and> zrep nl t' [] T nn X \<and>
    entries T = entries (plug fs (plug gs (Nd l b c k v r))) \<and> rb_ok T"
proof -
  have "ccol (gs @ fs) = BLACK" using assms(4) by (cases gs rule: ccol.cases) auto
  from insert_fixup_stop [OF assms(2,3)] this bal_plug [OF assms(5,6)] assms(1,7) show ?thesis
    by (force simp: rb_ok_blacken)
qed

lemma insert_fixup_turn:
  assumes z: "zrep nl t fs (Nd l a c k v r) nn X" and p: "heap t (cpar nl fs) = Some p" "colour p = RED"
    and g: "heap t (nparent p) = Some g"
    and "(if cpar nl fs = nleft g then insert_fixup_left t a else insert_fixup_right t a) = Some (Inr (t', b))"
  shows "rbtree_insert_fixup t a = rbtree_insert_fixup t' b"
  using assms zrep_focus [OF z] by (subst rbtree_insert_fixup.simps) simp

text \<open>What one turn at a red node below a red parent achieves: the problem has moved up to the
  grandparent, at the head of the context \<open>fs\<close>, or the loop returns a good tree.\<close>

definition insert_turn_ok ::
    "nat \<Rightarrow> ('k, 'v) rb_tree \<Rightarrow> nat \<Rightarrow> ('k, 'v) frame list \<Rightarrow> ('k, 'v) rbt \<Rightarrow> nat \<Rightarrow> ('k, 'v) rb_node \<Rightarrow> (nat \<rightharpoonup> ('k, 'v) rb_node) \<Rightarrow> bool" where
  "insert_turn_ok nl t a fs x n nn X \<longleftrightarrow>
     (\<exists>t' l g k v r. rbtree_insert_fixup t a = rbtree_insert_fixup t' g \<and> zrep nl t' fs (Nd l g RED k v r) nn X \<and>
        bal n (Nd l g RED k v r) \<and> entries (Nd l g RED k v r) = entries x) \<or>
     (\<exists>t' T. rbtree_insert_fixup t a = Some t' \<and> zrep nl t' [] T nn X \<and> entries T = entries (plug fs x) \<and> rb_ok T)"

lemma insert_turn_up:
  assumes "rbtree_insert_fixup t a = rbtree_insert_fixup t' g" "zrep nl t' fs (Nd l g RED k v r) nn X"
    and "bal n (Nd l g RED k v r)" "entries (Nd l g RED k v r) = entries x"
  shows "insert_turn_ok nl t a fs x n nn X"
  using assms unfolding insert_turn_ok_def by blast

lemma insert_turn_done:
  assumes "rbtree_insert_fixup t a = rbtree_insert_fixup t' b" "zrep nl t' fs (plug gs (Nd l b c k v r)) nn X"
    and "colour nn = BLACK" "ccol gs = BLACK" "bal n (plug gs (Nd l b c k v r))" "cbal n fs"
    and "col (plug gs (Nd l b c k v r)) = BLACK" "entries (plug gs (Nd l b c k v r)) = entries x"
  shows "insert_turn_ok nl t a fs x n nn X"
  using insert_fixup_done [OF assms(1), of nl gs fs l c k v r nn X n] assms entries_plug [OF assms(8), of fs]
  unfolding insert_turn_ok_def by (simp add: zrep_plug)

lemma insert_turn_outer_left:
  assumes z: "zrep nl t (LF p RED kp vp s # LF g BLACK kg vg u # fs) (Nd l a RED k v r) nn X" and nn: "colour nn = BLACK"
    and b: "bal n (Nd l a RED k v r)" "bal n s" "col s = BLACK" "bal n u" "cbal (Suc n) fs"
  shows "insert_turn_ok nl t a fs (Nd (Nd (Nd l a RED k v r) p RED kp vp s) g BLACK kg vg u) (Suc n) nn X"
proof -
  have z1: "zrep nl t fs (Nd (Nd (Nd l a RED k v r) p RED kp vp s) g BLACK kg vg u) nn X" and z2: "zrep nl t (LF g BLACK kg vg u # fs) (Nd (Nd l a RED k v r) p RED kp vp s) nn X"
    using z by (simp_all add: zrep_LF zrep_RF)
  have ne: "p \<noteq> ptr nl u" using z1 by (auto simp: zrep_def)
  have turn: "rbtree_insert_fixup t a = rbtree_insert_fixup t' b" if "insert_fixup_left t a = Some (Inr (t', b))" for t' b
    using insert_fixup_turn [OF z, of _ _ t' b] zrep_focus [OF z1] zrep_focus [OF z2] ne that by simp
  show ?thesis
  proof (cases "col u")
    case RED
    then obtain ul ua ku vu ur where u: "u = Nd ul ua RED ku vu ur" by (cases u) auto
    from fixup_recolour_left [OF z1 [unfolded u] zrep_focus [OF z]] obtain t' where t': "insert_fixup_left t a = Some (Inr (t', g))"
      "zrep nl t' fs (Nd (Nd (Nd l a RED k v r) p BLACK kp vp s) g RED kg vg (Nd ul ua BLACK ku vu ur)) nn X" by auto
    from insert_turn_up [OF turn [OF t'(1)] t'(2)] b u show ?thesis by simp
  next
    case BLACK
    with fixup_outer_left [OF z1 _ nn] obtain t' where t': "insert_fixup_left t a = Some (Inr (t', a))"
      "zrep nl t' fs (plug [LF p BLACK kp vp (Nd s g RED kg vg u)] (Nd l a RED k v r)) nn X" by auto
    from insert_turn_done [OF turn [OF t'(1)] t'(2) nn] b BLACK show ?thesis by simp
  qed
qed

lemma insert_turn_inner_left:
  assumes z: "zrep nl t (RF s p RED kp vp # LF g BLACK kg vg u # fs) (Nd l a RED k v r) nn X" and nn: "colour nn = BLACK"
    and b: "bal n (Nd l a RED k v r)" "bal n s" "col s = BLACK" "bal n u" "cbal (Suc n) fs"
  shows "insert_turn_ok nl t a fs (Nd (Nd s p RED kp vp (Nd l a RED k v r)) g BLACK kg vg u) (Suc n) nn X"
proof -
  have z1: "zrep nl t fs (Nd (Nd s p RED kp vp (Nd l a RED k v r)) g BLACK kg vg u) nn X" and z2: "zrep nl t (LF g BLACK kg vg u # fs) (Nd s p RED kp vp (Nd l a RED k v r)) nn X"
    using z by (simp_all add: zrep_LF zrep_RF)
  have ne: "p \<noteq> ptr nl u" using z1 by (auto simp: zrep_def)
  have turn: "rbtree_insert_fixup t a = rbtree_insert_fixup t' b" if "insert_fixup_left t a = Some (Inr (t', b))" for t' b
    using insert_fixup_turn [OF z, of _ _ t' b] zrep_focus [OF z1] zrep_focus [OF z2] ne that by simp
  show ?thesis
  proof (cases "col u")
    case RED
    then obtain ul ua ku vu ur where u: "u = Nd ul ua RED ku vu ur" by (cases u) auto
    from fixup_recolour_left [OF z1 [unfolded u] zrep_focus [OF z]] obtain t' where t': "insert_fixup_left t a = Some (Inr (t', g))"
      "zrep nl t' fs (Nd (Nd s p BLACK kp vp (Nd l a RED k v r)) g RED kg vg (Nd ul ua BLACK ku vu ur)) nn X" by auto
    from insert_turn_up [OF turn [OF t'(1)] t'(2)] b u show ?thesis by simp
  next
    case BLACK
    with fixup_inner_left [OF z1 refl _ nn] obtain t' where t': "insert_fixup_left t a = Some (Inr (t', p))"
      "zrep nl t' fs (plug [LF a BLACK k v (Nd r g RED kg vg u)] (Nd s p RED kp vp l)) nn X" by auto
    from insert_turn_done [OF turn [OF t'(1)] t'(2) nn] b BLACK show ?thesis by simp
  qed
qed

lemma insert_turn_outer_right:
  assumes z: "zrep nl t (RF s p RED kp vp # RF u g BLACK kg vg # fs) (Nd l a RED k v r) nn X" and nn: "colour nn = BLACK"
    and b: "bal n (Nd l a RED k v r)" "bal n s" "col s = BLACK" "bal n u" "cbal (Suc n) fs"
  shows "insert_turn_ok nl t a fs (Nd u g BLACK kg vg (Nd s p RED kp vp (Nd l a RED k v r))) (Suc n) nn X"
proof -
  have z1: "zrep nl t fs (Nd u g BLACK kg vg (Nd s p RED kp vp (Nd l a RED k v r))) nn X" and z2: "zrep nl t (RF u g BLACK kg vg # fs) (Nd s p RED kp vp (Nd l a RED k v r)) nn X"
    using z by (simp_all add: zrep_LF zrep_RF)
  have ne: "p \<noteq> ptr nl u" using z1 by (auto simp: zrep_def)
  have turn: "rbtree_insert_fixup t a = rbtree_insert_fixup t' b" if "insert_fixup_right t a = Some (Inr (t', b))" for t' b
    using insert_fixup_turn [OF z, of _ _ t' b] zrep_focus [OF z1] zrep_focus [OF z2] ne that by simp
  show ?thesis
  proof (cases "col u")
    case RED
    then obtain ul ua ku vu ur where u: "u = Nd ul ua RED ku vu ur" by (cases u) auto
    from fixup_recolour_right [OF z1 [unfolded u] zrep_focus [OF z]] obtain t' where t': "insert_fixup_right t a = Some (Inr (t', g))"
      "zrep nl t' fs (Nd (Nd ul ua BLACK ku vu ur) g RED kg vg (Nd s p BLACK kp vp (Nd l a RED k v r))) nn X" by auto
    from insert_turn_up [OF turn [OF t'(1)] t'(2)] b u show ?thesis by simp
  next
    case BLACK
    with fixup_outer_right [OF z1 _ nn] obtain t' where t': "insert_fixup_right t a = Some (Inr (t', a))"
      "zrep nl t' fs (plug [RF (Nd u g RED kg vg s) p BLACK kp vp] (Nd l a RED k v r)) nn X" by auto
    from insert_turn_done [OF turn [OF t'(1)] t'(2) nn] b BLACK show ?thesis by simp
  qed
qed

lemma insert_turn_inner_right:
  assumes z: "zrep nl t (LF p RED kp vp s # RF u g BLACK kg vg # fs) (Nd l a RED k v r) nn X" and nn: "colour nn = BLACK"
    and b: "bal n (Nd l a RED k v r)" "bal n s" "col s = BLACK" "bal n u" "cbal (Suc n) fs"
  shows "insert_turn_ok nl t a fs (Nd u g BLACK kg vg (Nd (Nd l a RED k v r) p RED kp vp s)) (Suc n) nn X"
proof -
  have z1: "zrep nl t fs (Nd u g BLACK kg vg (Nd (Nd l a RED k v r) p RED kp vp s)) nn X" and z2: "zrep nl t (RF u g BLACK kg vg # fs) (Nd (Nd l a RED k v r) p RED kp vp s) nn X"
    using z by (simp_all add: zrep_LF zrep_RF)
  have ne: "p \<noteq> ptr nl u" using z1 by (auto simp: zrep_def)
  have turn: "rbtree_insert_fixup t a = rbtree_insert_fixup t' b" if "insert_fixup_right t a = Some (Inr (t', b))" for t' b
    using insert_fixup_turn [OF z, of _ _ t' b] zrep_focus [OF z1] zrep_focus [OF z2] ne that by simp
  show ?thesis
  proof (cases "col u")
    case RED
    then obtain ul ua ku vu ur where u: "u = Nd ul ua RED ku vu ur" by (cases u) auto
    from fixup_recolour_right [OF z1 [unfolded u] zrep_focus [OF z]] obtain t' where t': "insert_fixup_right t a = Some (Inr (t', g))"
      "zrep nl t' fs (Nd (Nd ul ua BLACK ku vu ur) g RED kg vg (Nd (Nd l a RED k v r) p BLACK kp vp s)) nn X" by auto
    from insert_turn_up [OF turn [OF t'(1)] t'(2)] b u show ?thesis by simp
  next
    case BLACK
    with fixup_inner_right [OF z1 refl _ nn] obtain t' where t': "insert_fixup_right t a = Some (Inr (t', p))"
      "zrep nl t' fs (plug [RF (Nd u g RED kg vg l) a BLACK k v] (Nd r p RED kp vp s)) nn X" by auto
    from insert_turn_done [OF turn [OF t'(1)] t'(2) nn] b BLACK show ?thesis by simp
  qed
qed

lemma insert_turn:
  assumes z: "zrep nl t fs (Nd l a RED k v r) nn X" and nn: "colour nn = BLACK"
    and b: "bal n (Nd l a RED k v r)" "cbal n fs" and "ccol fs = RED" "fs \<noteq> []"
  shows "\<exists>hs x. length hs < length fs \<and> insert_turn_ok nl t a hs x (Suc n) nn X \<and> cbal (Suc n) hs \<and>
    plug fs (Nd l a RED k v r) = plug hs x"
proof -
  obtain F gs where fs: "fs = F # gs" using \<open>fs \<noteq> []\<close> by (cases fs) auto
  with b(2) \<open>ccol fs = RED\<close> have g: "ccol gs = BLACK" "cbal n gs" by (cases F; simp)+
  then obtain G hs where gs: "gs = G # hs" by (cases gs) auto
  show ?thesis
    by (rule exI [of _ hs])
      (use z nn b g \<open>ccol fs = RED\<close> in \<open>cases F; cases G; force simp: fs gs
         intro: insert_turn_outer_left insert_turn_outer_right insert_turn_inner_left insert_turn_inner_right\<close>)
qed

lemma insert_fixup_ok:
  assumes "zrep nl t fs (Nd l a RED k v r) nn X" "colour nn = BLACK"
    and "bal n (Nd l a RED k v r)" "cbal n fs"
  shows "\<exists>t' T. rbtree_insert_fixup t a = Some t' \<and> zrep nl t' [] T nn X \<and>
    entries T = entries (plug fs (Nd l a RED k v r)) \<and> rb_ok T"
  using assms
proof (induction "length fs" arbitrary: fs t l a k v r n rule: less_induct)
  case less
  let ?A = "Nd l a RED k v r"
  note z = less.prems(1) and nn = less.prems(2)
  consider "fs = []" | "fs \<noteq> []" "ccol fs = BLACK" | "fs \<noteq> []" "ccol fs = RED" by (cases "ccol fs") auto
  then show ?case
  proof cases
    case 1
    with insert_fixup_stop [OF z nn] less.prems(3) show ?thesis by (force simp: rb_ok_def intro: exI [of _ "Suc n"])
  next
    case 2
    with insert_fixup_stop [OF z nn] bal_plug [OF less.prems(3,4)] show ?thesis by (force simp: rb_ok_blacken)
  next
    case 3
    from insert_turn [OF less.prems 3(2,1)] obtain hs x where hs: "length hs < length fs" "cbal (Suc n) hs"
      "plug fs ?A = plug hs x" and "insert_turn_ok nl t a hs x (Suc n) nn X" by blast
    then show ?thesis unfolding insert_turn_ok_def
    proof (elim disjE exE conjE, goal_cases)
      case (1 t' l' g k' v' r')
      from less.hyps [OF hs(1) 1(5) nn 1(6) hs(2)] 1(4) entries_plug [OF 1(7), of hs] hs(3) show ?case by simp
    qed auto
  qed
qed

end
