(* ===== verification/RB_Search.thy ===== *)
theory RB_Search
  imports RB_Insert Map_Store
begin

text \<open>
  Searching, inserting and replacing on the heap implement the operations of the ordered store.
\<close>

definition rb_tree_of ::
    "('k \<Rightarrow> 'k \<Rightarrow> int) \<Rightarrow> ('k \<Rightarrow> bool) \<Rightarrow> ('k, 'v) rb_tree \<Rightarrow> ('k, 'v) rbt \<Rightarrow> bool" where
  "rb_tree_of cmp K t T \<longleftrightarrow>
     (\<exists>nn. zrep (rb_nil t) t [] T nn Map.empty \<and> colour nn = BLACK) \<and> rb_ok T \<and> store_ok cmp K (entries T)"

lemma entries_split: "\<exists>p s. \<forall>x. entries (plug fs x) = p @ entries x @ s"
proof (induction fs rule: caddrs.induct)
  case 1
  show ?case by (rule exI [of _ "[]"], rule exI [of _ "[]"]) simp
next
  case (2 a c k v r fs)
  then obtain p s where "\<forall>x. entries (plug fs x) = p @ entries x @ s" by blast
  then show ?case by (intro exI [of _ p] exI [of _ "(k, v) # entries r @ s"]) simp
next
  case (3 l a c k v fs)
  then obtain p s where "\<forall>x. entries (plug fs x) = p @ entries x @ s" by blast
  then show ?case by (intro exI [of _ "p @ entries l @ [(k, v)]"] exI [of _ s]) simp
qed

lemma store_ok_append:
  "store_ok cmp K (xs @ (k, v) # ys) \<longleftrightarrow>
     store_ok cmp K xs \<and> store_ok cmp K ys \<and> K k \<and> (\<forall>e \<in> set xs. cmp (fst e) k < 0) \<and>
     (\<forall>e \<in> set ys. cmp k (fst e) < 0) \<and> (\<forall>e \<in> set xs. \<forall>e' \<in> set ys. cmp (fst e) (fst e') < 0)"
  by (auto simp: store_ok_def sorted_wrt_append)

lemma store_ins_skip: "list_all (\<lambda>e. \<not> cmp k (fst e) < 0) xs \<Longrightarrow> store_ins cmp k v (xs @ zs) = xs @ store_ins cmp k v zs"
  by (induction xs) auto

lemma store_upd_skip: "list_all (\<lambda>e. cmp k (fst e) \<noteq> 0) xs \<Longrightarrow> store_upd cmp k v (xs @ zs) = xs @ store_upd cmp k v zs"
  by (induction xs) auto

lemma store_del_skip: "list_all (\<lambda>e. cmp k (fst e) \<noteq> 0) xs \<Longrightarrow> store_del cmp k (xs @ zs) = xs @ store_del cmp k zs"
  by (induction xs) auto

context key_cmp
begin

lemma store_find_split:
  assumes "K k" "store_ok cmp K (xs @ (k', v) # ys)"
  shows "store_find cmp k (xs @ (k', v) # ys) =
    (if cmp k k' = 0 then Some v else if cmp k k' < 0 then store_find cmp k xs else store_find cmp k ys)"
proof -
  have p: "store_ok cmp K xs" "store_ok cmp K ys" "K k'" "\<forall>e \<in> set xs. K (fst e) \<and> cmp (fst e) k' < 0"
    "\<forall>e \<in> set ys. K (fst e) \<and> cmp k' (fst e) < 0"
    using assms(2) by (auto simp: store_ok_def sorted_wrt_append)
  have "store_find cmp k (xs @ (k', v) # ys) = Some w \<longleftrightarrow>
    (if cmp k k' = 0 then Some v else if cmp k k' < 0 then store_find cmp k xs else store_find cmp k ys) = Some w" for w
  proof -
    have "(k, w) \<notin> set ys" if "cmp k k' \<le> 0"
      using p(3,5) that cmp_trans [OF assms(1) p(3) assms(1)] cmp_refl [OF assms(1)] cmp_eq [OF assms(1) p(3)] by force
    moreover have "(k, w) \<notin> set xs" if "cmp k k' \<ge> 0"
      using p(3,4) that by force
    ultimately show ?thesis
      using store_find_Some [OF assms, of w] store_find_Some [OF assms(1) p(1), of w] store_find_Some [OF assms(1) p(2), of w]
        cmp_eq [OF assms(1) p(3)] cmp_refl [OF assms(1)] by auto
  qed
  then show ?thesis by (metis option.exhaust)
qed

lemma store_ins_split:
  assumes "K k" "store_ok cmp K (xs @ (k', v') # ys)"
  shows "store_ins cmp k v (xs @ (k', v') # ys) =
    (if cmp k k' < 0 then store_ins cmp k v xs @ (k', v') # ys else xs @ (k', v') # store_ins cmp k v ys)"
proof (cases "cmp k k' < 0")
  case True
  then show ?thesis by (induction xs) auto
next
  case False
  have "\<not> cmp k (fst e) < 0" if "e \<in> set xs" for e
    using False assms that cmp_trans [of k "fst e" k'] by (auto simp: store_ok_def sorted_wrt_append)
  then have "list_all (\<lambda>e. \<not> cmp k (fst e) < 0) xs" by (auto simp: list_all_iff)
  from store_ins_skip [of cmp k xs, OF this] False show ?thesis by simp
qed

lemma store_upd_split:
  assumes "store_ok cmp K (xs @ (k, v) # ys)"
  shows "store_upd cmp k v' (xs @ (k, v) # ys) = xs @ (k, v') # ys"
proof -
  have "cmp k (fst e) \<noteq> 0" if "e \<in> set xs" for e
    using assms that cmp_eq [of k "fst e"] cmp_refl [of k] by (auto simp: store_ok_def sorted_wrt_append)
  then have "list_all (\<lambda>e. cmp k (fst e) \<noteq> 0) xs" by (auto simp: list_all_iff)
  from store_upd_skip [of cmp k xs, OF this] assms show ?thesis by (simp add: cmp_refl store_ok_append)
qed

lemma store_del_split:
  assumes "store_ok cmp K (xs @ (k, v) # ys)"
  shows "store_del cmp k (xs @ (k, v) # ys) = xs @ ys"
proof -
  have "cmp k (fst e) \<noteq> 0" if "e \<in> set xs" for e
    using assms that cmp_eq [of k "fst e"] cmp_refl [of k] by (auto simp: store_ok_def sorted_wrt_append)
  then have "list_all (\<lambda>e. cmp k (fst e) \<noteq> 0) xs" by (auto simp: list_all_iff)
  from store_del_skip [of cmp k xs, OF this] assms show ?thesis by (simp add: cmp_refl store_ok_append)
qed

lemma search_ok:
  assumes "zrep nl t fs x nn X" "K k" "store_ok cmp K (entries x)"
  shows "case store_find cmp k (entries x) of
      None \<Rightarrow> rbtree_recursive_search cmp t (ptr nl x) k = Some nl
    | Some v \<Rightarrow> \<exists>gs l a c r. x = plug gs (Nd l a c k v r) \<and> rbtree_recursive_search cmp t (ptr nl x) k = Some a"
  using assms
proof (induction x arbitrary: fs)
  case Lf
  then show ?case by (subst rbtree_recursive_search.simps) (simp add: zrep_nil)
next
  case (Nd l a c k' v' r)
  have ok: "store_ok cmp K (entries l)" "store_ok cmp K (entries r)" "K k'"
    using Nd.prems(3) by (simp_all add: store_ok_append)
  have zl: "zrep nl t (LF a c k' v' r # fs) l nn X" and zr: "zrep nl t (RF l a c k' v' # fs) r nn X"
    using Nd.prems(1) by (simp_all add: zrep_LF zrep_RF)
  have e: "rbtree_recursive_search cmp t a k = (if cmp k k' = 0 then Some a
     else if cmp k k' < 0 then rbtree_recursive_search cmp t (ptr nl l) k else rbtree_recursive_search cmp t (ptr nl r) k)"
    using zrep_focus [OF Nd.prems(1)] zrep_ne [OF Nd.prems(1)] zrep_nil [OF Nd.prems(1)]
    by (subst rbtree_recursive_search.simps) simp
  have find_case: ?case if "store_find cmp k (entries (Nd l a c k' v' r)) = Some w"
      "Nd l a c k' v' r = plug gs (Nd l2 a2 c2 k w r2)" "rbtree_recursive_search cmp t a k = Some a2" for w gs l2 a2 c2 r2
    unfolding that(1) option.case ptr.simps using that(2,3) by blast
  note s = store_find_split [OF Nd.prems(2), of "entries l" k' v' "entries r"]
  consider "cmp k k' = 0" | "cmp k k' < 0" | "cmp k k' > 0" by linarith
  then show ?case
  proof cases
    case 1
    with s e Nd.prems(3) cmp_eq [OF Nd.prems(2) ok(3)] have "store_find cmp k (entries (Nd l a c k' v' r)) = Some v'"
      "Nd l a c k' v' r = plug [] (Nd l a c k v' r)" "rbtree_recursive_search cmp t a k = Some a" by simp_all
    then show ?thesis by (intro find_case)
  next
    case 2
    show ?thesis
    proof (cases "store_find cmp k (entries l)")
      case None
      with 2 Nd.IH(1) [OF zl Nd.prems(2) ok(1)] s e Nd.prems(3) show ?thesis by simp
    next
      case (Some w)
      with Nd.IH(1) [OF zl Nd.prems(2) ok(1)] obtain gs l2 a2 c2 r2 where
        g: "l = plug gs (Nd l2 a2 c2 k w r2)" "rbtree_recursive_search cmp t (ptr nl l) k = Some a2" by auto
      from 2 Some s e g(2) Nd.prems(3) have "store_find cmp k (entries (Nd l a c k' v' r)) = Some w"
        "rbtree_recursive_search cmp t a k = Some a2" by simp_all
      moreover from g(1) have "Nd l a c k' v' r = plug (gs @ [LF a c k' v' r]) (Nd l2 a2 c2 k w r2)" by simp
      ultimately show ?thesis by (intro find_case)
    qed
  next
    case 3
    show ?thesis
    proof (cases "store_find cmp k (entries r)")
      case None
      with 3 Nd.IH(2) [OF zr Nd.prems(2) ok(2)] s e Nd.prems(3) show ?thesis by simp
    next
      case (Some w)
      with Nd.IH(2) [OF zr Nd.prems(2) ok(2)] obtain gs l2 a2 c2 r2 where
        g: "r = plug gs (Nd l2 a2 c2 k w r2)" "rbtree_recursive_search cmp t (ptr nl r) k = Some a2" by auto
      from 3 Some s e g(2) Nd.prems(3) have "store_find cmp k (entries (Nd l a c k' v' r)) = Some w"
        "rbtree_recursive_search cmp t a k = Some a2" by simp_all
      moreover from g(1) have "Nd l a c k' v' r = plug (gs @ [RF l a c k' v']) (Nd l2 a2 c2 k w r2)" by simp
      ultimately show ?thesis by (intro find_case)
    qed
  qed
qed

end

text \<open>The frame below which a new key goes is on the right side of its neighbour.\<close>

fun side_ok :: "('k \<Rightarrow> 'k \<Rightarrow> int) \<Rightarrow> 'k \<Rightarrow> ('k, 'v) frame list \<Rightarrow> bool" where
  "side_ok cmp k [] = True"
| "side_ok cmp k (LF a c k' v r # fs) = (cmp k k' < 0)"
| "side_ok cmp k (RF l a c k' v # fs) = (\<not> cmp k k' < 0)"

lemma side_ok_append: "gs \<noteq> [] \<Longrightarrow> side_ok cmp k (gs @ fs) = side_ok cmp k gs"
  by (cases gs rule: caddrs.cases) auto

lemma cpar_append: "gs \<noteq> [] \<Longrightarrow> cpar nl (gs @ fs) = cpar nl gs"
  by (cases gs rule: caddrs.cases) auto

context key_cmp
begin

lemma descend_ok:
  assumes "zrep nl t fs x nn X" "K k" "store_ok cmp K (entries x)" "x \<noteq> Lf"
  shows "\<exists>gs. gs \<noteq> [] \<and> x = plug gs Lf \<and> insert_descend cmp t k p (ptr nl x) = Some (cpar nl gs) \<and> side_ok cmp k gs \<and>
    (\<forall>a c v. entries (plug gs (Nd Lf a c k v Lf)) = store_ins cmp k v (entries x))"
  using assms
proof (induction x arbitrary: fs p)
  case (Nd l a c k' v' r)
  have ok: "store_ok cmp K (entries l)" "store_ok cmp K (entries r)"
    using Nd.prems(3) by (simp_all add: store_ok_append)
  have zl: "zrep nl t (LF a c k' v' r # fs) l nn X" and zr: "zrep nl t (RF l a c k' v' # fs) r nn X"
    using Nd.prems(1) by (simp_all add: zrep_LF zrep_RF)
  have e: "insert_descend cmp t k q a = (if cmp k k' < 0 then insert_descend cmp t k a (ptr nl l)
     else insert_descend cmp t k a (ptr nl r))" for q
    using zrep_focus [OF Nd.prems(1)] zrep_ne [OF Nd.prems(1)] zrep_nil [OF Nd.prems(1)]
    by (subst insert_descend.simps) simp
  have e': "insert_descend cmp t k q nl = Some q" for q
    using zrep_nil [OF Nd.prems(1)] by (subst insert_descend.simps) simp
  have s: "store_ins cmp k v (entries (Nd l a c k' v' r)) =
    (if cmp k k' < 0 then store_ins cmp k v (entries l) @ (k', v') # entries r
     else entries l @ (k', v') # store_ins cmp k v (entries r))" for v
    using store_ins_split [OF Nd.prems(2), of "entries l" k' v' "entries r" v] Nd.prems(3) by simp
  show ?case
  proof (cases "cmp k k' < 0")
    case True
    show ?thesis
    proof (cases "l = Lf")
      case True
      with \<open>cmp k k' < 0\<close> e e' s show ?thesis by (intro exI [of _ "[LF a c k' v' r]"]) simp
    next
      case False
      from Nd.IH(1) [OF zl Nd.prems(2) ok(1) False, of a] obtain gs where g: "gs \<noteq> []" "l = plug gs Lf"
        "insert_descend cmp t k a (ptr nl l) = Some (cpar nl gs)" "side_ok cmp k gs"
        "\<forall>a c v. entries (plug gs (Nd Lf a c k v Lf)) = store_ins cmp k v (entries l)" by blast
      with \<open>cmp k k' < 0\<close> e s show ?thesis
        by (intro exI [of _ "gs @ [LF a c k' v' r]"]) (simp add: side_ok_append cpar_append)
    qed
  next
    case False
    show ?thesis
    proof (cases "r = Lf")
      case True
      with \<open>\<not> cmp k k' < 0\<close> e e' s show ?thesis by (intro exI [of _ "[RF l a c k' v']"]) simp
    next
      case False
      from Nd.IH(2) [OF zr Nd.prems(2) ok(2) False, of a] obtain gs where g: "gs \<noteq> []" "r = plug gs Lf"
        "insert_descend cmp t k a (ptr nl r) = Some (cpar nl gs)" "side_ok cmp k gs"
        "\<forall>a c v. entries (plug gs (Nd Lf a c k v Lf)) = store_ins cmp k v (entries r)" by blast
      with \<open>\<not> cmp k k' < 0\<close> e s show ?thesis
        by (intro exI [of _ "gs @ [RF l a c k' v']"]) (simp add: side_ok_append cpar_append)
    qed
  qed
qed simp

end

lemma descend_path:
  assumes "key_cmp cmp K" "zrep nl t [] x nn X" "K k" "store_ok cmp K (entries x)"
  shows "\<exists>gs. x = plug gs Lf \<and> insert_descend cmp t k nl (ptr nl x) = Some (cpar nl gs) \<and> side_ok cmp k gs \<and>
    (\<forall>a c v. entries (plug gs (Nd Lf a c k v Lf)) = store_ins cmp k v (entries x))"
proof (cases "x = Lf")
  case True
  then show ?thesis using zrep_nil [OF assms(2)]
    by (intro exI [of _ "[]"]) (subst insert_descend.simps, simp)
next
  case False
  with key_cmp.descend_ok [OF assms] show ?thesis by blast
qed

text \<open>Linking the new node in.\<close>

lemma zrep_fresh:
  assumes "zrep nl t fs x nn X" "heap t a = None"
  shows "zrep nl (t\<lparr>heap := (heap t)(a \<mapsto> n)\<rparr>) fs x nn (X(a \<mapsto> n)) \<and> a \<notin> set (addrs x @ caddrs fs) \<and> a \<noteq> nl \<and> X a = None"
proof -
  have "b \<in> set (addrs y) \<Longrightarrow> tr h nl p y \<Longrightarrow> h b \<noteq> None" for b h p and y :: "('a, 'b) rbt"
    by (induction y arbitrary: p) auto
  moreover have "b \<in> set (caddrs gs) \<Longrightarrow> ctr h nl q gs \<Longrightarrow> h b \<noteq> None" for b h q and gs :: "('a, 'b) frame list"
    using calculation by (induction gs arbitrary: q rule: caddrs.induct) auto
  ultimately have a: "a \<notin> set (addrs x)" "a \<notin> set (caddrs fs)" "a \<noteq> nl"
    using assms by (force simp: zrep_def)+
  then show ?thesis using assms by (auto simp: zrep_def)
qed

lemma insert_link:
  assumes z: "zrep nl t gs Lf nn (X(a \<mapsto> n))" and n: "nkey n = Some k" "nvalue n = Some v"
    and a: "a \<notin> set (caddrs gs)" "a \<noteq> nl" "a \<noteq> 0" "X a = None" and side: "side_ok cmp k gs"
  shows "\<exists>t'. do {
     t \<leftarrow> set_parent a (cpar nl gs) t;
     t \<leftarrow> (if cpar nl gs = rb_nil t then Some (t\<lparr>rb_root := a\<rparr>)
          else do {
            p \<leftarrow> heap t (cpar nl gs);
            k' \<leftarrow> nkey p;
            if cmp k k' < 0 then set_left (cpar nl gs) a t else set_right (cpar nl gs) a t
          });
     t \<leftarrow> set_left a (rb_nil t) t;
     t \<leftarrow> set_right a (rb_nil t) t;
     t \<leftarrow> set_colour a RED t;
     rbtree_insert_fixup t a } = rbtree_insert_fixup t' a \<and> zrep nl t' gs (Nd Lf a RED k v Lf) nn X"
proof -
  have ha: "heap t a = Some n" using z a by (simp add: zrep_def)
  have rt: "gs \<noteq> [] \<Longrightarrow> ptr nl (plug gs (Nd Lf a RED k v Lf)) = rb_root t"
    using z ptr_plug_Cons [of gs nl Lf "Nd Lf a RED k v Lf"] by (simp add: zrep_def)
  obtain c l r p where n': "n = cell c k v l r p" using n by (cases n) auto
  show ?thesis
    by (insert z a ha rt side, unfold n',
        (cases gs rule: caddrs.cases; clarsimp simp: zrep_def upd_Some; rule exI; rule conjI [OF refl];
         clarsimp; fastforce split: if_splits))
qed

lemma insert_node_ok:
  assumes kc: "key_cmp cmp K" and t: "rb_tree_of cmp K t T" and a: "heap t a = None" "a \<noteq> 0" and k: "K k"
    and new: "store_find cmp k (entries T) = None"
  shows "\<exists>t' T'. insert_node cmp (t\<lparr>heap := (heap t)(a \<mapsto> cell BLACK k v (rb_nil t) (rb_nil t) (rb_nil t))\<rparr>) a = Some t' \<and>
    rb_nil t' = rb_nil t \<and> rb_tree_of cmp K t' T' \<and> entries T' = store_ins cmp k v (entries T)"
proof -
  let ?nl = "rb_nil t" let ?n = "cell BLACK k v ?nl ?nl ?nl" let ?t = "t\<lparr>heap := (heap t)(a \<mapsto> ?n)\<rparr>"
  from t obtain nn where z: "zrep ?nl t [] T nn Map.empty" and nn: "colour nn = BLACK"
    and ok: "rb_ok T" "store_ok cmp K (entries T)" unfolding rb_tree_of_def by blast
  from zrep_fresh [OF z a(1), of ?n] have z0: "zrep ?nl ?t [] T nn [a \<mapsto> ?n]" and a': "a \<notin> set (addrs T)" "a \<noteq> ?nl" by auto
  from descend_path [OF kc z0 k ok(2)] obtain gs where gs: "T = plug gs Lf"
    "insert_descend cmp ?t k ?nl (ptr ?nl T) = Some (cpar ?nl gs)" "side_ok cmp k gs"
    "\<And>b c w. entries (plug gs (Nd Lf b c k w Lf)) = store_ins cmp k w (entries T)" by blast
  from z0 gs(1) have z1: "zrep ?nl ?t gs Lf nn [a \<mapsto> ?n]" by (simp add: zrep_top [of _ _ gs])
  have ga: "a \<notin> set (caddrs gs)"
    using a'(1) gs(1) by (auto simp: addrs_plug)
  from insert_link [OF z1 _ _ ga a'(2) a(2) _ gs(3)] obtain t' where t': "insert_node cmp ?t a = rbtree_insert_fixup t' a"
    "zrep ?nl t' gs (Nd Lf a RED k v Lf) nn Map.empty"
    using gs(2) zrep_root [OF z0] by (auto simp: insert_node_def)
  from plug_bal [of gs Lf] ok(1) gs(1) have "cbal 0 gs" by auto
  with insert_fixup_ok [OF t'(2) nn, of 0] gs(4) obtain t2 T' where t2: "rbtree_insert_fixup t' a = Some t2"
    "zrep ?nl t2 [] T' nn Map.empty" "entries T' = store_ins cmp k v (entries T)" "rb_ok T'" by auto
  with key_cmp.store_ins_ok [OF kc k ok(2) new] t'(1) nn zrep_nil [OF t2(2)] show ?thesis
    unfolding rb_tree_of_def by auto
qed

lemma rbtree_find_ok:
  assumes "key_cmp cmp K" "rb_tree_of cmp K t T" "K k"
  shows "case store_find cmp k (entries T) of
      None \<Rightarrow> rbtree_find cmp (Some t) (Some k) = Some (rb_nil t)
    | Some v \<Rightarrow> \<exists>gs l a c r. T = plug gs (Nd l a c k v r) \<and> rbtree_find cmp (Some t) (Some k) = Some a \<and> a \<noteq> rb_nil t"
proof -
  from assms(2) obtain nn where z: "zrep (rb_nil t) t [] T nn Map.empty" and ok: "store_ok cmp K (entries T)"
    unfolding rb_tree_of_def by blast
  have ne: "a \<noteq> rb_nil t" if "T = plug gs (Nd l a c k v r)" for gs l a c v r
    using z [unfolded that] zrep_ne [of "rb_nil t" t gs l a c k v r nn Map.empty] by (simp add: zrep_top [of _ _ gs])
  have r: "rbtree_find cmp (Some t) (Some k) = rbtree_recursive_search cmp t (ptr (rb_nil t) T) k"
    using zrep_root [OF z] by (simp add: rbtree_find_def)
  note s = key_cmp.search_ok [OF assms(1) z assms(3) ok]
  show ?thesis
  proof (cases "store_find cmp k (entries T)")
    case None
    with s show ?thesis by (simp add: r)
  next
    case (Some v)
    from s have "\<exists>gs l a c q. T = plug gs (Nd l a c k v q) \<and> rbtree_recursive_search cmp t (ptr (rb_nil t) T) k = Some a"
      unfolding Some option.case .
    then show ?thesis unfolding Some option.case r using ne by blast
  qed
qed

text \<open>\<open>rbtree_search\<close>, \<open>rbtree_insert\<close> and \<open>rbtree_replace\<close> against the ordered store.\<close>

lemma rbtree_search_ok:
  assumes "key_cmp cmp K" "rb_tree_of cmp K t T" "K k"
  shows "rbtree_search cmp (Some t) (Some k) = Some (store_find cmp k (entries T))"
proof (cases "store_find cmp k (entries T)")
  case None
  with rbtree_find_ok [OF assms] show ?thesis by (simp add: rbtree_search_def)
next
  case (Some v)
  from assms(2) obtain nn where z: "zrep (rb_nil t) t [] T nn Map.empty" unfolding rb_tree_of_def by blast
  from Some rbtree_find_ok [OF assms] obtain gs l a c r where g: "T = plug gs (Nd l a c k v r)"
    "rbtree_find cmp (Some t) (Some k) = Some a" "a \<noteq> rb_nil t" by auto
  with z have "zrep (rb_nil t) t gs (Nd l a c k v r) nn Map.empty" by (simp add: zrep_top [of _ _ gs])
  from zrep_focus [OF this] g Some show ?thesis by (simp add: rbtree_search_def)
qed

lemma rbtree_insert_ok:
  assumes "key_cmp cmp K" "rb_tree_of cmp K t T" "K k" and mem: "\<And>a. mem = Some a \<Longrightarrow> heap t a = None \<and> a \<noteq> 0"
  shows "\<exists>b t' T'. rbtree_insert cmp mem (Some t) (Some k) (Some v) = Some (b, Some t') \<and> rb_nil t' = rb_nil t \<and>
    rb_tree_of cmp K t' T' \<and> spec_insert cmp (mem \<noteq> None) k v (entries T) = (b, entries T')"
proof (cases "store_find cmp k (entries T)")
  case (Some w)
  with rbtree_find_ok [OF assms(1-3)] assms(2) show ?thesis
    by (force simp: rbtree_insert_def spec_insert_def)
next
  case None
  with rbtree_find_ok [OF assms(1-3)] have f: "rbtree_find cmp (Some t) (Some k) = Some (rb_nil t)" by simp
  show ?thesis
  proof (cases mem)
    case None
    with f \<open>store_find cmp k (entries T) = None\<close> assms(2) show ?thesis
      by (force simp: rbtree_insert_def spec_insert_def rbtree_create_node_def)
  next
    case (Some a)
    with mem [of a] insert_node_ok [OF assms(1,2) _ _ assms(3) None, of a v] obtain t' T' where
      "insert_node cmp (t\<lparr>heap := (heap t)(a \<mapsto> cell BLACK k v (rb_nil t) (rb_nil t) (rb_nil t))\<rparr>) a = Some t'"
      "rb_nil t' = rb_nil t" "rb_tree_of cmp K t' T'" "entries T' = store_ins cmp k v (entries T)" "a \<noteq> 0" by blast
    with f None Some show ?thesis
      by (intro exI [of _ True] exI [of _ t'] exI [of _ T']) (simp add: rbtree_insert_def spec_insert_def rbtree_create_node_def)
  qed
qed

lemma rbtree_replace_ok:
  assumes "key_cmp cmp K" "rb_tree_of cmp K t T" "K k" and mem: "\<And>a. mem = Some a \<Longrightarrow> heap t a = None \<and> a \<noteq> 0"
  shows "\<exists>b fs t' T'. rbtree_replace cmp fr mem (Some t) (Some k) (Some v) = Some (b, fs, Some t') \<and> rb_nil t' = rb_nil t \<and>
    rb_tree_of cmp K t' T' \<and> spec_replace cmp (mem \<noteq> None) k v (entries T) = (b, entries T') \<and>
    fs = (case store_find cmp k (entries T) of None \<Rightarrow> [] | Some w \<Rightarrow> if fr then [(Some k, Some w)] else [])"
proof (cases "store_find cmp k (entries T)")
  case None
  with rbtree_find_ok [OF assms(1-3)] rbtree_insert_ok [OF assms, where v = v] show ?thesis
    by (force simp: rbtree_replace_def spec_replace_def)
next
  case (Some w)
  from assms(2) obtain nn where z: "zrep (rb_nil t) t [] T nn Map.empty" and nn: "colour nn = BLACK"
    and ok: "rb_ok T" "store_ok cmp K (entries T)" unfolding rb_tree_of_def by blast
  from Some rbtree_find_ok [OF assms(1-3)] obtain gs l a c r where g: "T = plug gs (Nd l a c k w r)"
    "rbtree_find cmp (Some t) (Some k) = Some a" "a \<noteq> rb_nil t" by auto
  with z have z1: "zrep (rb_nil t) t gs (Nd l a c k w r) nn Map.empty" by (simp add: zrep_top [of _ _ gs])
  from zrep_value [OF z1, of v] obtain t' where t': "upd_node a (nvalue_update (\<lambda>_. Some v)) t = Some t'"
    "zrep (rb_nil t) t' gs (Nd l a c k v r) nn Map.empty" by blast
  obtain p s where ps: "\<And>x. entries (plug gs x) = p @ entries x @ s" using entries_split by blast
  have e: "entries (plug gs (Nd l a c k v r)) = store_upd cmp k v (entries T)"
    using key_cmp.store_upd_split [OF assms(1), of "p @ entries l" k w "entries r @ s" v] ok(2) by (simp add: g(1) ps)
  have "rb_ok (plug gs (Nd l a c k v r))"
    using plug_bal [of gs "Nd l a c k w r"] ok(1) bal_plug [of _ "Nd l a c k v r" gs] unfolding g(1) by (cases c) auto
  with t'(2) nn e key_cmp.store_upd_ok [OF assms(1) ok(2)] zrep_nil [OF t'(2)]
  have "rb_tree_of cmp K t' (plug gs (Nd l a c k v r))" "rb_nil t' = rb_nil t"
    unfolding rb_tree_of_def by (auto simp: zrep_top [of _ _ gs])
  with g(2,3) t'(1) Some zrep_focus [OF z1] e show ?thesis
    by (force simp: rbtree_replace_def spec_replace_def)
qed

end
