(* ===== verification/RB_Erase.thy ===== *)
theory RB_Erase
  imports RB_Search
begin

text \<open>
  Removal: the fix-up after the removal of a black node ends, follows no bad pointer, keeps the entries
  and restores the colour invariant; \<open>rbtree_erase\<close> removes one entry and frees one node.
\<close>

subsection \<open>The turns of the loop for a left child\<close>

lemma zrep_parent:
  assumes "zrep nl t fs x nn X" "x = Lf \<longrightarrow> nparent nn = cpar nl fs"
  shows "\<exists>n. heap t (ptr nl x) = Some n \<and> nparent n = cpar nl fs"
  using assms by (cases x) (simp_all add: zrep_def)

lemma zrep_black_or_nil:
  assumes "zrep nl t fs x nn X"
  shows "black_or_nil t (ptr nl x) = Some (col x = BLACK)"
  using assms zrep_ne [of nl t fs] by (cases x) (auto simp: black_or_nil_def zrep_nil dest: zrep_focus)

lemma erase_left_red_skip:
  assumes z: "zrep nl t (LF p c k v (Nd sl s BLACK ks vs sr) # fs) x nn X" and "x = Lf \<longrightarrow> nparent nn = p"
  shows "erase_left_red t (ptr nl x) = Some (t, s)"
proof -
  have z1: "zrep nl t fs (Nd x p c k v (Nd sl s BLACK ks vs sr)) nn X"
    and z2: "zrep nl t (RF x p c k v # fs) (Nd sl s BLACK ks vs sr) nn X" using z by (simp_all add: zrep_LF zrep_RF)
  show ?thesis using zrep_parent [OF z] assms(2) zrep_focus [OF z1] zrep_focus [OF z2]
    by (auto simp: erase_left_red_def)
qed

lemma erase_left_red_rot:
  assumes z: "zrep nl t (LF p BLACK k v (Nd sl s RED ks vs sr) # fs) x nn X" and par: "x = Lf \<longrightarrow> nparent nn = p"
  shows "\<exists>t'. erase_left_red t (ptr nl x) = Some (t', ptr nl sl) \<and>
    zrep nl t' (LF p RED k v sl # LF s BLACK ks vs sr # fs) x nn X"
proof -
  have z1: "zrep nl t fs (Nd x p BLACK k v (Nd sl s RED ks vs sr)) nn X"
    and z2: "zrep nl t (RF x p BLACK k v # fs) (Nd sl s RED ks vs sr) nn X" using z by (simp_all add: zrep_LF zrep_RF)
  from zrep_colour [OF z1] obtain t1 where t1: "set_colour p RED t = Some t1"
    "zrep nl t1 fs (Nd x p RED k v (Nd sl s RED ks vs sr)) nn X" by blast
  then have "zrep nl t1 (RF x p RED k v # fs) (Nd sl s RED ks vs sr) nn X" by (simp add: zrep_RF)
  from zrep_colour [OF this] obtain t2 where t2: "set_colour s BLACK t1 = Some t2"
    "zrep nl t2 (RF x p RED k v # fs) (Nd sl s BLACK ks vs sr) nn X" by blast
  then have "zrep nl t2 fs (Nd x p RED k v (Nd sl s BLACK ks vs sr)) nn X" by (simp add: zrep_RF)
  from zrep_left_rot [OF this] obtain t3 where t3: "left_rot t2 p = Some t3"
    "zrep nl t3 fs (Nd (Nd x p RED k v sl) s BLACK ks vs sr) nn X" by blast
  then have z3: "zrep nl t3 (LF s BLACK ks vs sr # fs) (Nd x p RED k v sl) nn X"
    and z4: "zrep nl t3 (LF p RED k v sl # LF s BLACK ks vs sr # fs) x nn X" by (simp_all add: zrep_LF)
  from zrep_parent [OF z] zrep_parent [OF z4] par obtain n n' where "heap t (ptr nl x) = Some n" "nparent n = p"
    "heap t3 (ptr nl x) = Some n'" "nparent n' = p" by auto
  with t1(1) t2(1) t3(1) zrep_focus [OF z1] zrep_focus [OF z2] zrep_focus [OF z3] z4 show ?thesis
    by (simp add: erase_left_red_def)
qed

lemma erase_left_black_both:
  assumes z: "zrep nl t (LF p c k v (Nd sl s BLACK ks vs sr) # fs) x nn X" and par: "x = Lf \<longrightarrow> nparent nn = p"
    and "col sl = BLACK" "col sr = BLACK"
  shows "\<exists>t'. erase_left_black t (ptr nl x) s = Some (t', p) \<and> zrep nl t' fs (Nd x p c k v (Nd sl s RED ks vs sr)) nn X"
proof -
  let ?F = "RF x p c k v # fs"
  have zs: "zrep nl t ?F (Nd sl s BLACK ks vs sr) nn X" using z by (simp add: zrep_LF zrep_RF)
  then have zl: "zrep nl t (LF s BLACK ks vs sr # ?F) sl nn X" and zr: "zrep nl t (RF sl s BLACK ks vs # ?F) sr nn X"
    by (simp_all add: zrep_LF zrep_RF)
  from zrep_colour [OF zs] obtain t1 where t1: "set_colour s RED t = Some t1"
    "zrep nl t1 ?F (Nd sl s RED ks vs sr) nn X" by blast
  then have z1: "zrep nl t1 (LF p c k v (Nd sl s RED ks vs sr) # fs) x nn X" by (simp add: zrep_LF zrep_RF)
  from zrep_parent [OF z1] par obtain n where "heap t1 (ptr nl x) = Some n" "nparent n = p" by auto
  with assms(3,4) t1(1) z1 zrep_focus [OF zs] zrep_black_or_nil [OF zl] zrep_black_or_nil [OF zr] show ?thesis
    by (simp add: erase_left_black_def zrep_LF)
qed

text \<open>The last steps with a red far nephew.\<close>

lemma erase_left_finish:
  assumes z: "zrep nl t (LF p c k v (Nd sl s cs ks vs (Nd a r RED kr vr b)) # fs) x nn X" and par: "x = Lf \<longrightarrow> nparent nn = p"
  shows "\<exists>n m t1 t2 m2 t3 t4. heap t (ptr nl x) = Some n \<and> nparent n = p \<and> heap t p = Some m \<and> colour m = c \<and>
    set_colour s c t = Some t1 \<and> set_colour p BLACK t1 = Some t2 \<and> heap t2 s = Some m2 \<and> nright m2 = r \<and>
    set_colour r BLACK t2 = Some t3 \<and> left_rot t3 p = Some t4 \<and>
    zrep nl t4 fs (Nd (Nd x p BLACK k v sl) s c ks vs (Nd a r BLACK kr vr b)) nn X"
proof -
  let ?R = "Nd a r RED kr vr b"
  have zp: "zrep nl t fs (Nd x p c k v (Nd sl s cs ks vs ?R)) nn X"
    and zs: "zrep nl t (RF x p c k v # fs) (Nd sl s cs ks vs ?R) nn X" using z by (simp_all add: zrep_LF zrep_RF)
  from zrep_colour [OF zs] obtain t1 where t1: "set_colour s c t = Some t1"
    "zrep nl t1 (RF x p c k v # fs) (Nd sl s c ks vs ?R) nn X" by blast
  then have "zrep nl t1 fs (Nd x p c k v (Nd sl s c ks vs ?R)) nn X" by (simp add: zrep_RF)
  from zrep_colour [OF this] obtain t2 where t2: "set_colour p BLACK t1 = Some t2"
    "zrep nl t2 fs (Nd x p BLACK k v (Nd sl s c ks vs ?R)) nn X" by blast
  then have z2: "zrep nl t2 (RF x p BLACK k v # fs) (Nd sl s c ks vs ?R) nn X"
    and "zrep nl t2 (RF sl s c ks vs # RF x p BLACK k v # fs) ?R nn X" by (simp_all add: zrep_RF)
  from zrep_colour [OF this(2)] obtain t3 where t3: "set_colour r BLACK t2 = Some t3"
    "zrep nl t3 (RF sl s c ks vs # RF x p BLACK k v # fs) (Nd a r BLACK kr vr b) nn X" by blast
  then have "zrep nl t3 fs (Nd x p BLACK k v (Nd sl s c ks vs (Nd a r BLACK kr vr b))) nn X" by (simp add: zrep_RF)
  from zrep_left_rot [OF this] obtain t4 where "left_rot t3 p = Some t4"
    "zrep nl t4 fs (Nd (Nd x p BLACK k v sl) s c ks vs (Nd a r BLACK kr vr b)) nn X" by blast
  with t1(1) t2(1) t3(1) zrep_focus [OF zp] zrep_focus [OF z2] zrep_parent [OF z] par show ?thesis by auto
qed

lemma erase_left_black_far:
  assumes z: "zrep nl t (LF p c k v (Nd sl s BLACK ks vs (Nd a r RED kr vr b)) # fs) x nn X" and par: "x = Lf \<longrightarrow> nparent nn = p"
  shows "\<exists>t'. erase_left_black t (ptr nl x) s = Some (t', rb_root t') \<and>
    zrep nl t' fs (Nd (Nd x p BLACK k v sl) s c ks vs (Nd a r BLACK kr vr b)) nn X"
proof -
  let ?F = "RF x p c k v # fs" let ?R = "Nd a r RED kr vr b"
  have zs: "zrep nl t ?F (Nd sl s BLACK ks vs ?R) nn X" using z by (simp add: zrep_LF zrep_RF)
  then have zl: "zrep nl t (LF s BLACK ks vs ?R # ?F) sl nn X" and zr: "zrep nl t (RF sl s BLACK ks vs # ?F) ?R nn X"
    by (simp_all add: zrep_LF zrep_RF)
  from erase_left_finish [OF z par] zrep_focus [OF zs] zrep_black_or_nil [OF zl] zrep_black_or_nil [OF zr] show ?thesis
    by (auto simp: erase_left_black_def)
qed

lemma erase_left_black_near:
  assumes z: "zrep nl t (LF p c k v (Nd (Nd a l RED kl vl b) s BLACK ks vs sr) # fs) x nn X" and par: "x = Lf \<longrightarrow> nparent nn = p"
    and "col sr = BLACK"
  shows "\<exists>t'. erase_left_black t (ptr nl x) s = Some (t', rb_root t') \<and>
    zrep nl t' fs (Nd (Nd x p BLACK k v a) l c kl vl (Nd b s BLACK ks vs sr)) nn X"
proof -
  let ?F = "RF x p c k v # fs" let ?L = "Nd a l RED kl vl b"
  have zs: "zrep nl t ?F (Nd ?L s BLACK ks vs sr) nn X" using z by (simp add: zrep_LF zrep_RF)
  then have zl: "zrep nl t (LF s BLACK ks vs sr # ?F) ?L nn X" and zr: "zrep nl t (RF ?L s BLACK ks vs # ?F) sr nn X"
    by (simp_all add: zrep_LF zrep_RF)
  from zrep_colour [OF zs] obtain t1 where t1: "set_colour s RED t = Some t1"
    and z1: "zrep nl t1 ?F (Nd ?L s RED ks vs sr) nn X" by blast
  then have "zrep nl t1 (LF s RED ks vs sr # ?F) ?L nn X" by (simp add: zrep_LF)
  from zrep_colour [OF this] obtain t2 where t2: "set_colour l BLACK t1 = Some t2"
    "zrep nl t2 (LF s RED ks vs sr # ?F) (Nd a l BLACK kl vl b) nn X" by blast
  then have "zrep nl t2 ?F (Nd (Nd a l BLACK kl vl b) s RED ks vs sr) nn X" by (simp add: zrep_LF)
  from zrep_right_rot [OF this] obtain t3 where t3: "right_rot t2 s = Some t3"
    "zrep nl t3 ?F (Nd a l BLACK kl vl (Nd b s RED ks vs sr)) nn X" by blast
  then have z3: "zrep nl t3 (LF p c k v (Nd a l BLACK kl vl (Nd b s RED ks vs sr)) # fs) x nn X"
    and z3': "zrep nl t3 fs (Nd x p c k v (Nd a l BLACK kl vl (Nd b s RED ks vs sr))) nn X" by (simp_all add: zrep_LF zrep_RF)
  from erase_left_finish [OF z3 par] t1 t2(1) t3(1) zrep_focus [OF zs] zrep_focus [OF z1] zrep_focus [OF z3']
    zrep_black_or_nil [OF zl] zrep_black_or_nil [OF zr] assms(3) show ?thesis
    by (auto simp: erase_left_black_def)
qed

subsection \<open>The turns of the loop for a right child\<close>

lemma erase_right_red_skip:
  assumes z: "zrep nl t (RF (Nd sr s BLACK ks vs sl) p c k v # fs) x nn X" and "x = Lf \<longrightarrow> nparent nn = p"
  shows "erase_right_red t (ptr nl x) = Some (t, s)"
proof -
  have z1: "zrep nl t fs (Nd (Nd sr s BLACK ks vs sl) p c k v x) nn X"
    and z2: "zrep nl t (LF p c k v x # fs) (Nd sr s BLACK ks vs sl) nn X" using z by (simp_all add: zrep_RF zrep_LF)
  show ?thesis using zrep_parent [OF z] assms(2) zrep_focus [OF z1] zrep_focus [OF z2]
    by (auto simp: erase_right_red_def)
qed

lemma erase_right_red_rot:
  assumes z: "zrep nl t (RF (Nd sr s RED ks vs sl) p BLACK k v # fs) x nn X" and par: "x = Lf \<longrightarrow> nparent nn = p"
  shows "\<exists>t'. erase_right_red t (ptr nl x) = Some (t', ptr nl sl) \<and>
    zrep nl t' (RF sl p RED k v # RF sr s BLACK ks vs # fs) x nn X"
proof -
  have z1: "zrep nl t fs (Nd (Nd sr s RED ks vs sl) p BLACK k v x) nn X"
    and z2: "zrep nl t (LF p BLACK k v x # fs) (Nd sr s RED ks vs sl) nn X" using z by (simp_all add: zrep_RF zrep_LF)
  from zrep_colour [OF z2] obtain t1 where t1: "set_colour s BLACK t = Some t1"
    "zrep nl t1 (LF p BLACK k v x # fs) (Nd sr s BLACK ks vs sl) nn X" by blast
  then have "zrep nl t1 fs (Nd (Nd sr s BLACK ks vs sl) p BLACK k v x) nn X" by (simp add: zrep_LF)
  from zrep_colour [OF this] obtain t2 where t2: "set_colour p RED t1 = Some t2"
    "zrep nl t2 fs (Nd (Nd sr s BLACK ks vs sl) p RED k v x) nn X" by blast
  from zrep_right_rot [OF t2(2)] obtain t3 where t3: "right_rot t2 p = Some t3"
    "zrep nl t3 fs (Nd sr s BLACK ks vs (Nd sl p RED k v x)) nn X" by blast
  then have z3: "zrep nl t3 (RF sr s BLACK ks vs # fs) (Nd sl p RED k v x) nn X"
    and z4: "zrep nl t3 (RF sl p RED k v # RF sr s BLACK ks vs # fs) x nn X" by (simp_all add: zrep_RF)
  from zrep_parent [OF z] zrep_parent [OF z4] par obtain n n' where "heap t (ptr nl x) = Some n" "nparent n = p"
    "heap t3 (ptr nl x) = Some n'" "nparent n' = p" by auto
  with t1(1) t2(1) t3(1) zrep_focus [OF z1] zrep_focus [OF z2] zrep_focus [OF z3] z4 show ?thesis
    by (simp add: erase_right_red_def)
qed

lemma erase_right_black_both:
  assumes z: "zrep nl t (RF (Nd sr s BLACK ks vs sl) p c k v # fs) x nn X" and par: "x = Lf \<longrightarrow> nparent nn = p"
    and "col sl = BLACK" "col sr = BLACK"
  shows "\<exists>t'. erase_right_black t (ptr nl x) s = Some (t', p) \<and> zrep nl t' fs (Nd (Nd sr s RED ks vs sl) p c k v x) nn X"
proof -
  let ?F = "LF p c k v x # fs"
  have zs: "zrep nl t ?F (Nd sr s BLACK ks vs sl) nn X" using z by (simp add: zrep_RF zrep_LF)
  then have zl: "zrep nl t (RF sr s BLACK ks vs # ?F) sl nn X" and zr: "zrep nl t (LF s BLACK ks vs sl # ?F) sr nn X"
    by (simp_all add: zrep_RF zrep_LF)
  from zrep_colour [OF zs] obtain t1 where t1: "set_colour s RED t = Some t1"
    "zrep nl t1 ?F (Nd sr s RED ks vs sl) nn X" by blast
  then have z1: "zrep nl t1 (RF (Nd sr s RED ks vs sl) p c k v # fs) x nn X" by (simp add: zrep_RF zrep_LF)
  from zrep_parent [OF z1] par obtain n where "heap t1 (ptr nl x) = Some n" "nparent n = p" by auto
  with assms(3,4) t1(1) z1 zrep_focus [OF zs] zrep_black_or_nil [OF zl] zrep_black_or_nil [OF zr] show ?thesis
    by (simp add: erase_right_black_def zrep_RF)
qed

text \<open>The last steps with a red far nephew.\<close>

lemma erase_right_finish:
  assumes z: "zrep nl t (RF (Nd (Nd b r RED kr vr a) s cs ks vs sl) p c k v # fs) x nn X" and par: "x = Lf \<longrightarrow> nparent nn = p"
  shows "\<exists>n m t1 t2 m2 t3 t4. heap t (ptr nl x) = Some n \<and> nparent n = p \<and> heap t p = Some m \<and> colour m = c \<and>
    set_colour s c t = Some t1 \<and> set_colour p BLACK t1 = Some t2 \<and> heap t2 s = Some m2 \<and> nleft m2 = r \<and>
    set_colour r BLACK t2 = Some t3 \<and> right_rot t3 p = Some t4 \<and>
    zrep nl t4 fs (Nd (Nd b r BLACK kr vr a) s c ks vs (Nd sl p BLACK k v x)) nn X"
proof -
  let ?R = "Nd b r RED kr vr a"
  have zp: "zrep nl t fs (Nd (Nd ?R s cs ks vs sl) p c k v x) nn X"
    and zs: "zrep nl t (LF p c k v x # fs) (Nd ?R s cs ks vs sl) nn X" using z by (simp_all add: zrep_RF zrep_LF)
  from zrep_colour [OF zs] obtain t1 where t1: "set_colour s c t = Some t1"
    "zrep nl t1 (LF p c k v x # fs) (Nd ?R s c ks vs sl) nn X" by blast
  then have "zrep nl t1 fs (Nd (Nd ?R s c ks vs sl) p c k v x) nn X" by (simp add: zrep_LF)
  from zrep_colour [OF this] obtain t2 where t2: "set_colour p BLACK t1 = Some t2"
    "zrep nl t2 fs (Nd (Nd ?R s c ks vs sl) p BLACK k v x) nn X" by blast
  then have z2: "zrep nl t2 (LF p BLACK k v x # fs) (Nd ?R s c ks vs sl) nn X"
    and "zrep nl t2 (LF s c ks vs sl # LF p BLACK k v x # fs) ?R nn X" by (simp_all add: zrep_LF)
  from zrep_colour [OF this(2)] obtain t3 where t3: "set_colour r BLACK t2 = Some t3"
    "zrep nl t3 (LF s c ks vs sl # LF p BLACK k v x # fs) (Nd b r BLACK kr vr a) nn X" by blast
  then have "zrep nl t3 fs (Nd (Nd (Nd b r BLACK kr vr a) s c ks vs sl) p BLACK k v x) nn X" by (simp add: zrep_LF)
  from zrep_right_rot [OF this] obtain t4 where "right_rot t3 p = Some t4"
    "zrep nl t4 fs (Nd (Nd b r BLACK kr vr a) s c ks vs (Nd sl p BLACK k v x)) nn X" by blast
  with t1(1) t2(1) t3(1) zrep_focus [OF zp] zrep_focus [OF z2] zrep_parent [OF z] par show ?thesis by auto
qed

lemma erase_right_black_far:
  assumes z: "zrep nl t (RF (Nd (Nd b r RED kr vr a) s BLACK ks vs sl) p c k v # fs) x nn X" and par: "x = Lf \<longrightarrow> nparent nn = p"
  shows "\<exists>t'. erase_right_black t (ptr nl x) s = Some (t', rb_root t') \<and>
    zrep nl t' fs (Nd (Nd b r BLACK kr vr a) s c ks vs (Nd sl p BLACK k v x)) nn X"
proof -
  let ?F = "LF p c k v x # fs" let ?R = "Nd b r RED kr vr a"
  have zs: "zrep nl t ?F (Nd ?R s BLACK ks vs sl) nn X" using z by (simp add: zrep_RF zrep_LF)
  then have zl: "zrep nl t (RF ?R s BLACK ks vs # ?F) sl nn X" and zr: "zrep nl t (LF s BLACK ks vs sl # ?F) ?R nn X"
    by (simp_all add: zrep_RF zrep_LF)
  from erase_right_finish [OF z par] zrep_focus [OF zs] zrep_black_or_nil [OF zl] zrep_black_or_nil [OF zr] show ?thesis
    by (auto simp: erase_right_black_def)
qed

lemma erase_right_black_near:
  assumes z: "zrep nl t (RF (Nd sr s BLACK ks vs (Nd b l RED kl vl a)) p c k v # fs) x nn X" and par: "x = Lf \<longrightarrow> nparent nn = p"
    and "col sr = BLACK"
  shows "\<exists>t'. erase_right_black t (ptr nl x) s = Some (t', rb_root t') \<and>
    zrep nl t' fs (Nd (Nd sr s BLACK ks vs b) l c kl vl (Nd a p BLACK k v x)) nn X"
proof -
  let ?F = "LF p c k v x # fs" let ?L = "Nd b l RED kl vl a"
  have zs: "zrep nl t ?F (Nd sr s BLACK ks vs ?L) nn X" using z by (simp add: zrep_RF zrep_LF)
  then have zl: "zrep nl t (RF sr s BLACK ks vs # ?F) ?L nn X" and zr: "zrep nl t (LF s BLACK ks vs ?L # ?F) sr nn X"
    by (simp_all add: zrep_RF zrep_LF)
  from zrep_colour [OF zs] obtain t1 where t1: "set_colour s RED t = Some t1"
    and z1: "zrep nl t1 ?F (Nd sr s RED ks vs ?L) nn X" by blast
  then have "zrep nl t1 (RF sr s RED ks vs # ?F) ?L nn X" by (simp add: zrep_RF)
  from zrep_colour [OF this] obtain t2 where t2: "set_colour l BLACK t1 = Some t2"
    "zrep nl t2 (RF sr s RED ks vs # ?F) (Nd b l BLACK kl vl a) nn X" by blast
  then have "zrep nl t2 ?F (Nd sr s RED ks vs (Nd b l BLACK kl vl a)) nn X" by (simp add: zrep_RF)
  from zrep_left_rot [OF this] obtain t3 where t3: "left_rot t2 s = Some t3"
    "zrep nl t3 ?F (Nd (Nd sr s RED ks vs b) l BLACK kl vl a) nn X" by blast
  then have z3: "zrep nl t3 (RF (Nd (Nd sr s RED ks vs b) l BLACK kl vl a) p c k v # fs) x nn X"
    and z3': "zrep nl t3 fs (Nd (Nd (Nd sr s RED ks vs b) l BLACK kl vl a) p c k v x) nn X" by (simp_all add: zrep_RF zrep_LF)
  from erase_right_finish [OF z3 par] t1 t2(1) t3(1) zrep_focus [OF zs] zrep_focus [OF z1] zrep_focus [OF z3']
    zrep_black_or_nil [OF zl] zrep_black_or_nil [OF zr] assms(3) show ?thesis
    by (auto simp: erase_right_black_def)
qed

subsection \<open>The loop\<close>

lemma plug_root: "fs \<noteq> [] \<Longrightarrow> ptr nl (plug fs x) \<in> set (caddrs fs)"
proof (induction fs arbitrary: x rule: caddrs.induct)
  case (2 a c k v r fs)
  then show ?case by (cases "fs = []") auto
next
  case (3 l a c k v fs)
  then show ?case by (cases "fs = []") auto
qed simp

lemma zrep_not_root: "zrep nl t fs x nn X \<Longrightarrow> fs \<noteq> [] \<Longrightarrow> ptr nl x \<noteq> rb_root t"
  using plug_root [of fs nl x] ptr_cases [of nl x] by (auto simp: zrep_def)

lemma erase_stop_root:
  assumes z: "zrep nl t [] T nn X" and nn: "colour nn = BLACK"
  shows "\<exists>t'. rbtree_erase_fixup t (rb_root t) = Some t' \<and> zrep nl t' [] (blacken T) nn X"
proof (cases T)
  case Lf
  have "(heap t)(nl \<mapsto> nn) = heap t" "colour_update (\<lambda>_. BLACK) nn = nn" using z nn by (auto simp: zrep_def)
  with z Lf have "upd_node nl (colour_update (\<lambda>_. BLACK)) t = Some t" by (simp add: upd_node_def zrep_def)
  with z Lf show ?thesis
    by (subst rbtree_erase_fixup.simps) (simp add: zrep_def black_or_nil_def)
next
  case (Nd l a c k v r)
  with zrep_colour [OF z [unfolded Nd], of BLACK] zrep_root [OF z] zrep_ne [OF z [unfolded Nd]]
    zrep_black_or_nil [OF z] show ?thesis
    by (subst rbtree_erase_fixup.simps) simp
qed

lemma erase_stop_red:
  assumes z: "zrep nl t fs (Nd l a RED k v r) nn X"
  shows "\<exists>t'. rbtree_erase_fixup t a = Some t' \<and> zrep nl t' fs (Nd l a BLACK k v r) nn X"
  using zrep_colour [OF z, of BLACK] zrep_ne [OF z] zrep_black_or_nil [OF z]
  by (subst rbtree_erase_fixup.simps) simp

text \<open>What one turn achieves: a subtree of the right shape that still lacks one black node, at the head
  of \<open>fs\<close>, or a good tree.\<close>

definition erase_turn_ok ::
    "nat \<Rightarrow> ('k, 'v) rb_tree \<Rightarrow> nat \<Rightarrow> ('k, 'v) frame list \<Rightarrow> ('k, 'v) rbt \<Rightarrow> nat \<Rightarrow> ('k, 'v) rb_node \<Rightarrow> (nat \<rightharpoonup> ('k, 'v) rb_node) \<Rightarrow> bool" where
  "erase_turn_ok nl t q fs x n nn X \<longleftrightarrow>
     (\<exists>t' y. rbtree_erase_fixup t q = rbtree_erase_fixup t' (ptr nl y) \<and> y \<noteq> Lf \<and> zrep nl t' fs y nn X \<and>
        bal n y \<and> cbal (Suc n) fs \<and> entries y = entries x) \<or>
     (\<exists>t' T. rbtree_erase_fixup t q = Some t' \<and> zrep nl t' [] T nn X \<and> entries T = entries (plug fs x) \<and> rb_ok T)"

lemma erase_turn_root:
  assumes "rbtree_erase_fixup t q = rbtree_erase_fixup t' (rb_root t')" "zrep nl t' fs y nn X" "colour nn = BLACK"
    and "bal n y" "cbal n fs" "col y = BLACK \<or> ccol fs = BLACK" "entries (plug fs y) = entries (plug gs x)"
  shows "erase_turn_ok nl t q gs x m nn X"
  using erase_stop_root [of nl t' "plug fs y" nn X] assms(1-3,7) bal_plug [OF assms(4-6)]
  unfolding erase_turn_ok_def by (auto simp: zrep_top [of nl t' fs] rb_ok_blacken)

lemma erase_turn_red:
  assumes "rbtree_erase_fixup t q = rbtree_erase_fixup t' a" "zrep nl t' fs (Nd l a RED k v r) nn X"
    and "bal n l" "bal n r" "cbal (Suc n) fs" "entries (plug fs (Nd l a BLACK k v r)) = entries (plug gs x)"
  shows "erase_turn_ok nl t q gs x m nn X"
  using erase_stop_red [OF assms(2)] assms(1,3-6) bal_plug [of "Suc n" "Nd l a BLACK k v r" fs]
  unfolding erase_turn_ok_def by (auto simp: zrep_top [of nl _ fs])

lemma erase_fixup_left:
  assumes z: "zrep nl t (LF p c k v s # fs) x nn X" and par: "x = Lf \<longrightarrow> nparent nn = p" and "col x = BLACK"
    and "erase_left_red t (ptr nl x) = Some (t1, b)" "erase_left_black t1 (ptr nl x) b = Some (t', d)"
  shows "rbtree_erase_fixup t (ptr nl x) = rbtree_erase_fixup t' d"
proof -
  have z1: "zrep nl t fs (Nd x p c k v s) nn X" using z by (simp add: zrep_LF)
  from zrep_parent [OF z] par obtain n where "heap t (ptr nl x) = Some n" "nparent n = p" by auto
  with assms(3-5) zrep_not_root [OF z] zrep_black_or_nil [OF z] zrep_focus [OF z1] show ?thesis
    by (subst rbtree_erase_fixup.simps) (simp add: do_with_left_node_not_null_def)
qed

lemma erase_fixup_right:
  assumes z: "zrep nl t (RF s p c k v # fs) x nn X" and par: "x = Lf \<longrightarrow> nparent nn = p" and "col x = BLACK" "s \<noteq> Lf"
    and "erase_right_red t (ptr nl x) = Some (t1, b)" "erase_right_black t1 (ptr nl x) b = Some (t', d)"
  shows "rbtree_erase_fixup t (ptr nl x) = rbtree_erase_fixup t' d"
proof -
  have z1: "zrep nl t fs (Nd s p c k v x) nn X" using z by (simp add: zrep_RF)
  have "ptr nl x \<noteq> ptr nl s" using z1 \<open>s \<noteq> Lf\<close> ptr_cases [of nl x] by (cases s) (auto simp: zrep_def)
  moreover from zrep_parent [OF z] par obtain n where "heap t (ptr nl x) = Some n" "nparent n = p" by auto
  ultimately show ?thesis using assms(3,5,6) zrep_not_root [OF z] zrep_black_or_nil [OF z] zrep_focus [OF z1]
    by (subst rbtree_erase_fixup.simps) (simp add: do_with_left_node_null_def)
qed

text \<open>A turn whose sibling is black by now; \<open>up\<close> says what happens when nothing is rotated.\<close>

lemma erase_turn_left_black:
  assumes z: "zrep nl t' (LF p c k v s # fs) x nn X" and par: "x = Lf \<longrightarrow> nparent nn = p" and nn: "colour nn = BLACK"
    and b: "bal n x" "cbal (Suc n) (LF p c k v s # fs)" "col s = BLACK"
    and stp: "\<And>t'' d. erase_left_black t' (ptr nl x) (ptr nl s) = Some (t'', d) \<Longrightarrow> rbtree_erase_fixup t q = rbtree_erase_fixup t'' d"
    and e: "entries (plug fs (Nd x p c k v s)) = entries (plug gs y)"
    and up: "c = BLACK \<Longrightarrow> fs = gs \<and> entries (Nd x p c k v s) = entries y \<and> m = Suc n"
  shows "erase_turn_ok nl t q gs y m nn X"
proof -
  from b(2,3) obtain sl sa ks vs sr where s: "s = Nd sl sa BLACK ks vs sr" by (cases s; cases c) auto
  with b have bs: "bal n sl" "bal n sr" "cbal (if c = RED then Suc n else Suc (Suc n)) fs" "c = RED \<longrightarrow> ccol fs = BLACK"
    by (cases c; simp)+
  have E: "entries (plug fs z) = entries (plug gs y)" if "entries z = entries (Nd x p c k v s)" for z
    using entries_plug [OF that, of fs] e by simp
  note z = z [unfolded s] and stp = stp [unfolded s ptr.simps]
  consider "col sl = BLACK" "col sr = BLACK" | "col sr = RED" | "col sl = RED" "col sr = BLACK"
    by (cases "col sl"; cases "col sr") auto
  then show ?thesis
  proof cases
    case 1
    from erase_left_black_both [OF z par 1] obtain t'' where t'': "erase_left_black t' (ptr nl x) sa = Some (t'', p)"
      "zrep nl t'' fs (Nd x p c k v (Nd sl sa RED ks vs sr)) nn X" by blast
    show ?thesis
    proof (cases c)
      case RED
      show ?thesis
        by (rule erase_turn_red [OF stp [OF t''(1)] t''(2) [unfolded RED]]) (use b(1) bs 1 RED E s in auto)
    next
      case BLACK
      have "ptr nl (Nd x p c k v (Nd sl sa RED ks vs sr)) = p" by simp
      with stp [OF t''(1)] t''(2) b(1) bs 1 up [OF BLACK] s BLACK show ?thesis
        unfolding erase_turn_ok_def by (intro disjI1 exI [of _ t''] exI [of _ "Nd x p c k v (Nd sl sa RED ks vs sr)"]) simp
    qed
  next
    case 2
    then obtain a r kr vr d where sr: "sr = Nd a r RED kr vr d" by (cases sr) auto
    from erase_left_black_far [OF z [unfolded sr] par] obtain t'' where t'': "erase_left_black t' (ptr nl x) sa = Some (t'', rb_root t'')"
      "zrep nl t'' fs (Nd (Nd x p BLACK k v sl) sa c ks vs (Nd a r BLACK kr vr d)) nn X" by blast
    show ?thesis
      by (rule erase_turn_root [OF stp [OF t''(1)] t''(2) nn, of "if c = RED then Suc n else Suc (Suc n)"])
        (use b(1) bs E s sr in \<open>cases c; auto\<close>)+
  next
    case 3
    then obtain a l kl vl d where sl: "sl = Nd a l RED kl vl d" by (cases sl) auto
    from erase_left_black_near [OF z [unfolded sl] par 3(2)] obtain t'' where t'': "erase_left_black t' (ptr nl x) sa = Some (t'', rb_root t'')"
      "zrep nl t'' fs (Nd (Nd x p BLACK k v a) l c kl vl (Nd d sa BLACK ks vs sr)) nn X" by blast
    show ?thesis
      by (rule erase_turn_root [OF stp [OF t''(1)] t''(2) nn, of "if c = RED then Suc n else Suc (Suc n)"])
        (use b(1) bs E s sl in \<open>cases c; auto\<close>)+
  qed
qed

lemma erase_turn_left:
  assumes z: "zrep nl t (LF p c k v s # fs) x nn X" and par: "x = Lf \<longrightarrow> nparent nn = p" and nn: "colour nn = BLACK"
    and b: "bal n x" "cbal (Suc n) (LF p c k v s # fs)" "col x = BLACK"
  shows "erase_turn_ok nl t (ptr nl x) fs (Nd x p c k v s) (Suc n) nn X"
proof (cases "col s")
  case BLACK
  with b(2) obtain sl sa ks vs sr where s: "s = Nd sl sa BLACK ks vs sr" by (cases s; cases c) auto
  note stp = erase_fixup_left [OF z par b(3), unfolded s, OF erase_left_red_skip [OF z [unfolded s] par]]
  show ?thesis
    by (rule erase_turn_left_black [OF z par nn b(1,2) BLACK]) (use stp s in simp_all)
next
  case RED
  with b(2) obtain sl sa ks vs sr where s: "s = Nd sl sa RED ks vs sr" and c: "c = BLACK" by (cases s; cases c) auto
  from erase_left_red_rot [OF z [unfolded s c] par] obtain t' where t': "erase_left_red t (ptr nl x) = Some (t', ptr nl sl)"
    "zrep nl t' (LF p RED k v sl # LF sa BLACK ks vs sr # fs) x nn X" by blast
  show ?thesis
    by (rule erase_turn_left_black [OF t'(2) par nn b(1)])
      (use erase_fixup_left [OF z par b(3) t'(1)] b(2) in \<open>auto simp: s c intro: entries_plug\<close>)
qed

lemma erase_turn_right_black:
  assumes z: "zrep nl t' (RF s p c k v # fs) x nn X" and par: "x = Lf \<longrightarrow> nparent nn = p" and nn: "colour nn = BLACK"
    and b: "bal n x" "cbal (Suc n) (RF s p c k v # fs)" "col s = BLACK"
    and stp: "\<And>t'' d. erase_right_black t' (ptr nl x) (ptr nl s) = Some (t'', d) \<Longrightarrow> rbtree_erase_fixup t q = rbtree_erase_fixup t'' d"
    and e: "entries (plug fs (Nd s p c k v x)) = entries (plug gs y)"
    and up: "c = BLACK \<Longrightarrow> fs = gs \<and> entries (Nd s p c k v x) = entries y \<and> m = Suc n"
  shows "erase_turn_ok nl t q gs y m nn X"
proof -
  from b(2,3) obtain sl sa ks vs sr where s: "s = Nd sr sa BLACK ks vs sl" by (cases s; cases c) auto
  with b have bs: "bal n sl" "bal n sr" "cbal (if c = RED then Suc n else Suc (Suc n)) fs" "c = RED \<longrightarrow> ccol fs = BLACK"
    by (cases c; simp)+
  have E: "entries (plug fs z) = entries (plug gs y)" if "entries z = entries (Nd s p c k v x)" for z
    using entries_plug [OF that, of fs] e by simp
  note z = z [unfolded s] and stp = stp [unfolded s ptr.simps]
  consider "col sl = BLACK" "col sr = BLACK" | "col sr = RED" | "col sl = RED" "col sr = BLACK"
    by (cases "col sl"; cases "col sr") auto
  then show ?thesis
  proof cases
    case 1
    from erase_right_black_both [OF z par 1] obtain t'' where t'': "erase_right_black t' (ptr nl x) sa = Some (t'', p)"
      "zrep nl t'' fs (Nd (Nd sr sa RED ks vs sl) p c k v x) nn X" by blast
    show ?thesis
    proof (cases c)
      case RED
      show ?thesis
        by (rule erase_turn_red [OF stp [OF t''(1)] t''(2) [unfolded RED]]) (use b(1) bs 1 RED E s in auto)
    next
      case BLACK
      have "ptr nl (Nd (Nd sr sa RED ks vs sl) p c k v x) = p" by simp
      with stp [OF t''(1)] t''(2) b(1) bs 1 up [OF BLACK] s BLACK show ?thesis
        unfolding erase_turn_ok_def by (intro disjI1 exI [of _ t''] exI [of _ "Nd (Nd sr sa RED ks vs sl) p c k v x"]) simp
    qed
  next
    case 2
    then obtain a r kr vr d where sr: "sr = Nd d r RED kr vr a" by (cases sr) auto
    from erase_right_black_far [OF z [unfolded sr] par] obtain t'' where t'': "erase_right_black t' (ptr nl x) sa = Some (t'', rb_root t'')"
      "zrep nl t'' fs (Nd (Nd d r BLACK kr vr a) sa c ks vs (Nd sl p BLACK k v x)) nn X" by blast
    show ?thesis
      by (rule erase_turn_root [OF stp [OF t''(1)] t''(2) nn, of "if c = RED then Suc n else Suc (Suc n)"])
        (use b(1) bs E s sr in \<open>cases c; auto\<close>)+
  next
    case 3
    then obtain a l kl vl d where sl: "sl = Nd d l RED kl vl a" by (cases sl) auto
    from erase_right_black_near [OF z [unfolded sl] par 3(2)] obtain t'' where t'': "erase_right_black t' (ptr nl x) sa = Some (t'', rb_root t'')"
      "zrep nl t'' fs (Nd (Nd sr sa BLACK ks vs d) l c kl vl (Nd a p BLACK k v x)) nn X" by blast
    show ?thesis
      by (rule erase_turn_root [OF stp [OF t''(1)] t''(2) nn, of "if c = RED then Suc n else Suc (Suc n)"])
        (use b(1) bs E s sl in \<open>cases c; auto\<close>)+
  qed
qed

lemma erase_turn_right:
  assumes z: "zrep nl t (RF s p c k v # fs) x nn X" and par: "x = Lf \<longrightarrow> nparent nn = p" and nn: "colour nn = BLACK"
    and b: "bal n x" "cbal (Suc n) (RF s p c k v # fs)" "col x = BLACK"
  shows "erase_turn_ok nl t (ptr nl x) fs (Nd s p c k v x) (Suc n) nn X"
proof (cases "col s")
  case BLACK
  with b(2) obtain sl sa ks vs sr where s: "s = Nd sr sa BLACK ks vs sl" by (cases s; cases c) auto
  note stp = erase_fixup_right [OF z par b(3), unfolded s, OF rbt.distinct(2) erase_right_red_skip [OF z [unfolded s] par]]
  show ?thesis
    by (rule erase_turn_right_black [OF z par nn b(1,2) BLACK]) (use stp s in simp_all)
next
  case RED
  with b(2) obtain sl sa ks vs sr where s: "s = Nd sr sa RED ks vs sl" and c: "c = BLACK" by (cases s; cases c) auto
  from erase_right_red_rot [OF z [unfolded s c] par] obtain t' where t': "erase_right_red t (ptr nl x) = Some (t', ptr nl sl)"
    "zrep nl t' (RF sl p RED k v # RF sr sa BLACK ks vs # fs) x nn X" by blast
  show ?thesis
    by (rule erase_turn_right_black [OF t'(2) par nn b(1)])
      (use erase_fixup_right [OF z par b(3) _ t'(1)] b(2) in \<open>auto simp: s c intro: entries_plug\<close>)
qed

lemma erase_fixup_ok:
  assumes "zrep nl t fs x nn X" "colour nn = BLACK" "x = Lf \<longrightarrow> nparent nn = cpar nl fs"
    and "bal n x" "cbal (Suc n) fs"
  shows "\<exists>t' T. rbtree_erase_fixup t (ptr nl x) = Some t' \<and> zrep nl t' [] T nn X \<and>
    entries T = entries (plug fs x) \<and> rb_ok T"
  using assms
proof (induction "length fs" arbitrary: fs t x n rule: less_induct)
  case less
  note z = less.prems(1) and nn = less.prems(2)
  consider "fs = []" | "fs \<noteq> []" "col x = RED" | "fs \<noteq> []" "col x = BLACK" by (cases "col x") auto
  then show ?case
  proof cases
    case 1
    then have "rb_ok (blacken x)" using less.prems(4) by (cases x; cases "col x") (auto simp: rb_ok_def)
    with 1 erase_stop_root [OF z [unfolded 1] nn] zrep_root [OF z] show ?thesis by fastforce
  next
    case 2
    then obtain l a k v r where x: "x = Nd l a RED k v r" by (cases x) auto
    from erase_stop_red [OF z [unfolded x]] less.prems(4,5) bal_plug [of "Suc n" "Nd l a BLACK k v r" fs]
      entries_plug [of "Nd l a BLACK k v r" x fs] show ?thesis by (auto simp: x zrep_top [of nl _ fs])
  next
    case 3
    then obtain F gs where fs: "fs = F # gs" by (cases fs) auto
    have "\<exists>y. plug fs x = plug gs y \<and> erase_turn_ok nl t (ptr nl x) gs y (Suc n) nn X"
    proof (cases F)
      case (LF p c k v s)
      with erase_turn_left [of nl t p c k v s gs x nn X n] less.prems 3 fs show ?thesis
        by (auto intro!: exI [of _ "Nd x p c k v s"])
    next
      case (RF s p c k v)
      with erase_turn_right [of nl t s p c k v gs x nn X n] less.prems 3 fs show ?thesis
        by (auto intro!: exI [of _ "Nd s p c k v x"])
    qed
    then obtain y where y: "plug fs x = plug gs y" "erase_turn_ok nl t (ptr nl x) gs y (Suc n) nn X" by blast
    have sh: "length gs < length fs" using fs by simp
    from y(2) show ?thesis unfolding erase_turn_ok_def
    proof (elim disjE exE conjE, goal_cases)
      case (1 t' w)
      from less.hyps [OF sh 1(3) nn _ 1(4,5)] 1(1,2) entries_plug [OF 1(6), of gs] y(1) show ?case by simp
    next
      case (2 t' T)
      with y(1) show ?case by auto
    qed
  qed
qed

subsection \<open>Unlinking a node\<close>

lemma transplant_eval:
  assumes "heap t u = Some un" "heap t (nparent un) = Some pn" "heap t v = Some vn" "u \<noteq> nparent un" "u \<noteq> v"
    and "nparent un \<noteq> rb_nil t \<longrightarrow> v \<noteq> nparent un"
  shows "rbtree_transplant t u v = Some (t\<lparr>rb_root := if nparent un = rb_nil t then v else rb_root t,
     heap := (if nparent un = rb_nil t then heap t
              else (heap t)(nparent un \<mapsto> if u = nleft pn then pn\<lparr>nleft := v\<rparr> else pn\<lparr>nright := v\<rparr>))
       (v \<mapsto> vn\<lparr>nparent := nparent un\<rparr>)\<rparr>)"
  using assms by (cases "nparent un = rb_nil t"; cases "u = nleft pn") (simp_all add: rbtree_transplant_def upd_Some)

text \<open>What a hole leaves behind in the sentinel, when the subtree put there is empty.\<close>

definition nil_at :: "nat \<Rightarrow> ('k, 'v) frame list \<Rightarrow> ('k, 'v) rbt \<Rightarrow> ('k, 'v) rb_node \<Rightarrow> ('k, 'v) rb_node" where
  "nil_at nl fs x nn = (if x = Lf then nn\<lparr>nparent := cpar nl fs\<rparr> else nn)"

lemma nil_at_simps [simp]:
  "colour (nil_at nl fs x nn) = colour nn" "x = Lf \<longrightarrow> nparent (nil_at nl fs x nn) = cpar nl fs"
  by (simp_all add: nil_at_def)

lemma plug_hole_root: "ptr nl (plug fs x) = (if fs = [] then ptr nl x else ptr nl (plug fs y))"
  using ptr_plug_Cons [of fs nl x y] by auto

lemma transplant_right:
  assumes z: "zrep nl t fs (Nd Lf a c k v r) nn X"
  shows "\<exists>t'. rbtree_transplant t a (ptr nl r) = Some t' \<and>
    zrep nl t' fs r (nil_at nl fs r nn) (X(a \<mapsto> cell c k v nl (ptr nl r) (cpar nl fs)))"
proof -
  have zr: "zrep nl t (RF Lf a c k v # fs) r nn X" using z by (simp add: zrep_RF)
  have d: "a \<noteq> cpar nl fs" "a \<noteq> ptr nl r" "cpar nl fs \<noteq> rb_nil t \<longrightarrow> ptr nl r \<noteq> cpar nl fs"
    using z cpar_cases [of nl fs] ptr_cases [of nl r] by (auto simp: zrep_def)
  note eval = transplant_eval [OF zrep_focus [OF z], simplified, OF zrep_cpar_cell [OF z] zrep_ptr_cell [OF zr] d]
  show ?thesis using z plug_hole_root [of nl fs r "Nd Lf a c k v r"] unfolding eval
    by (cases r; cases fs rule: caddrs.cases; clarsimp simp: zrep_def nil_at_def)
qed

lemma transplant_left:
  assumes z: "zrep nl t fs (Nd l a c k v Lf) nn X"
  shows "\<exists>t'. rbtree_transplant t a (ptr nl l) = Some t' \<and>
    zrep nl t' fs l (nil_at nl fs l nn) (X(a \<mapsto> cell c k v (ptr nl l) nl (cpar nl fs)))"
proof -
  have zl: "zrep nl t (LF a c k v Lf # fs) l nn X" using z by (simp add: zrep_LF)
  have d: "a \<noteq> cpar nl fs" "a \<noteq> ptr nl l" "cpar nl fs \<noteq> rb_nil t \<longrightarrow> ptr nl l \<noteq> cpar nl fs"
    using z cpar_cases [of nl fs] ptr_cases [of nl l] by (auto simp: zrep_def)
  note eval = transplant_eval [OF zrep_focus [OF z], simplified, OF zrep_cpar_cell [OF z] zrep_ptr_cell [OF zl] d]
  show ?thesis using z plug_hole_root [of nl fs l "Nd l a c k v Lf"] unfolding eval
    by (cases l; cases fs rule: caddrs.cases; clarsimp simp: zrep_def nil_at_def)
qed

lemma leftmost_ok:
  assumes "zrep nl t fs (Nd l a c k v r) nn X"
  shows "\<exists>gs y cy ky vy xr s. Nd l a c k v r = plug gs (Nd Lf y cy ky vy xr) \<and> leftmost t a = Some y \<and>
    (\<forall>z. entries (plug gs z) = entries z @ s)"
  using assms
proof (induction l arbitrary: a c k v r fs)
  case Lf
  have "leftmost t a = Some a"
    using zrep_focus [OF Lf] zrep_nil [OF Lf] by (subst leftmost.simps) simp
  then show ?case by (intro exI [of _ "[]"]) auto
next
  case (Nd l1 a1 c1 k1 v1 r1)
  have z: "zrep nl t (LF a c k v r # fs) (Nd l1 a1 c1 k1 v1 r1) nn X" using Nd.prems by (simp add: zrep_LF)
  from Nd.IH(1) [OF z] obtain gs y cy ky vy xr s where g: "Nd l1 a1 c1 k1 v1 r1 = plug gs (Nd Lf y cy ky vy xr)"
    "leftmost t a1 = Some y" "\<forall>z. entries (plug gs z) = entries z @ s" by blast
  have "leftmost t a = leftmost t a1"
    using zrep_focus [OF Nd.prems] zrep_nil [OF Nd.prems] zrep_ne [OF z] by (subst leftmost.simps) simp
  with g show ?case by (intro exI [of _ "gs @ [LF a c k v r]"]) force
qed

lemma tr_reparent:
  assumes "tr h nl p x" "x \<noteq> Lf" "distinct (addrs x)" "h (ptr nl x) = Some n"
  shows "tr (h(ptr nl x \<mapsto> n\<lparr>nparent := q\<rparr>)) nl q x"
  using assms by (cases x) auto

lemma relink_ok:
  assumes h: "heap t a = Some (cell c k v (ptr nl l) rp (cpar nl fs))" "heap t y = Some (cell cy ky vy yl (ptr nl r) yp)"
    "tr (heap t) nl a l" "tr (heap t) nl y r" "ctr (heap t) nl a fs"
    and n: "rb_nil t = nl" "nl \<noteq> 0" "heap t nl = Some nn" "rb_root t = ptr nl (plug fs (Nd l a c k v w))"
    and d: "distinct (a # y # addrs l @ addrs r @ caddrs fs)" "nl \<notin> set (a # y # addrs l @ addrs r @ caddrs fs)"
      "0 \<notin> set (a # y # addrs l @ addrs r @ caddrs fs)" and "l \<noteq> Lf"
    and X: "\<forall>b. b \<notin> set (a # y # addrs l @ addrs r @ caddrs fs) \<longrightarrow> b \<noteq> nl \<longrightarrow> heap t b = X b"
      "X nl = None" "\<forall>b \<in> set (y # addrs l @ addrs r @ caddrs fs). X b = None"
  shows "\<exists>t'. erase_relink t a y = Some t' \<and>
    zrep nl t' fs (Nd l y c ky vy r) nn (X(a \<mapsto> cell c k v (ptr nl l) rp (cpar nl fs)))"
proof -
  obtain l1 b cb kb vb l2 where l: "l = Nd l1 b cb kb vb l2" using \<open>l \<noteq> Lf\<close> by (cases l) auto
  have cp: "heap t (cpar nl fs) = Some (the (heap t (cpar nl fs)))" "a \<noteq> cpar nl fs" "y \<noteq> cpar nl fs"
    using h(5) n(3) d by (cases fs rule: caddrs.cases; simp)+
  note eval = transplant_eval [OF h(1), simplified, OF cp(1) h(2) cp(2)]
  have rt: "ptr nl (plug fs (Nd l y c ky vy r)) = (if fs = [] then y else rb_root t)"
    using n(4) plug_hole_root [of nl fs "Nd l y c ky vy r" "Nd l a c k v w"] by auto
  show ?thesis using eval cp h n rt d X unfolding l
    by (cases fs rule: caddrs.cases; clarsimp simp: erase_relink_def zrep_def upd_Some)
qed

text \<open>\<open>y\<close> is the right child of the removed node.\<close>

lemma unlink_child:
  assumes z: "zrep nl t fs (Nd l a c k v (Nd Lf y cy ky vy x)) nn X" and l: "l \<noteq> Lf"
  shows "\<exists>t1 t2 n. set_parent (ptr nl x) y t = Some t1 \<and> erase_relink t1 a y = Some t2 \<and> nkey n = Some k \<and> nvalue n = Some v \<and>
    zrep nl t2 (RF l y c ky vy # fs) x (nil_at nl (RF l y c ky vy # fs) x nn) (X(a \<mapsto> n))"
proof -
  have zx: "zrep nl t (RF Lf y cy ky vy # RF l a c k v # fs) x nn X" using z by (simp add: zrep_RF)
  let ?t = "t\<lparr>heap := (heap t)(ptr nl x \<mapsto> the (heap t (ptr nl x))\<lparr>nparent := y\<rparr>)\<rparr>"
  have t1: "set_parent (ptr nl x) y t = Some ?t" by (rule upd_Some [OF zrep_ptr_cell [OF zx]])
  have px: "ptr nl x \<noteq> a" "ptr nl x \<noteq> y" "ptr nl x \<notin> set (addrs l)" "ptr nl x \<notin> set (caddrs fs)"
    using z ptr_cases [of nl x] by (auto simp: zrep_def)
  have trx: "tr (heap ?t) nl y x" using z by (cases x) (auto simp: zrep_def)
  have nn: "heap ?t nl = Some (nil_at nl (RF l y c ky vy # fs) x nn)"
    using z by (cases x) (auto simp: zrep_def nil_at_def)
  have "\<exists>t'. erase_relink ?t a y = Some t' \<and> zrep nl t' fs (Nd l y c ky vy x) (nil_at nl (RF l y c ky vy # fs) x nn)
      (X(a \<mapsto> cell c k v (ptr nl l) y (cpar nl fs)))"
  proof (rule relink_ok [where r = x and w = "Nd Lf y cy ky vy x"])
    show "\<forall>b. b \<notin> set (a # y # addrs l @ addrs x @ caddrs fs) \<longrightarrow> b \<noteq> nl \<longrightarrow> heap ?t b = X b"
      using z ptr_cases [of nl x] by (auto simp: zrep_def)
    show "\<forall>b \<in> set (y # addrs l @ addrs x @ caddrs fs). X b = None" using z by (auto simp: zrep_def)
  qed (use z px trx nn l in \<open>auto simp: zrep_def\<close>)
  moreover have "nkey (cell c k v (ptr nl l) y (cpar nl fs)) = Some k" "nvalue (cell c k v (ptr nl l) y (cpar nl fs)) = Some v"
    by simp_all
  ultimately show ?thesis unfolding zrep_RF using t1 by blast
qed

text \<open>\<open>y\<close> is deeper.\<close>

lemma unlink_deep:
  assumes z: "zrep nl t fs (Nd l a c k v (plug gs (Nd Lf y cy ky vy x))) nn X" and l: "l \<noteq> Lf" and gs: "gs \<noteq> []"
  shows "\<exists>t1 n1 t2 n2 t3 t4 n. rbtree_transplant t y (ptr nl x) = Some t1 \<and> heap t1 a = Some n1 \<and>
    set_right y (nright n1) t1 = Some t2 \<and> heap t2 y = Some n2 \<and> set_parent (nright n2) y t2 = Some t3 \<and>
    erase_relink t3 a y = Some t4 \<and> nkey n = Some k \<and> nvalue n = Some v \<and>
    zrep nl t4 (gs @ RF l y c ky vy # fs) x (nil_at nl (gs @ RF l y c ky vy # fs) x nn) (X(a \<mapsto> n))"
proof -
  let ?r = "plug gs x" let ?fs = "gs @ RF l a c k v # fs" let ?nn = "nil_at nl ?fs x nn"
  have zy: "zrep nl t ?fs (Nd Lf y cy ky vy x) nn X" using z by (simp add: zrep_plug zrep_RF)
  then have fr: "y \<notin> set (addrs ?r)" "y \<noteq> nl" "y \<noteq> 0" "y \<notin> set (addrs l)" "y \<noteq> a" "y \<notin> set (caddrs fs)"
    by (auto simp: zrep_def addrs_plug caddrs_append)
  have gp: "cpar nl ?fs = cpar nl gs" "cpar nl (gs @ RF l y c ky vy # fs) = cpar nl gs"
    using gs by (simp_all add: cpar_append)
  then have nn: "nil_at nl (gs @ RF l y c ky vy # fs) x nn = ?nn" by (simp add: nil_at_def)
  have r: "?r \<noteq> Lf" using plug_root [OF gs, of nl x] gs by (cases gs rule: caddrs.cases) (auto simp: plug_ne_Lf)
  from transplant_right [OF zy] obtain t1 yp where t1: "rbtree_transplant t y (ptr nl x) = Some t1"
    and z1: "zrep nl t1 fs (Nd l a c k v ?r) ?nn (X(y \<mapsto> cell cy ky vy nl (ptr nl x) yp))"
    by (auto simp: zrep_plug zrep_RF)
  have y1: "heap t1 y = Some (cell cy ky vy nl (ptr nl x) yp)" using z1 fr by (simp add: zrep_def)
  have zr: "zrep nl t1 (RF l a c k v # fs) ?r ?nn (X(y \<mapsto> cell cy ky vy nl (ptr nl x) yp))" using z1 by (simp add: zrep_RF)
  have pr: "ptr nl ?r \<in> set (addrs ?r)" using ptr_in [OF r] .
  then have pr': "ptr nl ?r \<noteq> y" "ptr nl ?r \<noteq> a" "ptr nl ?r \<noteq> nl" "ptr nl ?r \<notin> set (addrs l)" "ptr nl ?r \<notin> set (caddrs fs)"
    using fr z1 by (auto simp: zrep_def)
  let ?t2 = "t1\<lparr>heap := (heap t1)(y \<mapsto> cell cy ky vy nl (ptr nl ?r) yp)\<rparr>"
  let ?t3 = "?t2\<lparr>heap := (heap ?t2)(ptr nl ?r \<mapsto> the (heap t1 (ptr nl ?r))\<lparr>nparent := y\<rparr>)\<rparr>"
  have t2: "set_right y (ptr nl ?r) t1 = Some ?t2" using upd_Some [OF y1] by simp
  have t3: "set_parent (ptr nl ?r) y ?t2 = Some ?t3"
    by (rule upd_Some) (use zrep_ptr_cell [OF zr] pr' in simp)
  have "tr (heap ?t2) nl a ?r" "distinct (addrs ?r)" using z1 fr by (auto simp: zrep_def)
  from tr_reparent [OF this(1) r this(2), of "the (heap t1 (ptr nl ?r))" y] zrep_ptr_cell [OF zr] pr'
  have trr: "tr (heap ?t3) nl y ?r" by simp
  have "\<exists>t'. erase_relink ?t3 a y = Some t' \<and> zrep nl t' fs (Nd l y c ky vy ?r) ?nn
      (X(a \<mapsto> cell c k v (ptr nl l) (ptr nl ?r) (cpar nl fs)))"
  proof (rule relink_ok [where r = ?r and w = ?r])
    show "\<forall>b. b \<notin> set (a # y # addrs l @ addrs ?r @ caddrs fs) \<longrightarrow> b \<noteq> nl \<longrightarrow> heap ?t3 b = X b"
      using z1 pr by (auto simp: zrep_def)
    show "\<forall>b \<in> set (y # addrs l @ addrs ?r @ caddrs fs). X b = None"
      using z by (auto simp: zrep_def addrs_plug)
  qed (use z1 fr pr' trr l in \<open>auto simp: zrep_def\<close>)
  then obtain t4 where t4: "erase_relink ?t3 a y = Some t4" "zrep nl t4 (gs @ RF l y c ky vy # fs) x ?nn
      (X(a \<mapsto> cell c k v (ptr nl l) (ptr nl ?r) (cpar nl fs)))" unfolding zrep_plug zrep_RF by blast
  show ?thesis
    by (rule exI [of _ t1], rule exI, rule exI [of _ ?t2], rule exI, rule exI [of _ ?t3], rule exI [of _ t4], rule exI)
      (use t1 t2 t3 t4 zrep_focus [OF z1] nn in auto)
qed

text \<open>The state that \<open>erase_unlink\<close> leaves: the hole, the subtree in it, the removed node on the side, and
  what remains to be done about the colours.\<close>

definition unlinked ::
    "nat \<Rightarrow> ('k, 'v) rb_tree \<times> nat \<times> rbtree_colour \<Rightarrow> ('k \<times> 'v) list \<Rightarrow> nat \<Rightarrow> 'k \<Rightarrow> 'v \<Rightarrow> (nat \<rightharpoonup> ('k, 'v) rb_node) \<Rightarrow> bool" where
  "unlinked nl res es a k v X \<longleftrightarrow>
     (\<exists>t fs x c nn n. res = (t, ptr nl x, c) \<and> zrep nl t fs x nn (X(a \<mapsto> n)) \<and> nkey n = Some k \<and> nvalue n = Some v \<and>
        colour nn = BLACK \<and> (x = Lf \<longrightarrow> nparent nn = cpar nl fs) \<and> entries (plug fs x) = es \<and>
        (if c = RED then rb_ok (plug fs x) else \<exists>m. bal m x \<and> cbal (Suc m) fs))"

lemma unlink_balance:
  assumes "rb_ok (plug fs (Nd l a c k v r))" "l = Lf \<and> x = r \<or> r = Lf \<and> x = l"
  shows "if c = RED then rb_ok (plug fs x) else \<exists>m. bal m x \<and> cbal (Suc m) fs"
proof -
  from plug_bal [OF assms(1)] obtain n where n: "bal n (Nd l a c k v r)" "cbal n fs" "c = BLACK \<or> ccol fs = BLACK" by auto
  then show ?thesis using assms(2) bal_plug [of n x fs] by (cases c; cases n) auto
qed

lemma ccol_frame: "ccol (gs @ RF l a c k v # fs) = ccol (gs @ RF l b c k' v' # fs)"
  by (cases gs rule: ccol.cases) auto

lemma cbal_frame: "cbal n (gs @ RF l a c k v # fs) = cbal n (gs @ RF l b c k' v' # fs)"
proof (induction n gs rule: cbal.induct)
  case (1 n)
  then show ?case by (cases c) auto
qed (simp_all add: ccol_frame [of _ l a c k v fs b k' v'])

lemma rb_ok_frame:
  "rb_ok (plug (gs @ RF l a c k v # fs) x) = rb_ok (plug (gs @ RF l b c k' v' # fs) x)"
proof -
  show ?thesis
    using ccol_frame [of gs l a c k v fs b k' v'] plug_bal [of "gs @ RF l a c k v # fs" x] plug_bal [of "gs @ RF l b c k' v' # fs" x]
      bal_plug [of _ x "gs @ RF l a c k v # fs"] bal_plug [of _ x "gs @ RF l b c k' v' # fs"]
      cbal_frame [of _ gs l a c k v fs b k' v'] by metis
qed

lemma erase_unlink_ok:
  assumes z: "zrep nl t fs (Nd l a c k v r) nn X" and nn: "colour nn = BLACK" and ok: "rb_ok (plug fs (Nd l a c k v r))"
    and ps: "\<And>z. entries (plug fs z) = p @ entries z @ s"
  shows "\<exists>res. erase_unlink t a = Some res \<and> unlinked nl res (p @ entries l @ entries r @ s) a k v X"
proof -
  note za = zrep_focus [OF z] and n0 = zrep_nil [OF z]
  have zl: "zrep nl t (LF a c k v r # fs) l nn X" and zr: "zrep nl t (RF l a c k v # fs) r nn X"
    using z by (simp_all add: zrep_LF zrep_RF)
  consider "l = Lf" | "l \<noteq> Lf" "r = Lf" | "l \<noteq> Lf" "r \<noteq> Lf" by blast
  then show ?thesis
  proof cases
    case 1
    from transplant_right [OF z [unfolded 1]] obtain t' where "rbtree_transplant t a (ptr nl r) = Some t'"
      "zrep nl t' fs r (nil_at nl fs r nn) (X(a \<mapsto> cell c k v nl (ptr nl r) (cpar nl fs)))" by blast
    with za n0 nn unlink_balance [OF ok, of r] 1 ps show ?thesis
      by (intro exI [of _ "(t', ptr nl r, c)"]) (force simp: erase_unlink_def unlinked_def)
  next
    case 2
    from transplant_left [OF z [unfolded 2(2)]] obtain t' where "rbtree_transplant t a (ptr nl l) = Some t'"
      "zrep nl t' fs l (nil_at nl fs l nn) (X(a \<mapsto> cell c k v (ptr nl l) nl (cpar nl fs)))" by blast
    with za n0 nn unlink_balance [OF ok, of l] 2 ps zrep_ptr_nil [OF zl] show ?thesis
      by (intro exI [of _ "(t', ptr nl l, c)"]) (force simp: erase_unlink_def unlinked_def)
  next
    case 3
    then obtain rl ra rc rk rv rr where r: "r = Nd rl ra rc rk rv rr" by (cases r) auto
    from leftmost_ok [OF zr [unfolded r]] obtain gs y cy ky vy x q where g: "r = plug gs (Nd Lf y cy ky vy x)"
      "leftmost t ra = Some y" "\<And>z. entries (plug gs z) = entries z @ q" unfolding r by blast
    let ?fs = "gs @ RF l y c ky vy # fs"
    have bal: "if cy = RED then rb_ok (plug ?fs x) else \<exists>m. bal m x \<and> cbal (Suc m) ?fs"
      by (rule unlink_balance [of _ Lf y cy ky vy x])
        (use ok rb_ok_frame [of gs l a c k v fs "Nd Lf y cy ky vy x" y ky vy] in \<open>simp_all add: g(1)\<close>)
    have es: "entries (plug ?fs x) = p @ entries l @ entries r @ s" by (simp add: ps g(1,3))
    have zy: "zrep nl t (gs @ RF l a c k v # fs) (Nd Lf y cy ky vy x) nn X"
      using z by (simp add: g(1) zrep_plug zrep_RF)
    have min: "rbtree_minimum t (ptr nl r) = Some y" using g(2) n0 zrep_ne [OF zr [unfolded r]] by (simp add: r rbtree_minimum_def)
    have "\<exists>t' n. erase_unlink t a = Some (t', ptr nl x, cy) \<and> nkey n = Some k \<and> nvalue n = Some v \<and>
      zrep nl t' ?fs x (nil_at nl ?fs x nn) (X(a \<mapsto> n))"
    proof (cases "gs = []")
      case True
      from unlink_child [of nl t fs l a c k v y cy ky vy x nn X] z 3(1) za n0 min zrep_focus [OF zy] zrep_ptr_nil [OF zl]
        zrep_ptr_nil [OF zr] 3 show ?thesis
        by (auto simp: erase_unlink_def g(1) True)
    next
      case False
      then have "cpar nl (gs @ RF l a c k v # fs) \<noteq> a" using zy by (cases gs rule: caddrs.cases) (auto simp: zrep_def)
      with unlink_deep [OF z [unfolded g(1)] 3(1) False] za n0 min zrep_focus [OF zy] zrep_ptr_nil [OF zl] zrep_ptr_nil [OF zr] 3
      show ?thesis by (auto simp: erase_unlink_def g(1))
    qed
    with bal es nn show ?thesis unfolding unlinked_def by (metis nil_at_simps)
  qed
qed

subsection \<open>Removing\<close>

lemma zrep_free:
  assumes "zrep nl t [] T nn [a \<mapsto> n]"
  shows "heap t a = Some n \<and> (\<exists>t'. free_node a t = Some t' \<and> zrep nl t' [] T nn Map.empty)"
proof -
  have a: "a \<notin> set (addrs T)" "a \<noteq> nl" using assms by (auto simp: zrep_def)
  with assms have "heap t a = Some n" by (simp add: zrep_def)
  with assms a show ?thesis by (auto simp: free_node_def zrep_def)
qed

lemma rbtree_erase_ok:
  assumes z: "zrep nl t fs (Nd l a c k v r) nn Map.empty" and nn: "colour nn = BLACK" and ok: "rb_ok (plug fs (Nd l a c k v r))"
    and ps: "\<And>z. entries (plug fs z) = p @ entries z @ s"
  shows "\<exists>t' T nn'. rbtree_erase fr t a = Some (if fr then [(Some k, Some v)] else [], t') \<and> zrep nl t' [] T nn' Map.empty \<and>
    colour nn' = BLACK \<and> rb_ok T \<and> entries T = p @ entries l @ entries r @ s"
proof -
  from erase_unlink_ok [OF z nn ok ps] obtain t1 hs x cy nn' n where u: "erase_unlink t a = Some (t1, ptr nl x, cy)"
    "zrep nl t1 hs x nn' [a \<mapsto> n]" "nkey n = Some k" "nvalue n = Some v" "colour nn' = BLACK" "x = Lf \<longrightarrow> nparent nn' = cpar nl hs"
    "entries (plug hs x) = p @ entries l @ entries r @ s" "if cy = RED then rb_ok (plug hs x) else \<exists>m. bal m x \<and> cbal (Suc m) hs"
    unfolding unlinked_def by (metis prod.inject)
  have "\<exists>t2 T. (if cy = BLACK then rbtree_erase_fixup t1 (ptr nl x) else Some t1) = Some t2 \<and> zrep nl t2 [] T nn' [a \<mapsto> n] \<and>
    rb_ok T \<and> entries T = p @ entries l @ entries r @ s"
  proof (cases cy)
    case RED
    with u show ?thesis by (auto simp: zrep_top [of nl t1 hs])
  next
    case BLACK
    with u(8) obtain m where "bal m x" "cbal (Suc m) hs" by auto
    with erase_fixup_ok [OF u(2,5,6)] BLACK u(7) show ?thesis by fastforce
  qed
  then obtain t2 T where t2: "(if cy = BLACK then rbtree_erase_fixup t1 (ptr nl x) else Some t1) = Some t2"
    "zrep nl t2 [] T nn' [a \<mapsto> n]" "rb_ok T" "entries T = p @ entries l @ entries r @ s" by blast
  from zrep_free [OF t2(2)] obtain t3 where t3: "heap t2 a = Some n" "free_node a t2 = Some t3" "zrep nl t3 [] T nn' Map.empty" by blast
  with u(1,3,4) t2(1) have "rbtree_erase fr t a = Some (if fr then [(Some k, Some v)] else [], t3)" by (simp add: rbtree_erase_def)
  with t3(3) u(5) t2(3,4) show ?thesis by blast
qed

lemma rbtree_remove_ok:
  assumes "key_cmp cmp K" "rb_tree_of cmp K t T" "K k"
  shows "\<exists>b fs t' T'. rbtree_remove cmp fr (Some t) (Some k) = Some (b, fs, Some t') \<and> rb_nil t' = rb_nil t \<and>
    rb_tree_of cmp K t' T' \<and> spec_remove cmp k (entries T) = (b, entries T') \<and>
    fs = (case store_find cmp k (entries T) of None \<Rightarrow> [] | Some w \<Rightarrow> if fr then [(Some k, Some w)] else [])"
proof (cases "store_find cmp k (entries T)")
  case None
  with rbtree_find_ok [OF assms] assms(2) show ?thesis by (force simp: rbtree_remove_def spec_remove_def)
next
  case (Some w)
  from assms(2) obtain nn where z: "zrep (rb_nil t) t [] T nn Map.empty" and nn: "colour nn = BLACK"
    and ok: "rb_ok T" "store_ok cmp K (entries T)" unfolding rb_tree_of_def by blast
  from Some rbtree_find_ok [OF assms] obtain gs l a c r where g: "T = plug gs (Nd l a c k w r)"
    "rbtree_find cmp (Some t) (Some k) = Some a" "a \<noteq> rb_nil t" by auto
  with z have z1: "zrep (rb_nil t) t gs (Nd l a c k w r) nn Map.empty" by (simp add: zrep_top [of _ _ gs])
  obtain p s where ps: "\<And>x. entries (plug gs x) = p @ entries x @ s" using entries_split by blast
  from rbtree_erase_ok [OF z1 nn ok(1) [unfolded g(1)] ps, of fr] obtain t' T' nn' where
    t': "rbtree_erase fr t a = Some (if fr then [(Some k, Some w)] else [], t')" "zrep (rb_nil t) t' [] T' nn' Map.empty"
      "colour nn' = BLACK" "rb_ok T'" "entries T' = p @ entries l @ entries r @ s" by blast
  have e: "entries T' = store_del cmp k (entries T)"
    using key_cmp.store_del_split [OF assms(1), of "p @ entries l" k w "entries r @ s"] ok(2) t'(5) by (simp add: g(1) ps)
  with t' key_cmp.store_del_ok [OF assms(1,3) ok(2)] zrep_nil [OF t'(2)]
  have "rb_tree_of cmp K t' T'" "rb_nil t' = rb_nil t" unfolding rb_tree_of_def by auto
  with g(2,3) t'(1) Some e show ?thesis by (force simp: rbtree_remove_def spec_remove_def)
qed

end
