(* ===== verification/RB_Iter.thy ===== *)
theory RB_Iter
  imports RB_Erase
begin

text \<open>
  Size, height, iteration and destruction of a tree, and the theorems about whole sequences of
  operations.
\<close>

subsection \<open>Size and height\<close>

lemma number_of_nodes_ok: "zrep nl t fs x nn X \<Longrightarrow> number_of_nodes t (ptr nl x) = Some (length (entries x))"
proof (induction x arbitrary: fs)
  case Lf
  then show ?case by (subst number_of_nodes.simps) (simp add: zrep_nil)
next
  case (Nd l a c k v r)
  have zl: "zrep nl t (LF a c k v r # fs) l nn X" and zr: "zrep nl t (RF l a c k v # fs) r nn X"
    using Nd.prems by (simp_all add: zrep_LF zrep_RF)
  show ?case using Nd.IH(1) [OF zl] Nd.IH(2) [OF zr] zrep_focus [OF Nd.prems] zrep_ne [OF Nd.prems] zrep_nil [OF Nd.prems]
    by (subst number_of_nodes.simps) simp
qed

fun height :: "('k, 'v) rbt \<Rightarrow> nat" where
  "height Lf = 0"
| "height (Nd l a c k v r) = Suc (max (height l) (height r))"

lemma bal_height: "bal n x \<Longrightarrow> height x \<le> 2 * n + (if col x = RED then 1 else 0)"
proof (induction n x rule: bal.induct)
  case (3 n l a k v r)
  then show ?case by (auto split: if_splits)
qed auto

lemma bal_size: "bal n x \<Longrightarrow> 2 ^ n \<le> Suc (length (entries x))"
proof (induction n x rule: bal.induct)
  case (3 n l a k v r)
  then obtain m where "n = Suc m" by (cases n) auto
  with 3 show ?case by simp
qed auto

lemma rb_ok_height:
  assumes "rb_ok x"
  shows "2 ^ height x \<le> (Suc (length (entries x)))\<^sup>2"
proof -
  from assms obtain n where n: "bal n x" "height x \<le> 2 * n" using bal_height [of _ x] by (auto simp: rb_ok_def)
  have "(2::nat) ^ height x \<le> 2 ^ (2 * n)" using n(2) by (simp add: power_increasing)
  also have "\<dots> = (2 ^ n)\<^sup>2" by (simp add: power_mult mult.commute)
  also have "\<dots> \<le> (Suc (length (entries x)))\<^sup>2" using bal_size [OF n(1)] by (simp add: power_mono)
  finally show ?thesis .
qed

subsection \<open>Destruction\<close>

fun postorder :: "('k, 'v) rbt \<Rightarrow> ('k, 'v) frees" where
  "postorder Lf = []"
| "postorder (Nd l a c k v r) = postorder l @ postorder r @ [(Some k, Some v)]"

lemma heap_same [simp]: "t\<lparr>heap := heap t |` UNIV\<rparr> = t"
  by (cases t) (simp add: restrict_map_def)

lemma destroy_all_nil: "rbtree_destroy_all fr t (rb_nil t) = Some ([], t)"
  by (subst rbtree_destroy_all.simps) simp

lemma destroy_all_guard:
  "(if q \<noteq> rb_nil t then rbtree_destroy_all fr t q else Some ([], t)) = rbtree_destroy_all fr t q"
  by (simp add: destroy_all_nil)

lemma destroy_all_ok:
  assumes "tr (heap t) (rb_nil t) p x" "distinct (addrs x)" "rb_nil t \<notin> set (addrs x)"
  shows "rbtree_destroy_all fr t (ptr (rb_nil t) x) =
    Some (if fr then postorder x else [], t\<lparr>heap := heap t |` (- set (addrs x))\<rparr>)"
  using assms
proof (induction x arbitrary: t p)
  case Lf
  then show ?case by (simp add: destroy_all_nil)
next
  case (Nd l a c k v r)
  let ?nl = "rb_nil t"
  let ?t1 = "t\<lparr>heap := heap t |` (- set (addrs l))\<rparr>"
  let ?t2 = "t\<lparr>heap := heap t |` (- set (addrs l) \<inter> - set (addrs r))\<rparr>"
  have d: "tr (heap t) ?nl a l" "distinct (addrs l)" "?nl \<notin> set (addrs l)" "distinct (addrs r)" "?nl \<notin> set (addrs r)"
    and a: "a \<noteq> ?nl" "heap t a = Some (cell c k v (ptr ?nl l) (ptr ?nl r) p)" "heap ?t1 a = heap t a" "heap ?t2 a = heap t a"
    using Nd.prems by (auto simp: restrict_map_def)
  note l = Nd.IH(1) [OF d(1-3)]
  have "tr (heap ?t1) ?nl a r"
  proof (subst tr_cong [of r _ "heap t"])
    show "heap ?t1 b = heap t b" if "b \<in> set (addrs r)" for b using that Nd.prems by (auto simp: restrict_map_def)
  qed (use Nd.prems in simp)
  then have r: "rbtree_destroy_all fr ?t1 (ptr ?nl r) = Some (if fr then postorder r else [], ?t2)"
    using Nd.IH(2) [of ?t1 a] d(4,5) by (simp add: Int_commute)
  have "(heap ?t2)(a := None) = heap t |` (- set (addrs (Nd l a c k v r)))" by (auto simp: restrict_map_def fun_eq_iff)
  with a l r show ?case
    by (subst rbtree_destroy_all.simps, unfold destroy_all_guard) (simp add: free_node_def)
qed

lemma mset_postorder: "mset (postorder x) = image_mset (\<lambda>(k, v). (Some k, Some v)) (mset (entries x))"
  by (induction x) auto

subsection \<open>Iteration\<close>

text \<open>The entries to the left and to the right of a focus.\<close>

fun lft :: "('k, 'v) frame list \<Rightarrow> ('k \<times> 'v) list" where
  "lft [] = []"
| "lft (LF a c k v r # fs) = lft fs"
| "lft (RF l a c k v # fs) = lft fs @ entries l @ [(k, v)]"

fun rgt :: "('k, 'v) frame list \<Rightarrow> ('k \<times> 'v) list" where
  "rgt [] = []"
| "rgt (LF a c k v r # fs) = (k, v) # entries r @ rgt fs"
| "rgt (RF l a c k v # fs) = rgt fs"

lemma entries_plug_eq: "entries (plug fs x) = lft fs @ entries x @ rgt fs"
  by (induction fs x rule: plug.induct) auto

lemma successor_up_ok:
  assumes "zrep nl t fs x nn X" "x \<noteq> Lf"
  shows "(rgt fs = [] \<and> successor_up t (ptr nl x) (cpar nl fs) = Some nl) \<or>
    (\<exists>gs l a c k v r. zrep nl t gs (Nd l a c k v r) nn X \<and> successor_up t (ptr nl x) (cpar nl fs) = Some a \<and>
       rgt fs = (k, v) # entries r @ rgt gs)"
  using assms
proof (induction fs arbitrary: x rule: caddrs.induct)
  case 1
  then show ?case by (subst successor_up.simps) (simp add: zrep_nil)
next
  case (2 a c k v r fs)
  have z: "zrep nl t fs (Nd x a c k v r) nn X" using "2.prems"(1) by (simp add: zrep_LF)
  have "ptr nl x \<noteq> ptr nl r" using z "2.prems"(2) ptr_cases [of nl r] ptr_in [of x nl] by (auto simp: zrep_def)
  then have "successor_up t (ptr nl x) a = Some a"
    using zrep_focus [OF z] zrep_ne [OF z] zrep_nil [OF z] by (subst successor_up.simps) simp
  with z show ?case by (intro disjI2 exI [of _ fs] exI [of _ x] exI [of _ a]) auto
next
  case (3 l a c k v fs)
  have z: "zrep nl t fs (Nd l a c k v x) nn X" using "3.prems"(1) by (simp add: zrep_RF)
  have "successor_up t (ptr nl x) a = successor_up t a (cpar nl fs)"
    using zrep_focus [OF z] zrep_ne [OF z] zrep_nil [OF z] by (subst successor_up.simps) simp
  with "3.IH" [OF z] show ?case by simp
qed

lemma leftmost_focus:
  assumes "zrep nl t fs (Nd l a c k v r) nn X"
  shows "\<exists>gs y cy ky vy s. zrep nl t gs (Nd Lf y cy ky vy s) nn X \<and> leftmost t a = Some y \<and>
    entries (Nd l a c k v r) @ rgt fs = (ky, vy) # entries s @ rgt gs \<and> lft gs = lft fs"
  using assms
proof (induction l arbitrary: a c k v r fs)
  case Lf
  have "leftmost t a = Some a"
    using zrep_focus [OF Lf] zrep_nil [OF Lf] by (subst leftmost.simps) simp
  with Lf show ?case by (intro exI [of _ fs] exI [of _ a]) auto
next
  case (Nd l1 a1 c1 k1 v1 r1)
  have z: "zrep nl t (LF a c k v r # fs) (Nd l1 a1 c1 k1 v1 r1) nn X" using Nd.prems by (simp add: zrep_LF)
  have "leftmost t a = leftmost t a1"
    using zrep_focus [OF Nd.prems] zrep_nil [OF Nd.prems] zrep_ne [OF z] by (subst leftmost.simps) simp
  with Nd.IH(1) [OF z] show ?case by simp
qed

lemma rbtree_successor_ok:
  assumes z: "zrep nl t fs (Nd l a c k v r) nn X"
  shows "(entries r @ rgt fs = [] \<and> rbtree_successor t a = Some nl) \<or>
    (\<exists>gs l' b c' k' v' r'. zrep nl t gs (Nd l' b c' k' v' r') nn X \<and> rbtree_successor t a = Some b \<and>
       entries r @ rgt fs = (k', v') # entries r' @ rgt gs)"
proof (cases r)
  case Lf
  have "rbtree_successor t a = successor_up t a (cpar nl fs)"
    using zrep_focus [OF z] zrep_ne [OF z] zrep_nil [OF z] Lf by (simp add: rbtree_successor_def)
  with successor_up_ok [OF z] Lf show ?thesis by simp
next
  case (Nd l1 a1 c1 k1 v1 r1)
  then have zr: "zrep nl t (RF l a c k v # fs) (Nd l1 a1 c1 k1 v1 r1) nn X" using z by (simp add: zrep_RF)
  have "rbtree_successor t a = leftmost t a1"
    using zrep_focus [OF z] zrep_ne [OF z] zrep_nil [OF z] zrep_ne [OF zr] Nd by (simp add: rbtree_successor_def rbtree_minimum_def)
  with leftmost_focus [OF zr] Nd show ?thesis by fastforce
qed

lemma predecessor_up_ok:
  assumes "zrep nl t fs x nn X" "x \<noteq> Lf"
  shows "(lft fs = [] \<and> predecessor_up t (ptr nl x) (cpar nl fs) = Some nl) \<or>
    (\<exists>gs l a c k v r. zrep nl t gs (Nd l a c k v r) nn X \<and> predecessor_up t (ptr nl x) (cpar nl fs) = Some a \<and>
       lft fs = lft gs @ entries l @ [(k, v)])"
  using assms
proof (induction fs arbitrary: x rule: caddrs.induct)
  case 1
  then show ?case by (subst predecessor_up.simps) (simp add: zrep_nil)
next
  case (2 a c k v r fs)
  have z: "zrep nl t fs (Nd x a c k v r) nn X" using "2.prems"(1) by (simp add: zrep_LF)
  have "predecessor_up t (ptr nl x) a = predecessor_up t a (cpar nl fs)"
    using zrep_focus [OF z] zrep_ne [OF z] zrep_nil [OF z] by (subst predecessor_up.simps) simp
  with "2.IH" [OF z] show ?case by simp
next
  case (3 l a c k v fs)
  have z: "zrep nl t fs (Nd l a c k v x) nn X" using "3.prems"(1) by (simp add: zrep_RF)
  have "ptr nl x \<noteq> ptr nl l" using z "3.prems"(2) ptr_cases [of nl l] ptr_in [of x nl] by (auto simp: zrep_def)
  then have "predecessor_up t (ptr nl x) a = Some a"
    using zrep_focus [OF z] zrep_ne [OF z] zrep_nil [OF z] by (subst predecessor_up.simps) simp
  with z show ?case by (intro disjI2 exI [of _ fs] exI [of _ l] exI [of _ a]) auto
qed

lemma rightmost_focus:
  assumes "zrep nl t fs (Nd l a c k v r) nn X"
  shows "\<exists>gs y cy ky vy s. zrep nl t gs (Nd s y cy ky vy Lf) nn X \<and> rightmost t a = Some y \<and>
    lft fs @ entries (Nd l a c k v r) = lft gs @ entries s @ [(ky, vy)] \<and> rgt gs = rgt fs"
  using assms
proof (induction r arbitrary: a c k v l fs)
  case Lf
  have "rightmost t a = Some a"
    using zrep_focus [OF Lf] zrep_nil [OF Lf] by (subst rightmost.simps) simp
  with Lf show ?case by (intro exI [of _ fs] exI [of _ a]) auto
next
  case (Nd l1 a1 c1 k1 v1 r1)
  have z: "zrep nl t (RF l a c k v # fs) (Nd l1 a1 c1 k1 v1 r1) nn X" using Nd.prems by (simp add: zrep_RF)
  have "rightmost t a = rightmost t a1"
    using zrep_focus [OF Nd.prems] zrep_nil [OF Nd.prems] zrep_ne [OF z] by (subst rightmost.simps) simp
  with Nd.IH(2) [OF z] show ?case by simp
qed

lemma rbtree_predecessor_ok:
  assumes z: "zrep nl t fs (Nd l a c k v r) nn X"
  shows "(lft fs @ entries l = [] \<and> rbtree_predecessor t a = Some nl) \<or>
    (\<exists>gs l' b c' k' v' r'. zrep nl t gs (Nd l' b c' k' v' r') nn X \<and> rbtree_predecessor t a = Some b \<and>
       lft fs @ entries l = lft gs @ entries l' @ [(k', v')])"
proof (cases l)
  case Lf
  have "rbtree_predecessor t a = predecessor_up t a (cpar nl fs)"
    using zrep_focus [OF z] zrep_ne [OF z] zrep_nil [OF z] Lf by (simp add: rbtree_predecessor_def)
  with predecessor_up_ok [OF z] Lf show ?thesis by simp
next
  case (Nd l1 a1 c1 k1 v1 r1)
  then have zl: "zrep nl t (LF a c k v r # fs) (Nd l1 a1 c1 k1 v1 r1) nn X" using z by (simp add: zrep_LF)
  have "rbtree_predecessor t a = rightmost t a1"
    using zrep_focus [OF z] zrep_ne [OF z] zrep_nil [OF z] zrep_ne [OF zl] Nd by (simp add: rbtree_predecessor_def rbtree_maximum_def)
  with rightmost_focus [OF zl] Nd show ?thesis by fastforce
qed

text \<open>
  The loop with which clients visit a map, \<open>for (; map_itor_valid(itor); map_itor_next(itor))\<close>, reading
  the key and the value at every turn, and its counterpart with \<open>map_itor_prev\<close>.
\<close>

partial_function (option) iterate_next :: "('k, 'v) rb_iterator option \<Rightarrow> ('k, 'v) frees option" where
  "iterate_next itor =
     (if rbtree_iterator_valid itor then do {
        k \<leftarrow> rbtree_iterator_key itor;
        v \<leftarrow> rbtree_iterator_value itor;
        x \<leftarrow> rbtree_iterator_next itor;
        es \<leftarrow> iterate_next (snd x);
        Some ((k, v) # es)
      } else Some [])"

partial_function (option) iterate_prev :: "('k, 'v) rb_iterator option \<Rightarrow> ('k, 'v) frees option" where
  "iterate_prev itor =
     (if rbtree_iterator_valid itor then do {
        k \<leftarrow> rbtree_iterator_key itor;
        v \<leftarrow> rbtree_iterator_value itor;
        x \<leftarrow> rbtree_iterator_prev itor;
        es \<leftarrow> iterate_prev (snd x);
        Some ((k, v) # es)
      } else Some [])"

abbreviation visited :: "('k \<times> 'v) list \<Rightarrow> ('k, 'v) frees" where
  "visited es \<equiv> map (\<lambda>(k, v). (Some k, Some v)) es"

lemma iterate_next_end: "rb_nil t = nl \<Longrightarrow> iterate_next (Some \<lparr>itor_tree = t, itor_node = nl\<rparr>) = Some []"
  by (subst iterate_next.simps) (simp add: rbtree_iterator_valid_def)

lemma iterate_prev_end: "rb_nil t = nl \<Longrightarrow> iterate_prev (Some \<lparr>itor_tree = t, itor_node = nl\<rparr>) = Some []"
  by (subst iterate_prev.simps) (simp add: rbtree_iterator_valid_def)

lemma iterate_next_focus:
  assumes "zrep nl t fs (Nd l a c k v r) nn X"
  shows "iterate_next (Some \<lparr>itor_tree = t, itor_node = a\<rparr>) = Some (visited ((k, v) # entries r @ rgt fs))"
  using assms
proof (induction "entries r @ rgt fs" arbitrary: fs l a c k v r)
  case Nil
  have "rbtree_successor t a = Some nl" using rbtree_successor_ok [OF Nil(2)] Nil(1) by auto
  with Nil zrep_focus [OF Nil(2)] zrep_ne [OF Nil(2)] zrep_nil [OF Nil(2)] iterate_next_end [of t nl] show ?case
    by (subst iterate_next.simps) (simp add: rbtree_iterator_valid_def rbtree_iterator_key_def rbtree_iterator_value_def
      rbtree_iterator_next_def)
next
  case (Cons e es)
  from rbtree_successor_ok [OF Cons(3)] Cons(2) obtain gs l' b c' k' v' r' where
    s: "zrep nl t gs (Nd l' b c' k' v' r') nn X" "rbtree_successor t a = Some b" "e = (k', v')" "es = entries r' @ rgt gs"
    by (metis list.distinct(1) list.inject)
  from Cons(1) [OF s(4,1)] arg_cong [OF Cons(2), of visited] s zrep_focus [OF Cons(3)] zrep_ne [OF Cons(3)] zrep_nil [OF Cons(3)] show ?case
    by (subst iterate_next.simps) (simp add: rbtree_iterator_valid_def rbtree_iterator_key_def rbtree_iterator_value_def
      rbtree_iterator_next_def)
qed

lemma iterate_prev_focus:
  assumes "zrep nl t fs (Nd l a c k v r) nn X"
  shows "iterate_prev (Some \<lparr>itor_tree = t, itor_node = a\<rparr>) = Some (visited ((k, v) # rev (lft fs @ entries l)))"
  using assms
proof (induction "rev (lft fs @ entries l)" arbitrary: fs l a c k v r)
  case Nil
  have "rbtree_predecessor t a = Some nl" using rbtree_predecessor_ok [OF Nil(2)] Nil(1) by auto
  with Nil zrep_focus [OF Nil(2)] zrep_ne [OF Nil(2)] zrep_nil [OF Nil(2)] iterate_prev_end [of t nl] show ?case
    by (subst iterate_prev.simps) (simp add: rbtree_iterator_valid_def rbtree_iterator_key_def rbtree_iterator_value_def
      rbtree_iterator_prev_def)
next
  case (Cons e es)
  have "lft fs @ entries l = rev es @ [e]" using arg_cong [OF Cons(2), of rev] by simp
  with rbtree_predecessor_ok [OF Cons(3)] obtain gs l' b c' k' v' r' where
    s: "zrep nl t gs (Nd l' b c' k' v' r') nn X" "rbtree_predecessor t a = Some b" "e = (k', v')" "es = rev (lft gs @ entries l')"
    by (metis append.assoc append1_eq_conv rev_rev_ident snoc_eq_iff_butlast)
  from Cons(1) [OF s(4,1)] Cons(2) [symmetric] s zrep_focus [OF Cons(3)] zrep_ne [OF Cons(3)] zrep_nil [OF Cons(3)] show ?case
    by (subst iterate_prev.simps) (simp add: rbtree_iterator_valid_def rbtree_iterator_key_def rbtree_iterator_value_def
      rbtree_iterator_prev_def)
qed

end
