(* ===== verification/RB_Props.thy ===== *)
theory RB_Props
  imports RB_Iter
begin

text \<open>
  The theorems about the red-black tree as its clients see it, for the string keys that all maps of the
  daemon use: every sequence of operations on a new tree, its iteration and its destruction.
\<close>

subsection \<open>Sequences of operations\<close>

datatype ('k, 'v) rb_op = Insert 'k 'v | Replace 'k 'v | Remove 'k

fun op_key :: "('k, 'v) rb_op \<Rightarrow> 'k" where
  "op_key (Insert k v) = k"
| "op_key (Replace k v) = k"
| "op_key (Remove k) = k"

text \<open>One operation on the heap, with the result of the allocator for a new node.\<close>

fun rb_step ::
    "('k \<Rightarrow> 'k \<Rightarrow> int) \<Rightarrow> bool \<Rightarrow> nat option \<Rightarrow> ('k, 'v) rb_op \<Rightarrow> ('k, 'v) rb_tree option \<Rightarrow> (bool \<times> ('k, 'v) frees \<times> ('k, 'v) rb_tree option) option" where
  "rb_step cmp fr mem (Insert k v) t = do { (b, t) \<leftarrow> rbtree_insert cmp mem t (Some k) (Some v); Some (b, [], t) }"
| "rb_step cmp fr mem (Replace k v) t = rbtree_replace cmp fr mem t (Some k) (Some v)"
| "rb_step cmp fr mem (Remove k) t = rbtree_remove cmp fr t (Some k)"

text \<open>The allocator answers the i-th operation when \<open>ok i\<close>, with a free address of the heap.\<close>

fun rb_run ::
    "('k \<Rightarrow> 'k \<Rightarrow> int) \<Rightarrow> bool \<Rightarrow> alloc \<Rightarrow> ((nat \<rightharpoonup> ('k, 'v) rb_node) \<Rightarrow> nat) \<Rightarrow> nat \<Rightarrow> ('k, 'v) rb_op list \<Rightarrow> ('k, 'v) rb_tree \<Rightarrow>
     (bool list \<times> ('k, 'v) frees \<times> ('k, 'v) rb_tree) option" where
  "rb_run cmp fr ok addr i [] t = Some ([], [], t)"
| "rb_run cmp fr ok addr i (x # xs) t = do {
     (b, fs, t) \<leftarrow> rb_step cmp fr (if ok i then Some (addr (heap t)) else None) x (Some t);
     t \<leftarrow> t;
     (bs, gs, t) \<leftarrow> rb_run cmp fr ok addr (Suc i) xs t;
     Some (b # bs, fs @ gs, t)
   }"

text \<open>The same on the ordered store: the results, the calls of \<open>kvfreer\<close> and the entries.\<close>

fun spec_step ::
    "('k \<Rightarrow> 'k \<Rightarrow> int) \<Rightarrow> bool \<Rightarrow> bool \<Rightarrow> ('k, 'v) rb_op \<Rightarrow> ('k \<times> 'v) list \<Rightarrow> bool \<times> ('k, 'v) frees \<times> ('k \<times> 'v) list" where
  "spec_step cmp fr ok (Insert k v) m = (case spec_insert cmp ok k v m of (b, m') \<Rightarrow> (b, [], m'))"
| "spec_step cmp fr ok (Replace k v) m =
     (case spec_replace cmp ok k v m of (b, m') \<Rightarrow>
        (b, case store_find cmp k m of None \<Rightarrow> [] | Some w \<Rightarrow> if fr then [(Some k, Some w)] else [], m'))"
| "spec_step cmp fr ok (Remove k) m =
     (case spec_remove cmp k m of (b, m') \<Rightarrow>
        (b, case store_find cmp k m of None \<Rightarrow> [] | Some w \<Rightarrow> if fr then [(Some k, Some w)] else [], m'))"

fun spec_run ::
    "('k \<Rightarrow> 'k \<Rightarrow> int) \<Rightarrow> bool \<Rightarrow> alloc \<Rightarrow> nat \<Rightarrow> ('k, 'v) rb_op list \<Rightarrow> ('k \<times> 'v) list \<Rightarrow> bool list \<times> ('k, 'v) frees \<times> ('k \<times> 'v) list" where
  "spec_run cmp fr ok i [] m = ([], [], m)"
| "spec_run cmp fr ok i (x # xs) m =
     (case spec_step cmp fr (ok i) x m of (b, fs, m) \<Rightarrow>
        case spec_run cmp fr ok (Suc i) xs m of (bs, gs, m) \<Rightarrow> (b # bs, fs @ gs, m))"

lemma zrep_dom: "zrep nl t [] T nn Map.empty \<Longrightarrow> dom (heap t) = insert nl (set (addrs T)) \<and> card (dom (heap t)) = Suc (length (entries T))"
proof -
  assume z: "zrep nl t [] T nn Map.empty"
  have h: "b \<in> set (addrs x) \<Longrightarrow> tr h nl p x \<Longrightarrow> h b \<noteq> None" for b h p and x :: "('a, 'b) rbt"
    by (induction x arbitrary: p) auto
  have "length (addrs x) = length (entries x)" for x :: "('a, 'b) rbt" by (induction x) auto
  moreover have "dom (heap t) = insert nl (set (addrs T))"
    using z h [of _ T "heap t" nl] by (fastforce simp: zrep_def dom_def)
  ultimately show ?thesis using z by (simp add: zrep_def distinct_card)
qed

lemma rb_tree_of_dom: "rb_tree_of cmp K t T \<Longrightarrow> card (dom (heap t)) = Suc (length (entries T)) \<and> finite (dom (heap t))"
  using zrep_dom unfolding rb_tree_of_def by (metis List.finite_set finite_insert)

lemma rb_step_ok:
  assumes "key_cmp cmp K" "rb_tree_of cmp K t T" "K (op_key x)" "\<And>a. mem = Some a \<Longrightarrow> heap t a = None \<and> a \<noteq> 0"
  shows "\<exists>b fs t' T'. rb_step cmp fr mem x (Some t) = Some (b, fs, Some t') \<and> rb_tree_of cmp K t' T' \<and>
    spec_step cmp fr (mem \<noteq> None) x (entries T) = (b, fs, entries T')"
proof (cases x)
  case (Insert k v)
  with rbtree_insert_ok [OF assms(1,2) _ assms(4), where k = k and v = v] assms(3) show ?thesis by fastforce
next
  case (Replace k v)
  with rbtree_replace_ok [OF assms(1,2) _ assms(4), where k = k and v = v and fr = fr] assms(3) show ?thesis by fastforce
next
  case (Remove k)
  with rbtree_remove_ok [OF assms(1,2), of k fr] assms(3) show ?thesis by fastforce
qed

lemma rb_run_ok:
  assumes "key_cmp cmp K" "\<And>h. finite (dom h) \<Longrightarrow> h (addr h) = None \<and> addr h \<noteq> 0"
    and "rb_tree_of cmp K t T" "\<forall>x \<in> set xs. K (op_key x)"
  shows "\<exists>bs fs t' T'. rb_run cmp fr ok addr i xs t = Some (bs, fs, t') \<and> rb_tree_of cmp K t' T' \<and>
    spec_run cmp fr ok i xs (entries T) = (bs, fs, entries T')"
  using assms(3,4)
proof (induction xs arbitrary: t T i)
  case (Cons x xs)
  let ?mem = "if ok i then Some (addr (heap t)) else None"
  have m: "heap t a = None \<and> a \<noteq> 0" if "?mem = Some a" for a
    using that assms(2) rb_tree_of_dom [OF Cons.prems(1)] by (auto split: if_splits)
  have k: "K (op_key x)" and ok: "(?mem \<noteq> None) = ok i" using Cons.prems(2) by simp_all
  have "\<exists>b fs t1 T1. rb_step cmp fr ?mem x (Some t) = Some (b, fs, Some t1) \<and> rb_tree_of cmp K t1 T1 \<and>
      spec_step cmp fr (?mem \<noteq> None) x (entries T) = (b, fs, entries T1)"
    by (rule rb_step_ok [OF assms(1) Cons.prems(1) k m])
  then obtain b fs t1 T1 where
    s: "rb_step cmp fr ?mem x (Some t) = Some (b, fs, Some t1)" "rb_tree_of cmp K t1 T1"
      "spec_step cmp fr (ok i) x (entries T) = (b, fs, entries T1)" unfolding ok by blast
  from Cons.IH [OF s(2), of "Suc i"] Cons.prems(2) obtain bs gs t2 T2 where
    "rb_run cmp fr ok addr (Suc i) xs t1 = Some (bs, gs, t2)" "rb_tree_of cmp K t2 T2"
    "spec_run cmp fr ok (Suc i) xs (entries T1) = (bs, gs, entries T2)" by auto
  with s show ?case by auto
qed auto

lemma rbtree_new_ok:
  assumes "rbtree_new True (Some a) = Some t" "a \<noteq> 0"
  shows "rb_tree_of cmp K t Lf"
  using assms by (auto simp: rbtree_new_def rbtree_create_node_def rb_tree_of_def zrep_def rb_ok_def)

subsection \<open>What clients get\<close>

text \<open>The values an operation hands over to the tree, when it succeeds.\<close>

fun accepted :: "('k, 'v) rb_op list \<Rightarrow> bool list \<Rightarrow> 'v list" where
  "accepted (Insert k v # xs) (b # bs) = (if b then v # accepted xs bs else accepted xs bs)"
| "accepted (Replace k v # xs) (b # bs) = (if b then v # accepted xs bs else accepted xs bs)"
| "accepted (Remove k # xs) (b # bs) = accepted xs bs"
| "accepted _ _ = []"

abbreviation freed_values :: "('k, 'v) frees \<Rightarrow> 'v option multiset" where
  "freed_values fs \<equiv> image_mset snd (mset fs)"

abbreviation values_of :: "('k \<times> 'v) list \<Rightarrow> 'v option multiset" where
  "values_of m \<equiv> image_mset (\<lambda>e. Some (snd e)) (mset m)"

lemma values_ins: "values_of (store_ins cmp k v m) = add_mset (Some v) (values_of m)"
  by (induction cmp k v m rule: store_ins.induct) auto

lemma values_upd: "store_find cmp k m = Some w \<Longrightarrow> add_mset (Some w) (values_of (store_upd cmp k v m)) = add_mset (Some v) (values_of m)"
  by (induction cmp k v m rule: store_upd.induct) (auto split: if_splits simp: add_mset_commute)

lemma values_del: "store_find cmp k m = Some w \<Longrightarrow> add_mset (Some w) (values_of (store_del cmp k m)) = values_of m"
  by (induction cmp k m rule: store_del.induct) (auto split: if_splits simp: add_mset_commute)

lemma spec_step_values:
  assumes "spec_step cmp True ok x m = (b, fs, m')"
  shows "image_mset Some (mset (accepted [x] [b])) + values_of m = freed_values fs + values_of m'"
  using assms by (cases x) (auto simp: spec_defs values_ins values_upd values_del split: if_splits option.splits)

lemma accepted_Cons: "accepted (x # xs) (b # bs) = accepted [x] [b] @ accepted xs bs"
  by (cases x) auto

lemma spec_run_values:
  "spec_run cmp True ok i xs m = (bs, fs, m') \<Longrightarrow>
   image_mset Some (mset (accepted xs bs)) + values_of m = freed_values fs + values_of m'"
proof (induction xs arbitrary: i m bs fs)
  case (Cons x xs)
  obtain b gs m1 where s: "spec_step cmp True (ok i) x m = (b, gs, m1)" by (cases "spec_step cmp True (ok i) x m")
  obtain cs hs m2 where r: "spec_run cmp True ok (Suc i) xs m1 = (cs, hs, m2)" by (cases "spec_run cmp True ok (Suc i) xs m1")
  from s r Cons.prems have e: "bs = b # cs" "fs = gs @ hs" "m' = m2" by simp_all
  have "image_mset Some (mset (accepted (x # xs) bs)) + values_of m =
      image_mset Some (mset (accepted xs cs)) + (image_mset Some (mset (accepted [x] [b])) + values_of m)"
    unfolding e by (simp add: accepted_Cons [of x xs b cs])
  also have "\<dots> = freed_values gs + (image_mset Some (mset (accepted xs cs)) + values_of m1)"
    unfolding spec_step_values [OF s] by simp
  also have "\<dots> = freed_values fs + values_of m'" using Cons.IH [of "Suc i" m1 cs hs] r e by simp
  finally show ?case .
qed simp

lemma rb_run_new:
  assumes "\<And>h. finite (dom h) \<Longrightarrow> h (addr h) = None \<and> addr h \<noteq> 0" "rbtree_new True (Some a) = Some t" "a \<noteq> 0"
    and "\<forall>x \<in> set xs. c_str (op_key x)"
  shows "\<exists>bs fs t' T. rb_run rbtree_str_cmp fr ok addr 0 xs t = Some (bs, fs, t') \<and> rb_tree_of rbtree_str_cmp c_str t' T \<and>
    spec_run rbtree_str_cmp fr ok 0 xs [] = (bs, fs, entries T)"
  using rb_run_ok [OF str_cmp.key_cmp_axioms assms(1) rbtree_new_ok [OF assms(2,3)] assms(4), of fr ok 0] by simp

text \<open>C3. The red-black tree implements the ordered store.  After any sequence of insertions, replacements
  and removals on a new tree, with the allocator failing wherever it likes, every operation has returned
  (no loop runs forever, no NULL or freed pointer is followed), with the result and the calls of the
  free function that the store prescribes; looking a key up gives the entry of the store, the size is
  its length, and the heap holds one node per entry and the sentinel, so nothing leaks.\<close>

theorem rbtree_run_refines:
  assumes "\<And>h. finite (dom h) \<Longrightarrow> h (addr h) = None \<and> addr h \<noteq> 0" "rbtree_new True (Some a) = Some t" "a \<noteq> 0"
    and "\<forall>x \<in> set xs. c_str (op_key x)"
  shows "\<exists>bs fs t' m. rb_run rbtree_str_cmp fr ok addr 0 xs t = Some (bs, fs, t') \<and>
    spec_run rbtree_str_cmp fr ok 0 xs [] = (bs, fs, m) \<and>
    (\<forall>k. c_str k \<longrightarrow> rbtree_search rbtree_str_cmp (Some t') (Some k) = Some (smap_find k m)) \<and>
    rbtree_size (Some t') = Some (length m) \<and> card (dom (heap t')) = Suc (length m)"
proof -
  from rb_run_new [OF assms, where fr = fr and ok = ok] obtain bs fs t' T where
    r: "rb_run rbtree_str_cmp fr ok addr 0 xs t = Some (bs, fs, t')" "rb_tree_of rbtree_str_cmp c_str t' T"
      "spec_run rbtree_str_cmp fr ok 0 xs [] = (bs, fs, entries T)" by blast
  then obtain nn where z: "zrep (rb_nil t') t' [] T nn Map.empty" unfolding rb_tree_of_def by blast
  have "rbtree_size (Some t') = Some (length (entries T))"
    using number_of_nodes_ok [OF z] zrep_root [OF z] by (simp add: rbtree_size_def)
  with r rb_tree_of_dom [OF r(2)] rbtree_search_ok [OF str_cmp.key_cmp_axioms r(2)] show ?thesis by blast
qed

text \<open>An allocator and a run for the examples.\<close>

definition ex_addr :: "(nat \<rightharpoonup> ('k, 'v) rb_node) \<Rightarrow> nat" where
  "ex_addr h = (LEAST n. n \<noteq> 0 \<and> h n = None)"

lemma ex_addr_ok: "finite (dom h) \<Longrightarrow> h (ex_addr h) = None \<and> ex_addr h \<noteq> 0"
proof -
  assume "finite (dom h)"
  then have "finite (insert 0 (dom h))" by simp
  from ex_new_if_finite [OF infinite_UNIV_nat this] obtain n where "n \<notin> insert 0 (dom h)" by blast
  then show ?thesis unfolding ex_addr_def by (metis (mono_tags, lifting) LeastI domIff insert_iff)
qed

definition ex_ops :: "(string, nat) rb_op list" where
  "ex_ops = [Insert ''b'' 1, Insert ''a'' 2, Insert ''b'' 3, Replace ''a'' 4, Insert ''c'' 5, Remove ''b'']"

lemma ex_ops_str: "\<forall>x \<in> set ex_ops. c_str (op_key x)"
  by (simp add: ex_ops_def)

lemma ex_ops_run: "spec_run rbtree_str_cmp True all_ok 0 ex_ops [] =
    ([True, True, False, True, True, True], [(Some ''a'', Some 2), (Some ''b'', Some 1)], [(''a'', 4), (''c'', 5)])"
  by code_simp

definition ex_tree :: "(string, nat) rb_tree" where
  "ex_tree = the (rbtree_new True (Some 1))"

lemma ex_tree: "rbtree_new True (Some 1) = Some ex_tree"
  by (simp add: ex_tree_def rbtree_new_def rbtree_create_node_def)

theorem rbtree_run_refines_witness:
  "\<exists>t'. rb_run rbtree_str_cmp True all_ok ex_addr 0 ex_ops ex_tree =
      Some ([True, True, False, True, True, True], [(Some ''a'', Some 2), (Some ''b'', Some 1)], t') \<and>
    rbtree_search rbtree_str_cmp (Some t') (Some ''a'') = Some (Some 4) \<and> rbtree_size (Some t') = Some 2"
proof -
  from rbtree_run_refines [OF ex_addr_ok ex_tree _ ex_ops_str, of True all_ok] obtain bs fs t' m where
    r: "rb_run rbtree_str_cmp True all_ok ex_addr 0 ex_ops ex_tree = Some (bs, fs, t')"
      "spec_run rbtree_str_cmp True all_ok 0 ex_ops [] = (bs, fs, m)"
      "\<forall>k. c_str k \<longrightarrow> rbtree_search rbtree_str_cmp (Some t') (Some k) = Some (smap_find k m)"
      "rbtree_size (Some t') = Some (length m)" by auto
  have "smap_find ''a'' [(''a'', 4), (''c'', 5)] = Some (4 :: nat)" by code_simp
  with r ex_ops_run show ?thesis by auto
qed

text \<open>C12. The tree stays balanced: after any sequence of operations the tree in the heap has a height of
  at most twice the binary logarithm of its size plus one, so a lookup, an insertion and a removal walk
  over that many nodes at most.\<close>

theorem rbtree_height_bound:
  assumes "\<And>h. finite (dom h) \<Longrightarrow> h (addr h) = None \<and> addr h \<noteq> 0" "rbtree_new True (Some a) = Some t" "a \<noteq> 0"
    and "\<forall>x \<in> set xs. c_str (op_key x)" "rb_run rbtree_str_cmp fr ok addr 0 xs t = Some (bs, fs, t')"
  shows "\<exists>T. rb_tree_of rbtree_str_cmp c_str t' T \<and> rbtree_size (Some t') = Some (length (entries T)) \<and>
    2 ^ height T \<le> (Suc (length (entries T)))\<^sup>2"
proof -
  from rb_run_new [OF assms(1-4), where fr = fr and ok = ok] assms(5) obtain T where
    T: "rb_tree_of rbtree_str_cmp c_str t' T" by auto
  then obtain nn where z: "zrep (rb_nil t') t' [] T nn Map.empty" and "rb_ok T" unfolding rb_tree_of_def by blast
  have "rbtree_size (Some t') = Some (length (entries T))"
    using number_of_nodes_ok [OF z] zrep_root [OF z] by (simp add: rbtree_size_def)
  with T rb_ok_height [OF \<open>rb_ok T\<close>] show ?thesis by blast
qed

theorem rbtree_height_bound_witness:
  "\<exists>t' T. rb_tree_of rbtree_str_cmp c_str t' (T :: (string, nat) rbt) \<and> rbtree_size (Some t') = Some (length (entries T)) \<and>
    2 ^ height T \<le> (Suc (length (entries T)))\<^sup>2"
proof -
  from rb_run_new [OF ex_addr_ok ex_tree _ ex_ops_str, where fr = True and ok = all_ok] obtain bs fs t' where
    "rb_run rbtree_str_cmp True all_ok ex_addr 0 ex_ops ex_tree = Some (bs, fs, t')" by auto
  from rbtree_height_bound [OF ex_addr_ok ex_tree _ ex_ops_str this] show ?thesis by auto
qed

text \<open>C14. Iterating over a tree ends and visits every entry once: forwards from \<open>rbtree_iterator_new\<close> in
  the order of the keys, backwards from \<open>rbtree_iterator_last\<close> in the reverse order.\<close>

theorem rbtree_iteration:
  assumes "\<And>h. finite (dom h) \<Longrightarrow> h (addr h) = None \<and> addr h \<noteq> 0" "rbtree_new True (Some a) = Some t" "a \<noteq> 0"
    and "\<forall>x \<in> set xs. c_str (op_key x)" "rb_run rbtree_str_cmp fr ok addr 0 xs t = Some (bs, fs, t')"
  shows "\<exists>m i b j. spec_run rbtree_str_cmp fr ok 0 xs [] = (bs, fs, m) \<and> sorted_wrt (\<lambda>e e'. rbtree_str_cmp (fst e) (fst e') < 0) m \<and>
    rbtree_iterator_new True (Some t') = Some i \<and> iterate_next i = Some (visited m) \<and>
    rbtree_iterator_last i = Some (b, j) \<and> iterate_prev j = Some (visited (rev m))"
proof -
  from rb_run_new [OF assms(1-4), where fr = fr and ok = ok] assms(5) obtain T where
    T: "rb_tree_of rbtree_str_cmp c_str t' T" and s: "spec_run rbtree_str_cmp fr ok 0 xs [] = (bs, fs, entries T)" by auto
  then obtain nn where z: "zrep (rb_nil t') t' [] T nn Map.empty" and o: "store_ok rbtree_str_cmp c_str (entries T)"
    unfolding rb_tree_of_def by blast
  let ?I = "\<lambda>a. Some \<lparr>itor_tree = t', itor_node = a\<rparr>"
  have "\<exists>a b. rbtree_minimum t' (rb_root t') = Some a \<and> iterate_next (?I a) = Some (visited (entries T)) \<and>
    rbtree_maximum t' (rb_root t') = Some b \<and> iterate_prev (?I b) = Some (visited (rev (entries T)))"
  proof (cases T)
    case Lf
    with zrep_root [OF z] show ?thesis
      by (simp add: rbtree_minimum_def rbtree_maximum_def iterate_next_end iterate_prev_end)
  next
    case (Nd l a c k v r)
    from leftmost_focus [OF z [unfolded Nd]] iterate_next_focus obtain p where
      "leftmost t' a = Some p" "iterate_next (?I p) = Some (visited (entries T))" by (fastforce simp: Nd)
    moreover from rightmost_focus [OF z [unfolded Nd]] iterate_prev_focus obtain q where
      "rightmost t' a = Some q" "iterate_prev (?I q) = Some (visited (rev (entries T)))" by (fastforce simp: Nd)
    ultimately show ?thesis using zrep_root [OF z] zrep_ne [OF z [unfolded Nd]]
      by (simp add: Nd rbtree_minimum_def rbtree_maximum_def)
  qed
  then obtain p q where pq: "rbtree_minimum t' (rb_root t') = Some p" "iterate_next (?I p) = Some (visited (entries T))"
    "rbtree_maximum t' (rb_root t') = Some q" "iterate_prev (?I q) = Some (visited (rev (entries T)))" by blast
  then have "rbtree_iterator_new True (Some t') = Some (?I p)" "rbtree_iterator_last (?I p) = Some (q \<noteq> rb_nil t', ?I q)"
    by (simp_all add: rbtree_iterator_new_def rbtree_iterator_first_def rbtree_iterator_last_def)
  with pq s o show ?thesis unfolding store_ok_def by blast
qed

theorem rbtree_iteration_witness:
  "\<exists>t' i. rb_run rbtree_str_cmp True all_ok ex_addr 0 ex_ops ex_tree =
      Some ([True, True, False, True, True, True], [(Some ''a'', Some 2), (Some ''b'', Some 1)], t') \<and>
    rbtree_iterator_new True (Some t') = Some i \<and> iterate_next i = Some [(Some ''a'', Some 4), (Some ''c'', Some 5)]"
proof -
  from rb_run_new [OF ex_addr_ok ex_tree _ ex_ops_str, where fr = True and ok = all_ok] obtain bs fs t' T where
    r: "rb_run rbtree_str_cmp True all_ok ex_addr 0 ex_ops ex_tree = Some (bs, fs, t')"
      "spec_run rbtree_str_cmp True all_ok 0 ex_ops [] = (bs, fs, entries T)" by auto
  have "entries T = [(''a'', 4), (''c'', 5)]" using r(2) ex_ops_run by simp
  with rbtree_iteration [OF ex_addr_ok ex_tree _ ex_ops_str r(1)] r ex_ops_run show ?thesis by auto
qed

text \<open>C13. No value is leaked or freed twice.  A value given to the tree by a successful insertion or
  replacement is passed to the free function exactly once: by the replacement or removal of its entry, or
  when \<open>rbtree_free\<close> destroys the tree, which also leaves no node behind.\<close>

theorem rbtree_values_freed_once:
  assumes "\<And>h. finite (dom h) \<Longrightarrow> h (addr h) = None \<and> addr h \<noteq> 0" "rbtree_new True (Some a) = Some t" "a \<noteq> 0"
    and "\<forall>x \<in> set xs. c_str (op_key x)" "rb_run rbtree_str_cmp True ok addr 0 xs t = Some (bs, fs, t')"
  shows "\<exists>gs. rbtree_free True (Some t') = Some (gs, Map.empty) \<and>
    freed_values fs + freed_values gs = image_mset Some (mset (accepted xs bs))"
proof -
  from rb_run_new [OF assms(1-4), where fr = True and ok = ok] assms(5) obtain T where
    T: "rb_tree_of rbtree_str_cmp c_str t' T" and s: "spec_run rbtree_str_cmp True ok 0 xs [] = (bs, fs, entries T)" by auto
  then obtain nn where z: "zrep (rb_nil t') t' [] T nn Map.empty" unfolding rb_tree_of_def by blast
  let ?h = "heap t' |` (- set (addrs T))"
  have "rbtree_destroy_all True t' (rb_root t') = Some (postorder T, t'\<lparr>heap := ?h\<rparr>)"
    using destroy_all_ok [of t' "rb_nil t'" T True] z by (simp add: zrep_def)
  moreover have "?h (rb_nil t') = Some nn" "?h(rb_nil t' := None) = Map.empty" "rb_nil t' \<noteq> 0"
    using z by (auto simp: zrep_def restrict_map_def fun_eq_iff)
  ultimately have "rbtree_free True (Some t') = Some (postorder T, Map.empty)"
    by (simp add: rbtree_free_def rbtree_clear_def free_node_def)
  moreover have "freed_values (postorder T) = values_of (entries T)"
    by (simp add: mset_postorder multiset.map_comp comp_def case_prod_unfold)
  ultimately show ?thesis using spec_run_values [OF s] by auto
qed

theorem rbtree_values_freed_once_witness:
  "\<exists>t' gs. rb_run rbtree_str_cmp True all_ok ex_addr 0 ex_ops ex_tree =
      Some ([True, True, False, True, True, True], [(Some ''a'', Some 2), (Some ''b'', Some 1)], t') \<and>
    rbtree_free True (Some t') = Some (gs, Map.empty) \<and> {#Some 2, Some 1#} + freed_values gs = {#Some 1, Some 2, Some 4, Some 5#}"
proof -
  from rb_run_new [OF ex_addr_ok ex_tree _ ex_ops_str, where fr = True and ok = all_ok] obtain bs fs t' T where
    r: "rb_run rbtree_str_cmp True all_ok ex_addr 0 ex_ops ex_tree = Some (bs, fs, t')"
      "spec_run rbtree_str_cmp True all_ok 0 ex_ops [] = (bs, fs, entries T)" by auto
  have "bs = [True, True, False, True, True, True]" "fs = [(Some ''a'', Some 2), (Some ''b'', Some 1)]"
    using r(2) ex_ops_run by auto
  with rbtree_values_freed_once [OF ex_addr_ok ex_tree _ ex_ops_str r(1)] r(1) show ?thesis
    by (auto simp: ex_ops_def)
qed

text \<open>C16. Two errors of rb\_tree.c.  \<open>rbtree_clear\<close> frees the nodes of a non-empty tree and leaves the root
  pointing at one of them: the next lookup follows a freed pointer.  And a tree whose sentinel could not
  be allocated is handed out all the same: the first insertion follows a NULL pointer.\<close>

theorem rbtree_dangling:
  assumes "rb_tree_of rbtree_str_cmp c_str t T" "T \<noteq> Lf"
  shows "(\<exists>fs t'. rbtree_clear fr (Some t) = Some (fs, Some t') \<and>
      rbtree_search rbtree_str_cmp (Some t') (Some k) = None) \<and>
    (\<exists>t'. rbtree_new True None = Some t' \<and>
      rbtree_insert rbtree_str_cmp (Some (Suc a)) (Some t') (Some k) (Some v) = None)"
proof
  from assms obtain nn where z: "zrep (rb_nil t) t [] T nn Map.empty" unfolding rb_tree_of_def by blast
  let ?t = "t\<lparr>heap := heap t |` (- set (addrs T))\<rparr>"
  have "rbtree_destroy_all fr t (rb_root t) = Some (if fr then postorder T else [], ?t)"
    using destroy_all_ok [of t "rb_nil t" T fr] z by (simp add: zrep_def)
  moreover have "rb_root t \<in> set (addrs T)" "rb_root t \<noteq> rb_nil t"
    using ptr_in [OF assms(2), of "rb_nil t"] z by (auto simp: zrep_def)
  then have "rbtree_recursive_search rbtree_str_cmp ?t (rb_root ?t) k = None"
    by (subst rbtree_recursive_search.simps) (simp add: restrict_map_def)
  ultimately show "\<exists>fs t'. rbtree_clear fr (Some t) = Some (fs, Some t') \<and>
      rbtree_search rbtree_str_cmp (Some t') (Some k) = None"
    by (simp add: rbtree_clear_def rbtree_search_def rbtree_find_def)
  show "\<exists>t'. rbtree_new True None = Some t' \<and>
      rbtree_insert rbtree_str_cmp (Some (Suc a)) (Some t') (Some k) (Some v) = None"
    by (simp add: rbtree_new_def rbtree_create_node_def rbtree_insert_def rbtree_find_def insert_node_def upd_node_def
      rbtree_recursive_search.simps insert_descend.simps rbtree_insert_fixup.simps)
qed

theorem rbtree_dangling_witness:
  "\<exists>t T fs t'. rb_tree_of rbtree_str_cmp c_str t (T :: (string, nat) rbt) \<and> rbtree_clear True (Some t) = Some (fs, Some t') \<and>
     rbtree_search rbtree_str_cmp (Some t') (Some ''a'') = None"
proof -
  from rb_run_new [OF ex_addr_ok ex_tree _ ex_ops_str, where fr = True and ok = all_ok] obtain bs fs t' and T :: "(string, nat) rbt" where
    r: "rb_tree_of rbtree_str_cmp c_str t' T" "spec_run rbtree_str_cmp True all_ok 0 ex_ops [] = (bs, fs, entries T)" by auto
  with ex_ops_run have "T \<noteq> Lf" by auto
  from rbtree_dangling [OF r(1) this, of True "''a''" 0 0] r(1) show ?thesis by auto
qed

end
