(* ===== verification/Map_Impl.thy ===== *)
theory Map_Impl
  imports RB_Props
begin

text \<open>
  The typed maps of map.c on the red-black tree.  A \<open>void *\<close> key or value is one of the kinds the map
  types name; reading it as another kind is undefined (None), as is whatever the tree does on a bad
  pointer.  The copies of keys and values that a map makes are values here; whether allocating them
  succeeds is an argument, and so is the address of a new node.
\<close>

datatype map_type_t =
    MAP_INT_INT | MAP_INT_BOOL | MAP_INT_STR | MAP_INT_PTR | MAP_STR_BOOL | MAP_STR_INT | MAP_STR_PTR
  | MAP_STR_STR | MAP_PTR_INT | MAP_PTR_STR | MAP_PTR_PTR

datatype map_key = KInt int | KStr string | KPtr nat

datatype map_val = VInt int | VBool bool | VStr string | VPtr nat

text \<open>The comparators of rb\_tree.c as function pointers, and any other one.\<close>

datatype comparator = Ptr_cmp | Int_cmp | Str_cmp | Custom_cmp "map_key \<Rightarrow> map_key \<Rightarrow> int"

fun run_cmp :: "comparator \<Rightarrow> map_key \<Rightarrow> map_key \<Rightarrow> int" where
  "run_cmp Ptr_cmp (KPtr a) (KPtr b) = rbtree_ptr_cmp a b"
| "run_cmp Int_cmp (KInt a) (KInt b) = rbtree_int_cmp a b"
| "run_cmp Str_cmp (KStr a) (KStr b) = rbtree_str_cmp a b"
| "run_cmp (Custom_cmp f) a b = f a b"
| "run_cmp _ _ _ = 0"

record map_t =
  map_type :: map_type_t
  map_cmp :: comparator
  map_store :: "(map_key, map_val) rb_tree option"

type_synonym map_itor = "(map_key, map_val) rb_iterator"

definition is_key_int :: "map_type_t \<Rightarrow> bool" where
  "is_key_int t \<longleftrightarrow> t = MAP_INT_INT \<or> t = MAP_INT_STR \<or> t = MAP_INT_PTR \<or> t = MAP_INT_BOOL"

definition is_key_str :: "map_type_t \<Rightarrow> bool" where
  "is_key_str t \<longleftrightarrow> t = MAP_STR_INT \<or> t = MAP_STR_STR \<or> t = MAP_STR_PTR \<or> t = MAP_STR_BOOL"

definition is_key_ptr :: "map_type_t \<Rightarrow> bool" where
  "is_key_ptr t \<longleftrightarrow> t = MAP_PTR_INT \<or> t = MAP_PTR_STR \<or> t = MAP_PTR_PTR"

definition is_val_bool :: "map_type_t \<Rightarrow> bool" where
  "is_val_bool t \<longleftrightarrow> t = MAP_STR_BOOL \<or> t = MAP_INT_BOOL"

definition is_val_int :: "map_type_t \<Rightarrow> bool" where
  "is_val_int t \<longleftrightarrow> t = MAP_INT_INT \<or> t = MAP_STR_INT \<or> t = MAP_PTR_INT"

definition is_val_str :: "map_type_t \<Rightarrow> bool" where
  "is_val_str t \<longleftrightarrow> t = MAP_INT_STR \<or> t = MAP_STR_STR \<or> t = MAP_PTR_STR"

definition is_val_ptr :: "map_type_t \<Rightarrow> bool" where
  "is_val_ptr t \<longleftrightarrow> t = MAP_INT_PTR \<or> t = MAP_STR_PTR \<or> t = MAP_PTR_PTR"

lemmas map_type_defs = is_key_int_def is_key_str_def is_key_ptr_def is_val_bool_def is_val_int_def is_val_str_def is_val_ptr_def

definition map_convert_key :: "bool \<Rightarrow> map_t \<Rightarrow> map_key \<Rightarrow> map_key option option" where
  "map_convert_key calloc m key =
     (if is_key_ptr (map_type m) then Some (Some key)
      else if is_key_int (map_type m) then
        (if \<not> calloc then Some None
         else case key of KInt i \<Rightarrow> Some (Some (KInt i)) | _ \<Rightarrow> None)
      else if is_key_str (map_type m) then
        (case key of KStr s \<Rightarrow> Some (Some (KStr s)) | _ \<Rightarrow> None)
      else Some None)"

definition map_convert_value :: "bool \<Rightarrow> map_t \<Rightarrow> map_val \<Rightarrow> map_val option option" where
  "map_convert_value calloc m val =
     (if is_val_ptr (map_type m) then Some (Some val)
      else if is_val_bool (map_type m) then
        (if \<not> calloc then Some None
         else case val of VBool b \<Rightarrow> Some (Some (VBool b)) | _ \<Rightarrow> None)
      else if is_val_int (map_type m) then
        (if \<not> calloc then Some None
         else case val of VInt i \<Rightarrow> Some (Some (VInt i)) | _ \<Rightarrow> None)
      else if is_val_str (map_type m) then
        (case val of VStr s \<Rightarrow> Some (Some (VStr s)) | _ \<Rightarrow> None)
      else Some None)"

text \<open>The memory of one call: the copies of the key and the value, and the node.\<close>

type_synonym map_mem = "bool \<times> bool \<times> nat option"

definition map_insert ::
    "map_mem \<Rightarrow> map_t option \<Rightarrow> map_key option \<Rightarrow> map_val option \<Rightarrow> (bool \<times> map_t option) option" where
  "map_insert mem mp key val =
     (case (mp, key, val) of
        (Some m, Some k, Some v) \<Rightarrow> do {
          tmp \<leftarrow> map_convert_key (fst mem) m k;
          case tmp of
            None \<Rightarrow> Some (False, mp)
          | Some k' \<Rightarrow> do {
              tmp_value \<leftarrow> map_convert_value (fst (snd mem)) m v;
              case tmp_value of
                None \<Rightarrow> Some (False, mp)
              | Some v' \<Rightarrow> do {
                  (b, t) \<leftarrow> rbtree_insert (run_cmp (map_cmp m)) (snd (snd mem)) (map_store m) (Some k') (Some v');
                  Some (b, Some (m\<lparr>map_store := t\<rparr>))
                }
            }
        }
      | _ \<Rightarrow> Some (False, mp))"

definition map_replace ::
    "map_mem \<Rightarrow> map_t option \<Rightarrow> map_key option \<Rightarrow> map_val option \<Rightarrow> (bool \<times> (map_key, map_val) frees \<times> map_t option) option" where
  "map_replace mem mp key val =
     (case (mp, key, val) of
        (Some m, Some k, Some v) \<Rightarrow> do {
          tmp \<leftarrow> map_convert_key (fst mem) m k;
          case tmp of
            None \<Rightarrow> Some (False, [], mp)
          | Some k' \<Rightarrow> do {
              tmp_value \<leftarrow> map_convert_value (fst (snd mem)) m v;
              case tmp_value of
                None \<Rightarrow> Some (False, [], mp)
              | Some v' \<Rightarrow> do {
                  (b, fs, t) \<leftarrow> rbtree_replace (run_cmp (map_cmp m)) True (snd (snd mem)) (map_store m) (Some k') (Some v');
                  Some (b, fs, Some (m\<lparr>map_store := t\<rparr>))
                }
            }
        }
      | _ \<Rightarrow> Some (False, [], mp))"

definition map_remove :: "map_t option \<Rightarrow> map_key option \<Rightarrow> (bool \<times> (map_key, map_val) frees \<times> map_t option) option" where
  "map_remove mp key =
     (case (mp, key) of
        (Some m, Some k) \<Rightarrow> do {
          (b, fs, t) \<leftarrow> rbtree_remove (run_cmp (map_cmp m)) True (map_store m) key;
          Some (b, fs, Some (m\<lparr>map_store := t\<rparr>))
        }
      | _ \<Rightarrow> Some (False, [], mp))"

definition map_search :: "map_t option \<Rightarrow> map_key option \<Rightarrow> map_val option option" where
  "map_search mp key =
     (case (mp, key) of
        (Some m, Some k) \<Rightarrow> rbtree_search (run_cmp (map_cmp m)) (map_store m) key
      | _ \<Rightarrow> Some None)"

definition map_size :: "map_t option \<Rightarrow> nat option" where
  "map_size mp = (case mp of None \<Rightarrow> Some 0 | Some m \<Rightarrow> rbtree_size (map_store m))"

definition map_itor_new :: "bool \<Rightarrow> map_t option \<Rightarrow> map_itor option option" where
  "map_itor_new calloc mp = (case mp of None \<Rightarrow> Some None | Some m \<Rightarrow> rbtree_iterator_new calloc (map_store m))"

definition map_itor_first :: "map_itor option \<Rightarrow> (bool \<times> map_itor option) option" where
  "map_itor_first itor = (case itor of None \<Rightarrow> Some (False, None) | Some i \<Rightarrow> rbtree_iterator_first itor)"

definition map_itor_last :: "map_itor option \<Rightarrow> (bool \<times> map_itor option) option" where
  "map_itor_last itor = (case itor of None \<Rightarrow> Some (False, None) | Some i \<Rightarrow> rbtree_iterator_last itor)"

definition map_itor_next :: "map_itor option \<Rightarrow> (bool \<times> map_itor option) option" where
  "map_itor_next itor = (case itor of None \<Rightarrow> Some (False, None) | Some i \<Rightarrow> rbtree_iterator_next itor)"

definition map_itor_prev :: "map_itor option \<Rightarrow> (bool \<times> map_itor option) option" where
  "map_itor_prev itor = (case itor of None \<Rightarrow> Some (False, None) | Some i \<Rightarrow> rbtree_iterator_prev itor)"

definition map_itor_valid :: "map_itor option \<Rightarrow> bool" where
  "map_itor_valid itor = (case itor of None \<Rightarrow> False | Some i \<Rightarrow> rbtree_iterator_valid itor)"

definition map_itor_key :: "map_itor option \<Rightarrow> map_key option option" where
  "map_itor_key itor = (case itor of None \<Rightarrow> Some None | Some i \<Rightarrow> rbtree_iterator_key itor)"

definition map_itor_value :: "map_itor option \<Rightarrow> map_val option option" where
  "map_itor_value itor = (case itor of None \<Rightarrow> Some None | Some i \<Rightarrow> rbtree_iterator_value itor)"

text \<open>\<open>map_new\<close>: the arguments \<open>calloc\<close>, \<open>tcalloc\<close> and \<open>nmem\<close> are the allocations of the map, the tree
  and the sentinel; the comparator is NULL by default.\<close>

definition map_new :: "bool \<Rightarrow> bool \<Rightarrow> nat option \<Rightarrow> map_type_t \<Rightarrow> comparator option \<Rightarrow> map_t option" where
  "map_new calloc tcalloc nmem kvtype comparator =
     (if \<not> calloc then None
      else
        let cmpor = (if is_key_ptr kvtype \<and> comparator = None then Some Ptr_cmp
                     else if is_key_int kvtype \<and> comparator = None then Some Int_cmp
                     else if is_key_str kvtype \<and> comparator = None then Some Str_cmp
                     else None)
        in case cmpor of
             None \<Rightarrow> None
           | Some c \<Rightarrow>
               (case rbtree_new tcalloc nmem of
                  None \<Rightarrow> None
                | Some t \<Rightarrow> Some \<lparr>map_type = kvtype, map_cmp = c, map_store = Some t\<rparr>))"

definition map_clear :: "map_t option \<Rightarrow> ((map_key, map_val) frees \<times> map_t option) option" where
  "map_clear mp =
     (case mp of
        None \<Rightarrow> Some ([], None)
      | Some m \<Rightarrow>
          (case map_store m of
             None \<Rightarrow> Some ([], mp)
           | Some t \<Rightarrow> do { (fs, t) \<leftarrow> rbtree_clear True (Some t); Some (fs, Some (m\<lparr>map_store := t\<rparr>)) }))"

text \<open>\<open>map_free\<close> returns the calls of the free function and the nodes that are left.\<close>

definition map_free :: "map_t option \<Rightarrow> ((map_key, map_val) frees \<times> (nat \<rightharpoonup> (map_key, map_val) rb_node)) option" where
  "map_free mp =
     (case mp of
        None \<Rightarrow> Some ([], Map.empty)
      | Some m \<Rightarrow>
          (case map_store m of
             None \<Rightarrow> Some ([], Map.empty)
           | Some t \<Rightarrow> rbtree_free True (Some t)))"

subsection \<open>Well-typed maps\<close>

fun default_cmp :: "map_type_t \<Rightarrow> comparator" where
  "default_cmp t = (if is_key_ptr t then Ptr_cmp else if is_key_int t then Int_cmp else Str_cmp)"

definition key_ok :: "map_type_t \<Rightarrow> map_key \<Rightarrow> bool" where
  "key_ok t k = (case k of KInt i \<Rightarrow> is_key_int t | KStr s \<Rightarrow> is_key_str t \<and> c_str s | KPtr p \<Rightarrow> is_key_ptr t)"

definition val_ok :: "map_type_t \<Rightarrow> map_val \<Rightarrow> bool" where
  "val_ok t v = (case v of VInt i \<Rightarrow> is_val_int t | VBool b \<Rightarrow> is_val_bool t | VStr s \<Rightarrow> is_val_str t | VPtr p \<Rightarrow> is_val_ptr t)"

text \<open>A map of entries \<open>es\<close>.\<close>

definition map_of_entries :: "map_t \<Rightarrow> (map_key \<times> map_val) list \<Rightarrow> bool" where
  "map_of_entries m es \<longleftrightarrow> map_cmp m = default_cmp (map_type m) \<and>
     (\<exists>t T. map_store m = Some t \<and> rb_tree_of (run_cmp (map_cmp m)) (key_ok (map_type m)) t T \<and> entries T = es)"

definition mem_fresh :: "map_mem \<Rightarrow> map_t \<Rightarrow> bool" where
  "mem_fresh mem m \<longleftrightarrow>
     (\<forall>a t. snd (snd mem) = Some a \<and> map_store m = Some t \<longrightarrow> heap t a = None \<and> a \<noteq> 0)"

lemma map_type_key: "is_key_int t \<or> is_key_str t \<or> is_key_ptr t"
  by (cases t) (simp_all add: map_type_defs)

lemma map_type_disjoint:
  "\<not> (is_key_int t \<and> is_key_str t)" "\<not> (is_key_int t \<and> is_key_ptr t)" "\<not> (is_key_str t \<and> is_key_ptr t)"
  by (cases t; simp add: map_type_defs)+

lemma map_key_cmp: "key_cmp (run_cmp (default_cmp t)) (key_ok t)"
proof -
  consider "is_key_ptr t" | "is_key_int t" "\<not> is_key_ptr t" | "is_key_str t" "\<not> is_key_ptr t" "\<not> is_key_int t"
    using map_type_key [of t] map_type_disjoint [of t] by blast
  then show ?thesis
  proof cases
    case 1
    then have "key_ok t k \<longleftrightarrow> (\<exists>p. k = KPtr p)" for k
      using map_type_disjoint [of t] by (cases k) (auto simp: key_ok_def)
    with 1 show ?thesis
      by unfold_locales (auto simp: rbtree_ptr_cmp_def)
  next
    case 2
    then have "key_ok t k \<longleftrightarrow> (\<exists>i. k = KInt i)" for k
      using map_type_disjoint [of t] by (cases k) (auto simp: key_ok_def)
    with 2 show ?thesis
      by unfold_locales (auto simp: rbtree_int_cmp_def)
  next
    case 3
    then have "key_ok t k \<longleftrightarrow> (\<exists>s. k = KStr s \<and> c_str s)" for k by (cases k) (auto simp: key_ok_def)
    with 3 show ?thesis
      by unfold_locales (auto simp: str_cmp_eq, auto simp: str_cmp_flip [symmetric] intro: str_cmp_trans)
  qed
qed

subsection \<open>The operations\<close>

lemma convert_key_ok: "key_ok (map_type m) k \<Longrightarrow>
    map_convert_key c m k = Some (if c \<or> \<not> is_key_int (map_type m) then Some k else None)"
  using map_type_disjoint [of "map_type m"] by (cases k) (auto simp: key_ok_def map_convert_key_def)

lemma convert_val_ok: "val_ok (map_type m) v \<Longrightarrow>
    map_convert_value c m v = Some (if c \<or> is_val_ptr (map_type m) \<or> is_val_str (map_type m) then Some v else None)"
  by (cases "map_type m"; cases v) (auto simp: val_ok_def map_convert_value_def map_type_defs)

text \<open>Whether a call gets all the memory it asks for.\<close>

definition mem_ok :: "map_mem \<Rightarrow> map_type_t \<Rightarrow> bool" where
  "mem_ok mem t \<longleftrightarrow> (fst mem \<or> \<not> is_key_int t) \<and> (fst (snd mem) \<or> is_val_ptr t \<or> is_val_str t)"

lemma map_of_entriesE:
  assumes "map_of_entries m es"
  obtains t T where "map_store m = Some t" "rb_tree_of (run_cmp (map_cmp m)) (key_ok (map_type m)) t T" "entries T = es"
    "key_cmp (run_cmp (map_cmp m)) (key_ok (map_type m))" "map_cmp m = default_cmp (map_type m)"
  using assms map_key_cmp [of "map_type m"] unfolding map_of_entries_def by auto

lemma map_of_entriesI:
  "map_of_entries m es \<Longrightarrow> rb_tree_of (run_cmp (map_cmp m)) (key_ok (map_type m)) t T \<Longrightarrow>
   map_of_entries (m\<lparr>map_store := Some t\<rparr>) (entries T)"
  unfolding map_of_entries_def by auto

lemma map_insert_ok:
  assumes m: "map_of_entries m es" and k: "key_ok (map_type m) k" "val_ok (map_type m) v" and f: "mem_fresh mem m"
  shows "\<exists>b m' es'. map_insert mem (Some m) (Some k) (Some v) = Some (b, Some m') \<and> map_of_entries m' es' \<and>
    (b, es') = (if mem_ok mem (map_type m) then spec_insert (run_cmp (map_cmp m)) (snd (snd mem) \<noteq> None) k v es else (False, es))"
proof (cases "mem_ok mem (map_type m)")
  case False
  with m k show ?thesis by (auto simp: map_insert_def convert_key_ok convert_val_ok mem_ok_def)
next
  case True
  from m obtain t T where t: "map_store m = Some t" "rb_tree_of (run_cmp (map_cmp m)) (key_ok (map_type m)) t T"
    "entries T = es" "key_cmp (run_cmp (map_cmp m)) (key_ok (map_type m))" by (rule map_of_entriesE)
  have "\<And>a. snd (snd mem) = Some a \<Longrightarrow> heap t a = None \<and> a \<noteq> 0" using f t(1) by (auto simp: mem_fresh_def)
  from rbtree_insert_ok [OF t(4,2) k(1) this, where v = v] obtain b t' T' where
    "rbtree_insert (run_cmp (map_cmp m)) (snd (snd mem)) (Some t) (Some k) (Some v) = Some (b, Some t')"
    "rb_tree_of (run_cmp (map_cmp m)) (key_ok (map_type m)) t' T'"
    "spec_insert (run_cmp (map_cmp m)) (snd (snd mem) \<noteq> None) k v (entries T) = (b, entries T')" by blast
  with t True map_of_entriesI [OF m] k show ?thesis
    by (auto simp: map_insert_def convert_key_ok convert_val_ok mem_ok_def)
qed

lemma map_replace_ok:
  assumes m: "map_of_entries m es" and k: "key_ok (map_type m) k" "val_ok (map_type m) v" and f: "mem_fresh mem m"
  shows "\<exists>b fs m' es'. map_replace mem (Some m) (Some k) (Some v) = Some (b, fs, Some m') \<and> map_of_entries m' es' \<and>
    (b, es') = (if mem_ok mem (map_type m) then spec_replace (run_cmp (map_cmp m)) (snd (snd mem) \<noteq> None) k v es else (False, es))"
proof (cases "mem_ok mem (map_type m)")
  case False
  with m k show ?thesis by (auto simp: map_replace_def convert_key_ok convert_val_ok mem_ok_def)
next
  case True
  from m obtain t T where t: "map_store m = Some t" "rb_tree_of (run_cmp (map_cmp m)) (key_ok (map_type m)) t T"
    "entries T = es" "key_cmp (run_cmp (map_cmp m)) (key_ok (map_type m))" by (rule map_of_entriesE)
  have "\<And>a. snd (snd mem) = Some a \<Longrightarrow> heap t a = None \<and> a \<noteq> 0" using f t(1) by (auto simp: mem_fresh_def)
  from rbtree_replace_ok [OF t(4,2) k(1) this, where v = v and fr = True] obtain b fs t' T' where
    "rbtree_replace (run_cmp (map_cmp m)) True (snd (snd mem)) (Some t) (Some k) (Some v) = Some (b, fs, Some t')"
    "rb_tree_of (run_cmp (map_cmp m)) (key_ok (map_type m)) t' T'"
    "spec_replace (run_cmp (map_cmp m)) (snd (snd mem) \<noteq> None) k v (entries T) = (b, entries T')" by blast
  with t True map_of_entriesI [OF m] k show ?thesis
    by (auto simp: map_replace_def convert_key_ok convert_val_ok mem_ok_def)
qed

lemma map_remove_ok:
  assumes m: "map_of_entries m es" and k: "key_ok (map_type m) k"
  shows "\<exists>b fs m' es'. map_remove (Some m) (Some k) = Some (b, fs, Some m') \<and> map_of_entries m' es' \<and>
    (b, es') = spec_remove (run_cmp (map_cmp m)) k es"
proof -
  from m obtain t T where t: "map_store m = Some t" "rb_tree_of (run_cmp (map_cmp m)) (key_ok (map_type m)) t T"
    "entries T = es" "key_cmp (run_cmp (map_cmp m)) (key_ok (map_type m))" by (rule map_of_entriesE)
  from rbtree_remove_ok [OF t(4,2) k, of True] obtain b fs t' T' where
    "rbtree_remove (run_cmp (map_cmp m)) True (Some t) (Some k) = Some (b, fs, Some t')"
    "rb_tree_of (run_cmp (map_cmp m)) (key_ok (map_type m)) t' T'"
    "spec_remove (run_cmp (map_cmp m)) k (entries T) = (b, entries T')" by blast
  with t map_of_entriesI [OF m] show ?thesis by (auto simp: map_remove_def)
qed

lemma map_new_ok:
  assumes "a \<noteq> 0"
  shows "\<exists>m0. map_new True True (Some a) ty None = Some m0 \<and> map_of_entries m0 [] \<and> map_type m0 = ty \<and>
    map_cmp m0 = default_cmp ty \<and> (\<forall>t. map_store m0 = Some t \<longrightarrow> dom (heap t) = {a})"
proof -
  obtain t :: "(map_key, map_val) rb_tree" where t: "rbtree_new True (Some a) = Some t" "dom (heap t) = {a}"
    by (simp add: rbtree_new_def rbtree_create_node_def)
  have T: "rb_tree_of (run_cmp (default_cmp ty)) (key_ok ty) t Lf" by (rule rbtree_new_ok [OF t(1) assms])
  let ?m = "\<lparr>map_type = ty, map_cmp = default_cmp ty, map_store = Some t\<rparr>"
  have "map_new True True (Some a) ty None = Some ?m"
    using t(1) map_type_key [of ty] by (auto simp: map_new_def)
  moreover have "map_of_entries ?m []" unfolding map_of_entries_def using T by fastforce
  ultimately show ?thesis using t(2) by (intro exI [of _ ?m]) simp
qed

text \<open>C15. A map of any of the eleven types is the ordered store of its key kind.  \<open>map_new\<close> gives an empty
  map, and refuses every comparator but the default one; on keys and values of the map's type, insertion,
  replacement, removal and lookup return what the store returns, report a failed allocation without
  changing the map, and never go wrong.\<close>

theorem map_refines_store:
  assumes "map_of_entries m es" "key_ok (map_type m) k" "val_ok (map_type m) v" "mem_fresh mem m" "a \<noteq> 0"
  shows "(\<exists>m0. map_new True True (Some a) ty None = Some m0 \<and> map_of_entries m0 []) \<and>
    map_new True True (Some a) ty (Some c) = None \<and>
    map_search (Some m) (Some k) = Some (store_find (run_cmp (map_cmp m)) k es) \<and>
    (\<exists>b m' es'. map_insert mem (Some m) (Some k) (Some v) = Some (b, Some m') \<and> map_of_entries m' es' \<and>
      (b, es') = (if mem_ok mem (map_type m) then spec_insert (run_cmp (map_cmp m)) (snd (snd mem) \<noteq> None) k v es else (False, es))) \<and>
    (\<exists>b fs m' es'. map_replace mem (Some m) (Some k) (Some v) = Some (b, fs, Some m') \<and> map_of_entries m' es' \<and>
      (b, es') = (if mem_ok mem (map_type m) then spec_replace (run_cmp (map_cmp m)) (snd (snd mem) \<noteq> None) k v es else (False, es))) \<and>
    (\<exists>b fs m' es'. map_remove (Some m) (Some k) = Some (b, fs, Some m') \<and> map_of_entries m' es' \<and>
      (b, es') = spec_remove (run_cmp (map_cmp m)) k es)"
proof -
  have new: "\<exists>m0. map_new True True (Some a) ty None = Some m0 \<and> map_of_entries m0 []"
    using map_new_ok [OF assms(5), of ty] by blast
  have refused: "map_new True True (Some a) ty (Some c) = None" by (simp add: map_new_def)
  from assms(1) obtain t' T where T: "map_store m = Some t'" "rb_tree_of (run_cmp (map_cmp m)) (key_ok (map_type m)) t' T"
    "entries T = es" "key_cmp (run_cmp (map_cmp m)) (key_ok (map_type m))" by (rule map_of_entriesE)
  from rbtree_search_ok [OF T(4,2) assms(2)] T(1,3) have search: "map_search (Some m) (Some k) = Some (store_find (run_cmp (map_cmp m)) k es)"
    by (simp add: map_search_def)
  show ?thesis
    by (rule conjI [OF new conjI [OF refused conjI [OF search conjI [OF map_insert_ok [OF assms(1-4)]
          conjI [OF map_replace_ok [OF assms(1-4)] map_remove_ok [OF assms(1,2)]]]]]])
qed

definition ex_map :: map_t where
  "ex_map = the (map_new True True (Some 1) MAP_STR_STR None)"

lemma ex_map: "map_of_entries ex_map [] \<and> map_type ex_map = MAP_STR_STR \<and> map_cmp ex_map = Str_cmp \<and>
    mem_fresh (True, True, Some 2) ex_map"
proof -
  obtain m0 where "map_new True True (Some 1) MAP_STR_STR None = Some m0" "map_of_entries m0 []" "map_type m0 = MAP_STR_STR"
    "map_cmp m0 = default_cmp MAP_STR_STR" and d: "\<forall>t. map_store m0 = Some t \<longrightarrow> dom (heap t) = {1}"
    using map_new_ok [of 1 MAP_STR_STR, OF one_neq_zero] by blast
  moreover have "mem_fresh (True, True, Some 2) m0" unfolding mem_fresh_def
  proof (intro allI impI, elim conjE)
    fix a :: nat and t assume "snd (snd (True, True, Some 2)) = Some a" "map_store m0 = Some t"
    then show "heap t a = None \<and> a \<noteq> 0" using d domIff [of 2 "heap t"] by simp
  qed
  ultimately show ?thesis by (simp add: ex_map_def map_type_defs)
qed

theorem map_refines_store_witness:
  "\<exists>m'. map_insert (True, True, Some 2) (Some ex_map) (Some (KStr ''a'')) (Some (VStr ''x'')) = Some (True, Some m') \<and>
     map_of_entries m' [(KStr ''a'', VStr ''x'')]"
proof -
  have "key_ok (map_type ex_map) (KStr ''a'')" "val_ok (map_type ex_map) (VStr ''x'')" "mem_ok (True, True, Some 2) (map_type ex_map)"
    using ex_map by (simp_all add: key_ok_def val_ok_def map_type_defs mem_ok_def c_str_def)
  note ops = map_refines_store [of ex_map "[]" "KStr ''a''" "VStr ''x''" "(True, True, Some 2)" 1 MAP_STR_STR Str_cmp,
      OF conjunct1 [OF ex_map] this(1,2) _ one_neq_zero]
  from ops [THEN conjunct2, THEN conjunct2, THEN conjunct2, THEN conjunct1] ex_map
    \<open>mem_ok (True, True, Some 2) (map_type ex_map)\<close>
  show ?thesis by (auto simp: spec_insert_def)
qed

end
