(* ===== verification/Errors.thy ===== *)
theory Errors
  imports Prelude
begin

section \<open>Error codes and messages of the daemon\<close>

text \<open>
  The codes of src/src/utils/cutils/error.h and utils.h that the request handlers answer with, and
  src/src/daemon/common/err\_msg.c: the error message of the request being served, NULL when there is none.
  The functions take the formatted text; a text that does not fit the buffer of \<open>BUFSIZ\<close> bytes is dropped.
\<close>

datatype isulad_errno_t =
  ISULAD_SUCCESS | ISULAD_ERR_MEMOUT | ISULAD_ERR_MEMSET | ISULAD_ERR_FORMAT | ISULAD_ERR_INPUT | ISULAD_ERR_EXEC
| ISULAD_ERR_INTERNAL | ISULAD_ERR_CONNECT | ISULAD_ERR_RUNTIME | ISULAD_ERR_UNKNOWN

definition ECOMMON :: int where "ECOMMON = 1"
definition EINVALIDARGS :: int where "EINVALIDARGS = 125"

definition BUFSIZ :: nat where "BUFSIZ = 8192"

definition isulad_set_error_message :: "string \<Rightarrow> string option \<Rightarrow> string option" where
  "isulad_set_error_message m e = (if length m < BUFSIZ then Some m else e)"

definition isulad_try_set_error_message :: "string \<Rightarrow> string option \<Rightarrow> string option" where
  "isulad_try_set_error_message m e = (if e \<noteq> None then e else if length m < BUFSIZ then Some m else e)"

definition DAEMON_CLEAR_ERRMSG :: "string option \<Rightarrow> string option" where
  "DAEMON_CLEAR_ERRMSG e = None"

end
