(* ===== verification/Disk.thy ===== *)
theory Disk
  imports Path
begin

section \<open>Removing and creating directory trees\<close>

text \<open>
  The removal and creation of directory trees in src/src/utils/cutils/utils\_file.c, on a tree of files.  A directory is the list of its
  entries in the order \<open>readdir\<close> returns them, without \<open>.\<close> and \<open>..\<close>; what is neither a regular file
  nor a directory (a symbolic link, a socket, a device) is \<open>Other\<close> and never entered, so the paths
  handed to the functions are those that lead to a node without following a link.  Whether the
  system grants a call on a path is a field of \<open>disk_env\<close>; \<open>rm_rf\<close> is the command \<open>rm -rf\<close>, run on
  what is left at a path.
\<close>

datatype fnode = Reg | Dir (dents: "(string \<times> fnode) list") | Other

record disk_env =
  opendir_ok :: "string \<Rightarrow> bool"
  closedir_ok :: "string \<Rightarrow> bool"
  lstat_ok :: "string \<Rightarrow> bool"
  unlink_ok :: "string \<Rightarrow> bool"
  unlink_mutable_ok :: "string \<Rightarrow> bool"
  rmdir_ok :: "string \<Rightarrow> bool"
  mkdir_ok :: "string \<Rightarrow> bool"
  strndup_ok :: "string \<Rightarrow> bool"
  rm_rf :: "string \<Rightarrow> fnode option \<Rightarrow> bool \<times> fnode option"

definition keep :: "string \<Rightarrow> fnode option \<Rightarrow> (string \<times> fnode) list \<Rightarrow> (string \<times> fnode) list" where
  "keep nm n es = (case n of None \<Rightarrow> es | Some n \<Rightarrow> (nm, n) # es)"

text \<open>The number of nodes bounds the recursion.\<close>

fun node_size :: "fnode \<Rightarrow> nat" and dents_size :: "(string \<times> fnode) list \<Rightarrow> nat" where
  "node_size Reg = 0" | "node_size Other = 0" | "node_size (Dir es) = Suc (dents_size es)"
| "dents_size [] = 0" | "dents_size ((nm, n) # es) = Suc (node_size n + dents_size es)"

subsection \<open>\<open>util_recursive_rmdir\<close>\<close>

definition MAX_PATH_DEPTH :: int where "MAX_PATH_DEPTH = 1024"

text \<open>\<open>check_dir_valid\<close>: the result and \<open>*failure\<close>.\<close>

definition check_dir_valid :: "fnode option \<Rightarrow> int \<Rightarrow> bool \<times> bool" where
  "check_dir_valid n recursive_depth =
     (if recursive_depth + 1 > MAX_PATH_DEPTH then (False, True)
      else (case n of Some (Dir es) \<Rightarrow> (True, False) | _ \<Rightarrow> (False, False)))"

text \<open>\<open>exec_force_rmdir_command\<close>: \<open>mem\<close> says whether the three appends to the argument array get memory.\<close>

definition exec_force_rmdir_command :: "bool \<Rightarrow> disk_env \<Rightarrow> string \<Rightarrow> fnode option \<Rightarrow> bool \<times> fnode option" where
  "exec_force_rmdir_command mem env dir n =
     (if \<not> mem then (True, n) else let (ok, n') = rm_rf env dir n in (\<not> ok, n'))"

text \<open>
  The three functions call each other; \<open>rmdir_entries\<close> is the loop over the entries in
  \<open>recursive_rmdir_helper\<close>.  Each returns whether it failed (the return value -1 of
  \<open>util_recursive_rmdir\<close>) and what is left.
\<close>

function util_recursive_rmdir :: "bool \<Rightarrow> disk_env \<Rightarrow> string \<Rightarrow> int \<Rightarrow> fnode option \<Rightarrow> bool \<times> fnode option"
  and recursive_rmdir_helper :: "bool \<Rightarrow> disk_env \<Rightarrow> string \<Rightarrow> int \<Rightarrow> (string \<times> fnode) list \<Rightarrow> bool \<times> fnode option"
  and rmdir_entries :: "bool \<Rightarrow> disk_env \<Rightarrow> string \<Rightarrow> int \<Rightarrow> (string \<times> fnode) list \<Rightarrow> bool \<times> (string \<times> fnode) list"
  and recursive_rmdir_next_depth :: "bool \<Rightarrow> disk_env \<Rightarrow> string \<Rightarrow> int \<Rightarrow> fnode \<Rightarrow> bool \<times> fnode option" where
  "util_recursive_rmdir mem env dirpath recursive_depth n =
     (let (valid, failure) = check_dir_valid n recursive_depth in
      if \<not> valid then (failure, n)
      else
        let (failure, n') = recursive_rmdir_helper mem env dirpath recursive_depth (case n of Some (Dir es) \<Rightarrow> es | _ \<Rightarrow> [])
        in if failure then exec_force_rmdir_command mem env dirpath n' else (False, n'))"
| "recursive_rmdir_helper mem env dirpath recursive_depth es =
     (if \<not> opendir_ok env dirpath then (True, Some (Dir es))
      else
        let (failure, es') = rmdir_entries mem env dirpath recursive_depth es in
        if es' = [] \<and> rmdir_ok env dirpath then (failure \<or> \<not> closedir_ok env dirpath, None)
        else (True, Some (Dir es')))"
| "rmdir_entries mem env dirpath recursive_depth [] = (False, [])"
| "rmdir_entries mem env dirpath recursive_depth ((d_name, n) # es) =
     (let fname = dirpath @ ''/'' @ d_name;
          (failure1, n') =
            (if length fname \<ge> PATH_MAX then (True, Some n)
             else if \<not> lstat_ok env fname then (True, Some n)
             else recursive_rmdir_next_depth mem env fname recursive_depth n);
          (failure2, es') = rmdir_entries mem env dirpath recursive_depth es
      in (failure1 \<or> failure2, keep d_name n' es'))"
| "recursive_rmdir_next_depth mem env fname recursive_depth n =
     (case n of
        Dir es \<Rightarrow> util_recursive_rmdir mem env fname (recursive_depth + 1) (Some (Dir es))
      | _ \<Rightarrow> if unlink_ok env fname then (False, None)
             else if unlink_mutable_ok env fname then (False, None)
             else (True, Some n))"
  by pat_completeness auto

termination
  by (relation "measures [\<lambda>x. case x of
      Inl (Inl (_, _, _, _, n)) \<Rightarrow> (case n of None \<Rightarrow> 0 | Some n \<Rightarrow> node_size n)
    | Inl (Inr (_, _, _, _, es)) \<Rightarrow> dents_size es
    | Inr (Inl (_, _, _, _, es)) \<Rightarrow> dents_size es
    | Inr (Inr (_, _, _, _, n)) \<Rightarrow> node_size n,
    \<lambda>x. case x of Inl (Inl _) \<Rightarrow> 0 | Inl (Inr _) \<Rightarrow> 2 | Inr (Inl _) \<Rightarrow> 1 | Inr (Inr _) \<Rightarrow> 1]")
    (auto simp: check_dir_valid_def split: option.splits fnode.splits if_splits)

declare util_recursive_rmdir.simps [simp del]
declare recursive_rmdir_helper.simps [simp del]
declare recursive_rmdir_next_depth.simps [simp del]

subsection \<open>When it succeeds\<close>

text \<open>All paths of a tree are shorter than \<open>lim\<close>, and the tree is at most \<open>k\<close> directories deep.\<close>

fun tree_fits :: "nat \<Rightarrow> string \<Rightarrow> fnode \<Rightarrow> bool" and dents_fit :: "nat \<Rightarrow> string \<Rightarrow> (string \<times> fnode) list \<Rightarrow> bool" where
  "tree_fits lim p (Dir es) = dents_fit lim p es"
| "tree_fits lim p _ = True"
| "dents_fit lim p [] = True"
| "dents_fit lim p ((nm, n) # es) =
     (length (p @ ''/'' @ nm) < lim \<and> tree_fits lim (p @ ''/'' @ nm) n \<and> dents_fit lim p es)"

fun tree_depth :: "fnode \<Rightarrow> nat" and dents_depth :: "(string \<times> fnode) list \<Rightarrow> nat" where
  "tree_depth (Dir es) = Suc (dents_depth es)"
| "tree_depth _ = 0"
| "dents_depth [] = 0"
| "dents_depth ((nm, n) # es) = max (tree_depth n) (dents_depth es)"

definition all_granted :: "disk_env \<Rightarrow> bool" where
  "all_granted env \<longleftrightarrow> (\<forall>p. opendir_ok env p \<and> closedir_ok env p \<and> lstat_ok env p \<and> unlink_ok env p \<and> rmdir_ok env p)"

lemma recursive_rmdir_complete:
  "\<lbrakk>all_granted env; n = Some (Dir es); tree_fits PATH_MAX p (Dir es); d + int (tree_depth (Dir es)) \<le> MAX_PATH_DEPTH\<rbrakk> \<Longrightarrow>
     util_recursive_rmdir mem env p d n = (False, None)"
  "\<lbrakk>all_granted env; dents_fit PATH_MAX p ds; d + 1 + int (dents_depth ds) \<le> MAX_PATH_DEPTH\<rbrakk> \<Longrightarrow>
     recursive_rmdir_helper mem env p d ds = (False, None)"
  "\<lbrakk>all_granted env; dents_fit PATH_MAX p ds; d + 1 + int (dents_depth ds) \<le> MAX_PATH_DEPTH\<rbrakk> \<Longrightarrow>
     rmdir_entries mem env p d ds = (False, [])"
  "\<lbrakk>all_granted env; tree_fits PATH_MAX p m; d + 1 + int (tree_depth m) \<le> MAX_PATH_DEPTH\<rbrakk> \<Longrightarrow>
     recursive_rmdir_next_depth mem env p d m = (False, None)"
proof (induction mem env p d n and mem env p d ds and mem env p d ds and mem env p d m arbitrary: es
    rule: util_recursive_rmdir_recursive_rmdir_helper_rmdir_entries_recursive_rmdir_next_depth.induct)
  case (1 mem env p d n)
  then have "recursive_rmdir_helper mem env p d es = (False, None)" by (auto simp: check_dir_valid_def)
  with 1 show ?case by (simp add: util_recursive_rmdir.simps check_dir_valid_def)
next
  case (2 mem env p d es)
  then show ?case by (simp add: recursive_rmdir_helper.simps all_granted_def)
next
  case (3 mem env p d)
  then show ?case by simp
next
  case (4 mem env p d nm n es)
  then have "recursive_rmdir_next_depth mem env (p @ ''/'' @ nm) d n = (False, None)" by (simp add: all_granted_def)
  moreover have "d + 1 + int (dents_depth es) \<le> MAX_PATH_DEPTH" using 4(5) by simp
  then have "rmdir_entries mem env p d es = (False, [])" using 4(2) [OF refl refl surjective_pairing [symmetric] 4(3)] 4(4) by simp
  ultimately show ?case using 4(3,4) by (simp add: all_granted_def keep_def)
next
  case (5 mem env p d n)
  then show ?case by (cases n) (simp_all add: recursive_rmdir_next_depth.simps all_granted_def)
qed

lemma recursive_rmdir_sound:
  assumes "\<forall>p n n'. rm_rf env p n = (True, n') \<longrightarrow> n' = None"
    and "util_recursive_rmdir mem env p d (Some (Dir es)) = (False, n')"
  shows "n' = None"
proof -
  have h: "helper = recursive_rmdir_helper mem env p d es \<Longrightarrow> \<not> fst helper \<Longrightarrow> snd helper = None" for helper
    by (auto simp: recursive_rmdir_helper.simps split: if_splits prod.splits)
  have f: "exec_force_rmdir_command mem env p n = (False, n') \<Longrightarrow> n' = None" for n n'
    using assms(1) by (auto simp: exec_force_rmdir_command_def split: if_splits prod.splits)
  from assms(2) h [OF refl] f show ?thesis
    by (auto simp: util_recursive_rmdir.simps check_dir_valid_def split: if_splits prod.splits)
qed


definition ex_disk_env :: disk_env where
  "ex_disk_env = \<lparr>opendir_ok = \<lambda>_. True, closedir_ok = \<lambda>_. True, lstat_ok = \<lambda>_. True, unlink_ok = \<lambda>_. True,
     unlink_mutable_ok = \<lambda>_. True, rmdir_ok = \<lambda>_. True, mkdir_ok = \<lambda>_. True, strndup_ok = \<lambda>_. True, rm_rf = \<lambda>_ _. (True, None)\<rparr>"


subsection \<open>Paths in a tree\<close>

text \<open>The components of the node a path names, for the current directory \<open>cwd\<close>.\<close>

definition at_path :: "string \<Rightarrow> string \<Rightarrow> string list" where
  "at_path cwd p = foldl norm_step [] (comps (if p \<noteq> [] \<and> ISSLASH (hd p) then p else cwd @ ''/'' @ p))"

fun walk :: "string list \<Rightarrow> fnode \<Rightarrow> fnode option" where
  "walk [] n = Some n"
| "walk (c # cs) n = (case n of Dir es \<Rightarrow> (case map_of es c of None \<Rightarrow> None | Some m \<Rightarrow> walk cs m) | _ \<Rightarrow> None)"

fun set_entry :: "string \<Rightarrow> fnode option \<Rightarrow> (string \<times> fnode) list \<Rightarrow> (string \<times> fnode) list" where
  "set_entry c m [] = (case m of None \<Rightarrow> [] | Some v \<Rightarrow> [(c, v)])"
| "set_entry c m ((k, n) # es) =
     (if k = c then (case m of None \<Rightarrow> set_entry c m es | Some v \<Rightarrow> (c, v) # es) else (k, n) # set_entry c m es)"

text \<open>The tree with \<open>m\<close> at a path: a node, or nothing.\<close>

fun put :: "string list \<Rightarrow> fnode option \<Rightarrow> fnode \<Rightarrow> fnode" where
  "put [] m n = (case m of None \<Rightarrow> n | Some m \<Rightarrow> m)"
| "put [c] m n = (case n of Dir es \<Rightarrow> Dir (set_entry c m es) | _ \<Rightarrow> n)"
| "put (c # cs) m n =
     (case n of
        Dir es \<Rightarrow> (case map_of es c of None \<Rightarrow> n | Some k \<Rightarrow> Dir (set_entry c (Some (put cs m k)) es))
      | _ \<Rightarrow> n)"

text \<open>\<open>opendir\<close> and \<open>readdir\<close>: the names of a directory.\<close>

definition read_dir :: "disk_env \<Rightarrow> string \<Rightarrow> string \<Rightarrow> fnode \<Rightarrow> string list option" where
  "read_dir env cwd p root =
     (case walk (at_path cwd p) root of
        Some (Dir es) \<Rightarrow> if opendir_ok env p then Some (''.'' # ''..'' # map fst es) else None
      | _ \<Rightarrow> None)"

lemma map_of_set_entry: "map_of (set_entry c m es) k = (if k = c then m else map_of es k)"
  by (induction c m es rule: set_entry.induct) (auto split: option.splits)

lemma set_entry_names:
  "set (map fst (set_entry c m es)) = (if m = None then set (map fst es) - {c} else insert c (set (map fst es)))"
proof -
  have "map_of (set_entry c m es) = (map_of es)(c := m)" by (simp add: fun_eq_iff map_of_set_entry)
  then have "dom (map_of (set_entry c m es)) = (if m = None then dom (map_of es) - {c} else insert c (dom (map_of es)))" by simp
  then show ?thesis by (simp add: dom_map_of_conv_image_fst)
qed

lemma walk_put_same: "walk cs root = Some (Dir es) \<Longrightarrow> walk (cs @ [c]) (put (cs @ [c]) m root) = m"
proof (induction cs arbitrary: root)
  case (Cons d cs)
  then obtain ds k where "root = Dir ds" "map_of ds d = Some k" "walk cs k = Some (Dir es)"
    by (auto split: fnode.splits option.splits)
  with Cons.IH [of k] show ?case by (cases cs) (auto simp: map_of_set_entry split: option.splits)
qed (auto simp: map_of_set_entry split: option.splits)

lemma walk_put_other: "c \<noteq> k \<Longrightarrow> walk (cs @ [k]) (put (cs @ [c]) m root) = walk (cs @ [k]) root"
proof (induction cs arbitrary: root)
  case (Cons d cs)
  then show ?case
    by (cases root; cases cs) (auto simp: map_of_set_entry split: option.splits)
qed (auto simp: map_of_set_entry split: option.splits fnode.splits)

lemma walk_put_parent:
  "walk cs root = Some (Dir es) \<Longrightarrow> walk cs (put (cs @ [c]) m root) = Some (Dir (set_entry c m es))"
proof (induction cs arbitrary: root)
  case (Cons d cs)
  then obtain ds k where "root = Dir ds" "map_of ds d = Some k" "walk cs k = Some (Dir es)"
    by (auto split: fnode.splits option.splits)
  with Cons.IH [of k] show ?case by (cases cs) (auto simp: map_of_set_entry split: option.splits)
qed auto

lemma comps_cong: "dropWhile ISSLASH s = dropWhile ISSLASH r \<Longrightarrow> comps s = comps r"
  by (simp add: comps.simps [of s] comps.simps [of r] seg_def seg_end_def)

lemma comps_append: "comps (p @ ''/'' @ s) = comps p @ comps s"
proof (induction p rule: comps.induct)
  case (1 p)
  show ?case
  proof (cases "seg p = []")
    case True
    then have "dropWhile ISSLASH p = []" by (cases "dropWhile ISSLASH p") (auto simp: seg_def dropWhile_eq_Cons_conv)
    then have "\<forall>x \<in> set p. ISSLASH x" by (simp add: dropWhile_eq_Nil_conv)
    then have "dropWhile ISSLASH (p @ ''/'' @ s) = dropWhile ISSLASH s" by (simp add: ISSLASH_def)
    from comps_cong [OF this] True show ?thesis by (simp add: comps_Nil)
  next
    case False
    then obtain x where "x \<in> set p" "\<not> ISSLASH x"
      by (metis dropWhile_eq_Nil_conv seg_def takeWhile.simps(1))
    then have d: "dropWhile ISSLASH (p @ ''/'' @ s) = dropWhile ISSLASH p @ ''/'' @ s" by simp
    have "takeWhile (\<lambda>c. \<not> ISSLASH c) (q @ ''/'' @ s) = takeWhile (\<lambda>c. \<not> ISSLASH c) q"
      "dropWhile (\<lambda>c. \<not> ISSLASH c) (q @ ''/'' @ s) = dropWhile (\<lambda>c. \<not> ISSLASH c) q @ ''/'' @ s" for q
      by (induction q) (auto simp: ISSLASH_def)
    then have "seg (p @ ''/'' @ s) = seg p" "seg_end (p @ ''/'' @ s) = seg_end p @ ''/'' @ s"
      unfolding seg_def seg_end_def d by simp_all
    with False 1 show ?thesis by (simp add: comps_Cons)
  qed
qed

lemma comps_single: "good_comp c \<Longrightarrow> comps c = [c]"
  using comps_join_slash [of "[c]"] comps_append [of "[]" c] by (simp add: comps_Nil seg_def)

text \<open>The path of an entry of a directory, and of the path with the entry's name glued to it.\<close>

lemma at_path_snoc:
  assumes "proper_comp c"
  shows "at_path cwd (b @ ''/'' @ c) = at_path cwd (b @ ''/'') @ [c]"
  using assms comps_single [of c] comps_append [of "cwd @ ''/'' @ b" c] comps_append [of "cwd @ ''/'' @ b" "[]"]
    comps_append [of b c] comps_append [of b "[]"]
  by (cases b) (auto simp: at_path_def proper_comp_def comps_Nil seg_def)

lemma at_path_slash: "p \<noteq> [] \<Longrightarrow> at_path cwd (p @ ''/'') = at_path cwd p"
  using comps_append [of "cwd @ ''/'' @ p" "[]"] comps_append [of p "[]"]
  by (auto simp: at_path_def comps_Nil)

lemma at_path_under: "p \<noteq> [] \<Longrightarrow> proper_comp c \<Longrightarrow> at_path cwd (p @ ''/'' @ c) = at_path cwd p @ [c]"
  by (simp add: at_path_snoc at_path_slash del: append.simps append_assoc)

lemma walk_put_disjoint:
  "\<not> prefix cs ds \<Longrightarrow> \<not> prefix ds cs \<Longrightarrow> walk ds (put cs m root) = walk ds root"
proof (induction cs m root arbitrary: ds rule: put.induct)
  case (2 c m n)
  then show ?case by (cases ds; cases n) (auto simp: map_of_set_entry)
next
  case (3 c d cs m n)
  then show ?case
    by (cases ds; cases n) (auto simp: map_of_set_entry split: option.splits)
qed simp

subsection \<open>\<open>util_mkdir_p\<close>\<close>

text \<open>\<open>mkdir\<close> on one path, where an existing directory is as good (None is a failure).\<close>

definition do_mkdir :: "disk_env \<Rightarrow> string \<Rightarrow> string \<Rightarrow> fnode \<Rightarrow> fnode option" where
  "do_mkdir env cwd p root =
     (let cs = at_path cwd p in
      case walk cs root of
        Some (Dir es) \<Rightarrow> Some root
      | Some n \<Rightarrow> None
      | None \<Rightarrow>
          (case walk (butlast cs) root of
             Some (Dir es) \<Rightarrow> if mkdir_ok env p then Some (put cs (Some (Dir [])) root) else None
           | _ \<Rightarrow> None))"

lemma dropWhile_shorter: "dropWhile P xs \<noteq> xs \<Longrightarrow> length (dropWhile P xs) < length xs"
  by (cases xs) (auto simp: length_dropWhile_le le_imp_less_Suc split: if_splits)

text \<open>The loop: \<open>tmp_pos\<close> is the rest of \<open>base\<close> it has reached.\<close>

function mkdir_p_loop :: "disk_env \<Rightarrow> string \<Rightarrow> string \<Rightarrow> string \<Rightarrow> fnode \<Rightarrow> int \<times> fnode" where
  "mkdir_p_loop env cwd base tmp_pos root =
     (let dir = dropWhile ISSLASH tmp_pos;
          tmp_pos' = dropWhile (\<lambda>c. \<not> ISSLASH c) dir;
          len = length base - length dir;
          cur_dir = take len base
      in if len = 0 then (0, root)
         else if \<not> strndup_ok env cur_dir then (-1, root)
         else case do_mkdir env cwd cur_dir root of
                None \<Rightarrow> (-1, root)
              | Some root' \<Rightarrow>
                  if tmp_pos' = dir then (0, root') else mkdir_p_loop env cwd base tmp_pos' root')"
  by pat_completeness auto

termination
proof (relation "measure (\<lambda>(env, cwd, base, tmp_pos, root). length tmp_pos)", goal_cases)
  case (2 env cwd base tmp_pos root dir tmp_pos' len cur_dir root')
  have "length tmp_pos' < length dir"
    using 2(2,8) dropWhile_shorter [of "\<lambda>c. \<not> ISSLASH c" dir] by simp
  moreover have "length dir \<le> length tmp_pos" using 2(1) by (simp add: length_dropWhile_le)
  ultimately show ?case by simp
qed simp

declare mkdir_p_loop.simps [simp del]

definition util_mkdir_p :: "disk_env \<Rightarrow> string \<Rightarrow> string option \<Rightarrow> fnode \<Rightarrow> int \<times> fnode" where
  "util_mkdir_p env cwd dir root =
     (case dir of
        None \<Rightarrow> (-1, root)
      | Some d \<Rightarrow> if length d > PATH_MAX then (-1, root) else mkdir_p_loop env cwd d d root)"

lemma do_mkdir_dir: "do_mkdir env cwd p root = Some root' \<Longrightarrow> \<exists>es. walk (at_path cwd p) root' = Some (Dir es)"
proof -
  let ?cs = "at_path cwd p"
  assume m: "do_mkdir env cwd p root = Some root'"
  show ?thesis
  proof (cases "walk ?cs root")
    case None
    with m obtain es where es: "walk (butlast ?cs) root = Some (Dir es)" "root' = put ?cs (Some (Dir [])) root"
      by (auto simp: do_mkdir_def Let_def split: option.splits fnode.splits if_splits)
    from None have "?cs \<noteq> []" by auto
    then obtain ds c where cs: "?cs = ds @ [c]" by (metis append_butlast_last_id)
    with es have "walk ds root = Some (Dir es)" by simp
    from walk_put_same [OF this, of c "Some (Dir [])"] es(2) cs show ?thesis by simp
  next
    case (Some n)
    with m show ?thesis by (cases n) (auto simp: do_mkdir_def Let_def)
  qed
qed

text \<open>After success on an absolute path, the directory is there.  A relative path leaves the loop at once.\<close>

lemma mkdir_p_loop_dir:
  assumes "mkdir_p_loop env cwd base tmp root = (0, root')" "base \<noteq> []" "ISSLASH (hd base)" "suffix tmp base"
  shows "\<exists>es. walk (at_path cwd base) root' = Some (Dir es)"
  using assms
proof (induction env cwd base tmp root rule: mkdir_p_loop.induct)
  case (1 env cwd base tmp root)
  define dir where "dir = dropWhile ISSLASH tmp"
  define tmp' where "tmp' = dropWhile (\<lambda>c. \<not> ISSLASH c) dir"
  define cur where "cur = take (length base - length dir) base"
  have sd: "suffix dir base" using 1(5) suffix_dropWhile [of ISSLASH tmp] unfolding dir_def by (rule suffix_order.trans [rotated])
  have st: "suffix tmp' base" using sd suffix_dropWhile [of "\<lambda>c. \<not> ISSLASH c" dir] unfolding tmp'_def by (rule suffix_order.trans [rotated])
  have "dir = [] \<or> \<not> ISSLASH (hd dir)" unfolding dir_def using hd_dropWhile [of ISSLASH tmp] by blast
  then have "dir \<noteq> base" using 1(3,4) by auto
  then have len: "length base - length dir \<noteq> 0" using sd by (auto simp: suffix_def)
  have step: "mkdir_p_loop env cwd base tmp root =
     (if \<not> strndup_ok env cur then (-1, root)
      else case do_mkdir env cwd cur root of
        None \<Rightarrow> (-1, root)
      | Some root' \<Rightarrow> if tmp' = dir then (0, root') else mkdir_p_loop env cwd base tmp' root')"
    using len by (subst mkdir_p_loop.simps) (simp only: Let_def dir_def [symmetric] tmp'_def [symmetric] cur_def [symmetric] if_False)
  with 1(2) obtain r where r: "strndup_ok env cur" "do_mkdir env cwd cur root = Some r"
    "(if tmp' = dir then (0, r) else mkdir_p_loop env cwd base tmp' r) = (0, root')"
    by (auto split: if_splits option.splits)
  show ?case
  proof (cases "tmp' = dir")
    case True
    with \<open>dir = [] \<or> \<not> ISSLASH (hd dir)\<close> have "dir = []"
      unfolding tmp'_def using length_dropWhile_le [of "\<lambda>c. \<not> ISSLASH c" "tl dir"] by (cases dir) auto
    then have "cur = base" by (simp add: cur_def)
    with True r do_mkdir_dir show ?thesis by auto
  next
    case False
    with r 1(1) [OF dir_def tmp'_def refl _ _ _ r(2)[unfolded cur_def] ] len st 1(3,4) show ?thesis
      by (simp add: cur_def)
  qed
qed

lemma util_mkdir_p_dir:
  "util_mkdir_p env cwd (Some p) root = (0, root') \<Longrightarrow> p \<noteq> [] \<Longrightarrow> ISSLASH (hd p) \<Longrightarrow> \<exists>es. walk (at_path cwd p) root' = Some (Dir es)"
  by (auto simp: util_mkdir_p_def intro: mkdir_p_loop_dir split: if_splits)

end
