(* ===== verification/Checkpoint.thy ===== *)
theory Checkpoint
  imports Errors Disk Containers_Store Container_State "HOL-Library.Monad_Syntax"
begin

section \<open>Checkpoints of containers\<close>

text \<open>
  src/src/daemon/modules/checkpoint/checkpoint.c and the request handlers of
  src/src/daemon/executor/checkpoint\_cb/checkpoint\_cb.c, over the store of containers, the state of a
  container and the tree of files.  An operation returns None where the C code writes past a buffer
  or follows a NULL or freed pointer.  The environment \<open>chk_env\<close> holds what is outside: liblxc, the
  system calls, the locks and memory of the i-th lookup, the clock and the outcome of saving a state.
\<close>

record container_t =
  cid :: string
  image_type :: string
  image :: string
  cstate :: container_state

record lxc_container =
  is_defined :: bool
  is_running :: bool
  checkpoint :: "string \<Rightarrow> bool \<Rightarrow> bool \<Rightarrow> fnode \<Rightarrow> bool \<times> fnode"
  restore :: "string \<Rightarrow> bool \<Rightarrow> bool"

record chk_env =
  lxc_container_new :: "string \<Rightarrow> string \<Rightarrow> lxc_container option"
  denv :: disk_env
  cwd :: string
  get_lk :: "nat \<Rightarrow> alloc"
  get_mem :: "nat \<Rightarrow> bool"
  now :: string
  state_to_disk :: int

text \<open>The calls of other modules whose results are not used.\<close>

datatype call = Mount_rootfs string string string | Init_health_monitor string

record daemon =
  conts :: "container_t cstore"
  disk :: fnode
  errmsg :: "string option"
  calls :: "call list"

text \<open>The calls of err\_msg.c on the daemon.\<close>

definition set_errmsg :: "string \<Rightarrow> daemon \<Rightarrow> daemon" where
  "set_errmsg m d = d\<lparr>errmsg := isulad_set_error_message m (errmsg d)\<rparr>"

definition clear_errmsg :: "daemon \<Rightarrow> daemon" where
  "clear_errmsg d = d\<lparr>errmsg := DAEMON_CLEAR_ERRMSG (errmsg d)\<rparr>"

definition store_get :: "chk_env \<Rightarrow> nat \<Rightarrow> string \<Rightarrow> daemon \<Rightarrow> nat option \<times> daemon" where
  "store_get env i nm d =
     (let (c, s) = containers_store_get (get_lk env i) (get_mem env i) (Some nm) (conts d) in (c, d\<lparr>conts := s\<rparr>))"

definition deref :: "nat option \<Rightarrow> daemon \<Rightarrow> container_t option" where
  "deref c d = (case c of None \<Rightarrow> None | Some a \<Rightarrow> map_option snd (objs (conts d) a))"

definition set_cstate :: "nat option \<Rightarrow> container_state option \<Rightarrow> daemon \<Rightarrow> daemon" where
  "set_cstate c st d =
     (case (c, st) of
        (Some a, Some st) \<Rightarrow>
          d\<lparr>conts := (conts d)\<lparr>objs := (objs (conts d))(a := map_option (\<lambda>(n, x). (n, x\<lparr>cstate := st\<rparr>)) (objs (conts d) a))\<rparr>\<rparr>
      | _ \<Rightarrow> d)"

subsection \<open>Deleting a checkpoint directory\<close>

definition is_dir :: "fnode option \<Rightarrow> bool" where
  "is_dir n = (case n of Some (Dir es) \<Rightarrow> True | _ \<Rightarrow> False)"

definition is_file :: "fnode option \<Rightarrow> bool" where
  "is_file n = (n = Some Reg)"

definition is_special_dir :: "string \<Rightarrow> bool" where
  "is_special_dir path \<longleftrightarrow> path = ''.'' \<or> path = ''..''"

text \<open>The size of the buffers \<open>file_path\<close> and \<open>checkpoint_path\<close>.\<close>

definition path_buffer :: nat where "path_buffer = 1000"

definition get_file_path :: "string \<Rightarrow> string \<Rightarrow> string option" where
  "get_file_path path file_name =
     (let file_path = (if path = [] \<or> last path \<noteq> CHR ''/'' then path @ ''/'' else path) @ file_name
      in if path = [] \<or> length file_path \<ge> path_buffer then None else Some file_path)"

text \<open>\<open>delete_entries\<close> is the loop over the entries that \<open>readdir\<close> returns, \<open>.\<close> and \<open>..\<close> among them.\<close>

function (sequential) delete_file :: "disk_env \<Rightarrow> string \<Rightarrow> fnode option \<Rightarrow> (int \<times> fnode option) option"
  and delete_entries :: "disk_env \<Rightarrow> string \<Rightarrow> (string \<times> fnode) list \<Rightarrow> (string \<times> fnode) list option" where
  "delete_file env path n =
     (if is_file n then Some (0, if unlink_ok env path then None else n)
      else if is_dir n then
        (if \<not> opendir_ok env path then Some (-1, n)
         else do {
           _ \<leftarrow> get_file_path path ''.'';
           _ \<leftarrow> get_file_path path ''..'';
           es \<leftarrow> delete_entries env path (case n of Some (Dir es) \<Rightarrow> es | _ \<Rightarrow> []);
           Some (0, if es = [] \<and> rmdir_ok env path then None else Some (Dir es))
         })
      else Some (-1, n))"
| "delete_entries env path [] = Some []"
| "delete_entries env path ((d_name, n) # es) = do {
     file_path \<leftarrow> get_file_path path d_name;
     if is_special_dir d_name then do { es \<leftarrow> delete_entries env path es; Some ((d_name, n) # es) }
     else do {
       (_, n') \<leftarrow> delete_file env file_path (Some n);
       let n'' = (if n' = Some (Dir []) \<and> rmdir_ok env file_path then None else n');
       es \<leftarrow> delete_entries env path es;
       Some (keep d_name n'' es)
     }
   }"
  by pat_completeness auto

termination
  by (relation "measures [\<lambda>x. case x of
      Inl (_, _, n) \<Rightarrow> (case n of None \<Rightarrow> 0 | Some n \<Rightarrow> node_size n)
    | Inr (_, _, es) \<Rightarrow> dents_size es]")
    (auto simp: is_dir_def split: option.splits fnode.splits)

declare delete_file.simps [simp del]

definition default_checkpoint_dir :: string where
  "default_checkpoint_dir = ''/tmp/isula-criu/''"

text \<open>The directory of a container's checkpoint, as three of the operations build it.\<close>

definition checkpoint_path :: "string option \<Rightarrow> string \<Rightarrow> string option" where
  "checkpoint_path dir container =
     (let p = (case dir of None \<Rightarrow> default_checkpoint_dir | Some d \<Rightarrow> d) @ container
      in if length p \<ge> path_buffer then None else Some p)"

definition checkpoint_remove :: "chk_env \<Rightarrow> string \<Rightarrow> string option \<Rightarrow> daemon \<Rightarrow> (int \<times> daemon) option" where
  "checkpoint_remove env container dir d = do {
     p \<leftarrow> checkpoint_path dir container;
     (r, n) \<leftarrow> delete_file (denv env) p (walk (at_path (cwd env) p) (disk d));
     let d = d\<lparr>disk := put (at_path (cwd env) p) n (disk d)\<rparr>;
     if r \<noteq> 0 then Some (-1, set_errmsg (''Checkpointing remove '' @ container @ '' failed'') d)
     else Some (0, d)
   }"

subsection \<open>Creating and restoring\<close>

definition lcr_path :: string where "lcr_path = ''/var/lib/isulad/engines/lcr/''"

definition checkpoint_create :: "chk_env \<Rightarrow> string \<Rightarrow> string option \<Rightarrow> daemon \<Rightarrow> (int \<times> daemon) option" where
  "checkpoint_create env container dir d =
     (case lxc_container_new env container lcr_path of
        None \<Rightarrow> Some (-1, set_errmsg (''System error loading '' @ container @ [CHR 0x0A]) d)
      | Some c \<Rightarrow>
          if \<not> is_defined c then
            Some (-1, set_errmsg
              (''(deamon modules)Error response from daemon: No such container:'' @ container @ [CHR 0x0A]) d)
          else if \<not> is_running c then
            Some (-1, set_errmsg (container @ '' not running, not checkpointing'' @ [CHR 0x0A]) d)
          else do {
            p \<leftarrow> checkpoint_path dir container;
            let (res, t) = checkpoint c p True False (disk d);
            let d = d\<lparr>disk := t\<rparr>;
            if \<not> res then Some (-1, set_errmsg (''Checkpointing '' @ container @ '' failed'') d)
            else Some (0, d)
          })"

definition checkpoint_restore :: "chk_env \<Rightarrow> nat \<Rightarrow> string \<Rightarrow> string option \<Rightarrow> daemon \<Rightarrow> (int \<times> daemon) option" where
  "checkpoint_restore env i container dir d = do {
     let (cont, d) = store_get env i container d;
     x \<leftarrow> deref cont d;
     let d = d\<lparr>calls := calls d @ [Mount_rootfs (image_type x) (image x) container]\<rparr>;
     case lxc_container_new env container lcr_path of
       None \<Rightarrow> Some (-1, set_errmsg (''System error loading '' @ container @ [CHR 0x0A]) d)
     | Some c \<Rightarrow>
         if \<not> is_defined c then
           Some (-1, set_errmsg (''Error response from daemon: No such container:'' @ container @ [CHR 0x0A]) d)
         else if is_running c then
           Some (-1, set_errmsg (container @ '' is running, not restoring'' @ [CHR 0x0A]) d)
         else do {
           p \<leftarrow> checkpoint_path dir container;
           if \<not> restore c p True then
             Some (-1, set_errmsg (''Restoring '' @ container @ '' failed'' @ [CHR 0x0A]) d)
           else do {
             let pid_info = \<lparr>info_pid = 0, info_start_time = 0, info_ppid = 0, info_pstart_time = 0\<rparr>;
             let st = container_state_set_running (now env) (Some (cstate x)) (Some pid_info) True;
             let st = container_state_reset_has_been_manual_stopped st;
             let d = set_cstate cont st d;
             let d = d\<lparr>calls := calls d @ [Init_health_monitor (cid x)]\<rparr>;
             if state_to_disk env \<noteq> 0 then
               Some (-1, set_errmsg (''Failed to save container \"'' @ cid x @ ''\" to disk'') d)
             else Some (0, d)
           }
         }
   }"

subsection \<open>Listing\<close>

record checkpoint_info =
  che_dir :: string
  che_name :: string

definition new_empty_checkpoints :: "alloc \<Rightarrow> nat \<Rightarrow> bool" where
  "new_empty_checkpoints mem sz \<longleftrightarrow>
     util_common_calloc_s (mem 0) 16 \<and> (sz = 0 \<or> util_common_calloc_s (mem 1) (8 * sz))"

definition dup_checkpoint :: "bool \<Rightarrow> string \<Rightarrow> string \<Rightarrow> checkpoint_info option" where
  "dup_checkpoint mem nm dir = (if \<not> mem then None else Some \<lparr>che_dir = dir, che_name = nm\<rparr>)"

text \<open>The first scan of \<open>checkpoint_list\<close> counts the entries that name a container; every lookup takes a reference.\<close>

fun count_checkpoints :: "chk_env \<Rightarrow> nat \<Rightarrow> string list \<Rightarrow> daemon \<Rightarrow> nat \<times> nat \<times> daemon" where
  "count_checkpoints env i [] d = (0, i, d)"
| "count_checkpoints env i (nm # nms) d =
     (if nm = ''.'' \<or> nm = ''..'' then count_checkpoints env i nms d
      else
        let (cont, d) = store_get env i nm d;
            (n, i, d) = count_checkpoints env (Suc i) nms d
        in (if cont = None then n else Suc n, i, d))"

text \<open>The second scan fills the array of \<open>sz\<close> elements; a write past its end is None.\<close>

fun fill_checkpoints ::
    "chk_env \<Rightarrow> alloc \<Rightarrow> string \<Rightarrow> nat \<Rightarrow> nat \<Rightarrow> string list \<Rightarrow> daemon \<Rightarrow> checkpoint_info list \<Rightarrow> (checkpoint_info list \<times> daemon) option" where
  "fill_checkpoints env mem dir sz i [] d ches = Some (ches, d)"
| "fill_checkpoints env mem dir sz i (nm # nms) d ches =
     (if nm = ''.'' \<or> nm = ''..'' then fill_checkpoints env mem dir sz i nms d ches
      else
        let (cont, d) = store_get env i nm d in
        if cont = None then fill_checkpoints env mem dir sz (Suc i) nms d ches
        else
          case dup_checkpoint (mem (2 + length ches)) nm dir of
            None \<Rightarrow> Some (ches, d)
          | Some che \<Rightarrow>
              if length ches \<ge> sz then None
              else fill_checkpoints env mem dir sz (Suc i) nms d (ches @ [che]))"

text \<open>\<open>checkpoint_list\<close>: \<open>later\<close> is the tree of files at the time of the second scan.\<close>

definition checkpoint_list ::
    "chk_env \<Rightarrow> alloc \<Rightarrow> fnode \<Rightarrow> string option \<Rightarrow> daemon \<Rightarrow> (checkpoint_info list option \<times> daemon) option" where
  "checkpoint_list env mem later dir d =
     (let dir = (case dir of None \<Rightarrow> default_checkpoint_dir | Some x \<Rightarrow> x) in
      case read_dir (denv env) (cwd env) dir (disk d) of
        None \<Rightarrow> Some (None, set_errmsg ''checkpoint_dir is NULL'' d)
      | Some nms \<Rightarrow>
          let (n, i, d) = count_checkpoints env 0 nms d in
          if \<not> new_empty_checkpoints mem n then Some (None, d)
          else
            let d = d\<lparr>disk := later\<rparr> in
            case read_dir (denv env) (cwd env) dir later of
              None \<Rightarrow> None
            | Some nms \<Rightarrow> do {
                (ches, d) \<leftarrow> fill_checkpoints env mem dir n i nms d [];
                Some (Some ches, d)
              })"

subsection \<open>The request handlers\<close>

record chk_request =
  req_container :: "string option"
  req_dir :: "string option"

record chk_response =
  cc :: isulad_errno_t
  resp_errmsg :: "string option"
  resp_checkpoints :: "checkpoint_info list"

text \<open>The common exit of the handlers: the response, where there is one, gets the code and the error
  message; \<open>ches\<close> are the checkpoints put into it.\<close>

definition respond :: "bool \<Rightarrow> isulad_errno_t \<Rightarrow> checkpoint_info list \<Rightarrow> daemon \<Rightarrow> int \<times> chk_response option \<times> daemon" where
  "respond resp c ches d =
     (if c \<noteq> ISULAD_SUCCESS then ECOMMON else 0,
      if resp then Some \<lparr>cc = c, resp_errmsg = errmsg d, resp_checkpoints = ches\<rparr> else None,
      if resp then clear_errmsg d else d)"

text \<open>
  The handlers: \<open>resp_ptr\<close> says that the pointer for the response is not NULL, \<open>calloc\<close> that the
  response gets memory.  In an entry with no request or no pointer nothing is done.
\<close>

definition checkpoint_create_cb ::
    "chk_env \<Rightarrow> bool \<Rightarrow> bool \<Rightarrow> chk_request option \<Rightarrow> daemon \<Rightarrow> (int \<times> chk_response option \<times> daemon) option" where
  "checkpoint_create_cb env calloc resp_ptr request d =
     (let d = clear_errmsg d in
      case request of
        None \<Rightarrow> Some (EINVALIDARGS, None, d)
      | Some r \<Rightarrow>
          (case req_container r of
             None \<Rightarrow> Some (EINVALIDARGS, None, d)
           | Some nm \<Rightarrow>
               if \<not> resp_ptr then Some (EINVALIDARGS, None, d)
               else if \<not> calloc then Some (respond False ISULAD_ERR_MEMOUT [] d)
               else
                 let (cont, d) = store_get env 0 nm d in
                 if cont = None then
                   Some (respond True ISULAD_ERR_EXEC [] (set_errmsg (''No such container:'' @ nm) d))
                 else do {
                   x \<leftarrow> deref cont d;
                   (ret, d) \<leftarrow> checkpoint_create env (cid x) (req_dir r) d;
                   Some (respond True (if ret \<noteq> 0 then ISULAD_ERR_EXEC else ISULAD_SUCCESS) [] d)
                 }))"

definition checkpoint_restore_cb ::
    "chk_env \<Rightarrow> bool \<Rightarrow> bool \<Rightarrow> chk_request option \<Rightarrow> daemon \<Rightarrow> (int \<times> chk_response option \<times> daemon) option" where
  "checkpoint_restore_cb env calloc resp_ptr request d =
     (let d = clear_errmsg d in
      case request of
        None \<Rightarrow> Some (EINVALIDARGS, None, d)
      | Some r \<Rightarrow>
          (case req_container r of
             None \<Rightarrow> Some (EINVALIDARGS, None, d)
           | Some nm \<Rightarrow>
               if \<not> resp_ptr then Some (EINVALIDARGS, None, d)
               else if \<not> calloc then Some (respond False ISULAD_ERR_MEMOUT [] d)
               else
                 let (cont, d) = store_get env 0 nm d in
                 if cont = None then
                   Some (respond True ISULAD_ERR_EXEC [] (set_errmsg (''No such container:'' @ nm) d))
                 else do {
                   x \<leftarrow> deref cont d;
                   (ret, d) \<leftarrow> checkpoint_restore env 1 (cid x) (req_dir r) d;
                   Some (respond True (if ret \<noteq> 0 then ISULAD_ERR_EXEC else ISULAD_SUCCESS) [] d)
                 }))"

definition checkpoint_remove_cb ::
    "chk_env \<Rightarrow> bool \<Rightarrow> bool \<Rightarrow> chk_request option \<Rightarrow> daemon \<Rightarrow> (int \<times> chk_response option \<times> daemon) option" where
  "checkpoint_remove_cb env calloc resp_ptr request d =
     (let d = clear_errmsg d in
      case request of
        None \<Rightarrow> Some (EINVALIDARGS, None, d)
      | Some r \<Rightarrow>
          (case req_container r of
             None \<Rightarrow> Some (EINVALIDARGS, None, d)
           | Some nm \<Rightarrow>
               if \<not> resp_ptr then Some (EINVALIDARGS, None, d)
               else if \<not> calloc then Some (respond False ISULAD_ERR_MEMOUT [] d)
               else
                 let (cont, d) = store_get env 0 nm d in
                 if cont = None then
                   Some (respond True ISULAD_ERR_EXEC [] (set_errmsg (''No such container:'' @ nm) d))
                 else do {
                   x \<leftarrow> deref cont d;
                   (ret, d) \<leftarrow> checkpoint_remove env (cid x) (req_dir r) d;
                   Some (respond True (if ret \<noteq> 0 then ISULAD_ERR_EXEC else ISULAD_SUCCESS) [] d)
                 }))"

text \<open>Copying the list into the response: an allocation that fails keeps what was copied before it.\<close>

fun copy_checkpoints :: "alloc \<Rightarrow> nat \<Rightarrow> checkpoint_info list \<Rightarrow> isulad_errno_t \<times> checkpoint_info list" where
  "copy_checkpoints mem i [] = (ISULAD_SUCCESS, [])"
| "copy_checkpoints mem i (c # cs) =
     (if \<not> mem i then (ISULAD_ERR_MEMOUT, [])
      else let (e, r) = copy_checkpoints mem (Suc i) cs in (e, c # r))"

definition checkpoint_list_cb ::
    "chk_env \<Rightarrow> alloc \<Rightarrow> alloc \<Rightarrow> fnode \<Rightarrow> bool \<Rightarrow> chk_request option \<Rightarrow> daemon \<Rightarrow> (int \<times> chk_response option \<times> daemon) option" where
  "checkpoint_list_cb env mem rmem later resp_ptr request d =
     (let d = clear_errmsg d in
      case request of
        None \<Rightarrow> Some (EINVALIDARGS, None, d)
      | Some r \<Rightarrow>
          if \<not> resp_ptr then Some (EINVALIDARGS, None, d)
          else if \<not> rmem 0 then Some (respond False ISULAD_ERR_MEMOUT [] d)
          else do {
            (l, d) \<leftarrow> checkpoint_list env mem later (req_dir r) d;
            case l of
              None \<Rightarrow> Some (respond True ISULAD_ERR_EXEC [] d)
            | Some ches \<Rightarrow>
                if ches = [] then Some (respond True ISULAD_SUCCESS [] d)
                else if \<not> util_smart_calloc_s (rmem 1) 8 (length ches) then Some (respond True ISULAD_ERR_MEMOUT [] d)
                else let (c, cs) = copy_checkpoints rmem 2 ches in Some (respond True c cs d)
          })"

end
