(* ===== verification/Checkpoint_Props.thy ===== *)
theory Checkpoint_Props
  imports Checkpoint
begin

section \<open>Correctness of the checkpoint operations\<close>

text \<open>
  Deleting a checkpoint directory, listing the checkpoints of a directory, the way from a created
  checkpoint to its listing, the state of a restored container, and the references the operations take.
\<close>

lemma set_error_message_fields [simp]:
  "disk (set_errmsg m d) = disk d" "conts (set_errmsg m d) = conts d"
  "calls (set_errmsg m d) = calls d"
  by (simp_all add: set_errmsg_def)

subsection \<open>Deleting\<close>

text \<open>The paths that \<open>delete_file\<close> builds below \<open>p\<close> fit its buffer.\<close>

fun del_fits :: "string \<Rightarrow> fnode \<Rightarrow> bool" and del_dents_fit :: "string \<Rightarrow> (string \<times> fnode) list \<Rightarrow> bool" where
  "del_fits p (Dir es) = (get_file_path p ''.'' \<noteq> None \<and> get_file_path p ''..'' \<noteq> None \<and> del_dents_fit p es)"
| "del_fits p _ = True"
| "del_dents_fit p [] = True"
| "del_dents_fit p ((nm, n) # es) =
     ((case get_file_path p nm of None \<Rightarrow> False | Some fp \<Rightarrow> del_fits fp n) \<and> del_dents_fit p es)"

text \<open>Only regular files and directories, under proper names.\<close>

fun plain :: "fnode \<Rightarrow> bool" and plain_dents :: "(string \<times> fnode) list \<Rightarrow> bool" where
  "plain Reg = True" | "plain Other = False" | "plain (Dir es) = plain_dents es"
| "plain_dents [] = True" | "plain_dents ((nm, n) # es) = (\<not> is_special_dir nm \<and> plain n \<and> plain_dents es)"

definition del_granted :: "disk_env \<Rightarrow> bool" where
  "del_granted env \<longleftrightarrow> (\<forall>p. opendir_ok env p \<and> unlink_ok env p \<and> rmdir_ok env p)"

lemma delete_complete:
  "del_granted env \<Longrightarrow> n = Some m \<Longrightarrow> del_fits p m \<Longrightarrow> plain m \<Longrightarrow> delete_file env p n = Some (0, None)"
  "del_granted env \<Longrightarrow> del_dents_fit p es \<Longrightarrow> plain_dents es \<Longrightarrow> delete_entries env p es = Some []"
proof (induction env p n and env p es arbitrary: m rule: delete_file_delete_entries.induct)
  case (1 env p n)
  then show ?case
    by (cases m) (auto simp: delete_file.simps is_file_def is_dir_def del_granted_def)
next
  case (3 env p nm n es)
  then show ?case
    by (auto simp: keep_def split: option.splits)
qed simp

lemma delete_total:
  "n = None \<or> del_fits p (the n) \<Longrightarrow> \<exists>r n'. delete_file env p n = Some (r, n') \<and>
     (n' \<noteq> n \<longrightarrow> r = 0) \<and> (r = (if is_file n \<or> is_dir n \<and> opendir_ok env p then 0 else -1))"
  "del_dents_fit p es \<Longrightarrow> delete_entries env p es \<noteq> None"
proof (induction env p n and env p es rule: delete_file_delete_entries.induct)
  case (1 env p n)
  then show ?case
    by (cases n; cases "the n") (auto simp: delete_file.simps is_file_def is_dir_def, fastforce)
next
  case (3 env p nm n es)
  then obtain fp where fp: "get_file_path p nm = Some fp" "del_fits fp n" "del_dents_fit p es" by (auto split: option.splits)
  show ?case
  proof (cases "is_special_dir nm")
    case True
    with fp 3 show ?thesis by auto
  next
    case False
    with fp 3(2) obtain r n' where del: "delete_file env fp (Some n) = Some (r, n')" by fastforce
    with fp False 3(3) have "delete_entries env p es \<noteq> None" by simp
    with del fp False show ?thesis by (auto simp: Let_def)
  qed
qed simp


definition ex_lxc :: lxc_container where
  "ex_lxc = \<lparr>is_defined = True, is_running = True,
     checkpoint = \<lambda>p stop verbose t. (True, put (at_path ''/'' p) (Some (Dir [(''pages-1.img'', Reg)])) t),
     restore = \<lambda>p verbose. True\<rparr>"

definition ex_env :: chk_env where
  "ex_env = \<lparr>lxc_container_new = \<lambda>nm path. Some ex_lxc, denv = ex_disk_env, cwd = ''/'', get_lk = \<lambda>_. all_ok,
     get_mem = all_ok, now = ''2021-09-30T00:00:00Z'', state_to_disk = 0\<rparr>"

definition ex_cont :: container_t where
  "ex_cont = \<lparr>cid = ''a3f3'', image_type = ''oci'', image = ''busybox'', cstate = zero_state\<rparr>"

definition ex_daemon :: daemon where
  "ex_daemon = \<lparr>conts = \<lparr>objs = (\<lambda>a. if a = 1 then Some (1, ex_cont) else None), ids = [(''a3f3'', 1)], names = []\<rparr>,
     disk = Dir [(''ck'', Dir [(''a3f3'', Dir [(''pages-1.img'', Reg)])])], errmsg = None, calls = []\<rparr>"

lemma ex_paths:
  "at_path ''/'' ''/ck/a3f3'' = [''ck'', ''a3f3'']" "at_path ''/'' ''/ck/'' = [''ck'']" "at_path ''/'' ''/ck'' = [''ck'']"
  by (simp_all add: at_path_def comps.simps seg_def seg_end_def)


subsection \<open>Listing\<close>

definition lookups_ok :: "chk_env \<Rightarrow> bool" where
  "lookups_ok env \<longleftrightarrow> (\<forall>i j. get_lk env i j) \<and> (\<forall>i. get_mem env i)"

definition take_ref :: "nat option \<Rightarrow> daemon \<Rightarrow> daemon" where
  "take_ref c d = d\<lparr>conts := container_refinc c (conts d)\<rparr>"

lemma refinc_maps [simp]: "names (container_refinc c s) = names s"
  by (simp add: container_refinc_def split: option.split)

lemma resolve_refinc [simp]: "resolve n (container_refinc c s) = resolve n s"
  by (simp add: resolve_def cong: option.case_cong)

lemma take_ref_fields [simp]:
  "disk (take_ref c d) = disk d" "errmsg (take_ref c d) = errmsg d" "calls (take_ref c d) = calls d"
  "resolve n (conts (take_ref c d)) = resolve n (conts d)"
  by (simp_all add: take_ref_def)

lemma store_get_ok: "lookups_ok env \<Longrightarrow> store_get env i nm d = (resolve nm (conts d), take_ref (resolve nm (conts d)) d)"
  by (simp add: store_get_def lookups_ok_def containers_store_get_resolve take_ref_def)

text \<open>The entries that name a container, and the references that looking all of them up takes.\<close>

definition known :: "container_t cstore \<Rightarrow> string list \<Rightarrow> string list" where
  "known s nms = filter (\<lambda>nm. \<not> is_special_dir nm \<and> resolve nm s \<noteq> None) nms"

definition take_refs :: "container_t cstore \<Rightarrow> string list \<Rightarrow> daemon \<Rightarrow> daemon" where
  "take_refs s nms d = foldl (\<lambda>d nm. take_ref (resolve nm s) d) d (known s nms)"

lemma take_ref_None [simp]: "take_ref None d = d"
  by (simp add: take_ref_def container_refinc_def)

lemma foldl_take_ref:
  "disk (foldl (\<lambda>d nm. take_ref (f nm) d) d xs) = disk d" "errmsg (foldl (\<lambda>d nm. take_ref (f nm) d) d xs) = errmsg d"
  "calls (foldl (\<lambda>d nm. take_ref (f nm) d) d xs) = calls d"
  "resolve n (conts (foldl (\<lambda>d nm. take_ref (f nm) d) d xs)) = resolve n (conts d)"
  by (induction xs arbitrary: d) simp_all

lemma take_refs_fields [simp]:
  "disk (take_refs s nms d) = disk d" "errmsg (take_refs s nms d) = errmsg d" "calls (take_refs s nms d) = calls d"
  "resolve n (conts (take_refs s nms d)) = resolve n (conts d)"
  by (simp_all add: take_refs_def foldl_take_ref)

lemma known_simps [simp]:
  "known s [] = []" "known s (nm # nms) = (if is_special_dir nm \<or> resolve nm s = None then known s nms else nm # known s nms)"
  by (simp_all add: known_def)

lemma take_refs_simps [simp]:
  "take_refs s [] d = d"
  "take_refs s (nm # nms) d = (if is_special_dir nm then take_refs s nms d else take_refs s nms (take_ref (resolve nm s) d))"
  by (simp_all add: take_refs_def)

lemma take_refs_disk [simp]: "(take_refs s nms d)\<lparr>disk := disk d\<rparr> = take_refs s nms d"
  by (rule daemon.equality) simp_all

lemma count_ok:
  assumes "lookups_ok env"
  shows "(\<forall>nm. resolve nm s = resolve nm (conts d)) \<Longrightarrow>
    \<exists>k. count_checkpoints env i nms d = (length (known s nms), k, take_refs s nms d)"
proof (induction nms arbitrary: i d)
  case (Cons nm nms)
  show ?case
  proof (cases "is_special_dir nm")
    case True
    with Cons show ?thesis by (auto simp: is_special_dir_def)
  next
    case False
    from Cons.IH [of "take_ref (resolve nm (conts d)) d" "Suc i"] Cons.prems obtain k where
      "count_checkpoints env (Suc i) nms (take_ref (resolve nm s) d) = (length (known s nms), k, take_refs s nms (take_ref (resolve nm s) d))"
      by auto
    with False Cons.prems show ?thesis by (auto simp: is_special_dir_def store_get_ok [OF assms])
  qed
qed simp

lemma fill_ok:
  assumes "lookups_ok env" "\<And>i. mem i"
  shows "(\<forall>nm. resolve nm s = resolve nm (conts d)) \<Longrightarrow> length ches + length (known s nms) \<le> sz \<Longrightarrow>
    fill_checkpoints env mem dir sz i nms d ches =
      Some (ches @ map (\<lambda>nm. \<lparr>che_dir = dir, che_name = nm\<rparr>) (known s nms), take_refs s nms d)"
proof (induction nms arbitrary: i d ches)
  case (Cons nm nms)
  show ?case
  proof (cases "is_special_dir nm")
    case True
    with Cons show ?thesis by (auto simp: is_special_dir_def)
  next
    case False
    have t: "\<forall>x. resolve x s = resolve x (conts (take_ref (resolve nm s) d))" using Cons.prems(1) by simp
    from False have "fill_checkpoints env mem dir sz i (nm # nms) d ches =
        (if resolve nm s = None then fill_checkpoints env mem dir sz (Suc i) nms d ches
         else if length ches \<ge> sz then None
         else fill_checkpoints env mem dir sz (Suc i) nms (take_ref (resolve nm s) d) (ches @ [\<lparr>che_dir = dir, che_name = nm\<rparr>]))"
      using Cons.prems(1) by (simp add: store_get_ok [OF assms(1)] assms(2) is_special_dir_def dup_checkpoint_def)
    moreover have "length (ches @ [\<lparr>che_dir = dir, che_name = nm\<rparr>]) + length (known s nms) \<le> sz" if "resolve nm s \<noteq> None"
      using that False Cons.prems(2) by auto
    ultimately show ?thesis
      using False Cons.IH [OF Cons.prems(1), of ches "Suc i"] Cons.IH [OF t, of "ches @ [\<lparr>che_dir = dir, che_name = nm\<rparr>]" "Suc i"] Cons.prems(2)
      by (cases "resolve nm s") (simp_all del: fill_checkpoints.simps)
  qed
qed simp

lemma checkpoint_list_ok:
  assumes "lookups_ok env" "\<And>i. mem i" "read_dir (denv env) (cwd env) dir (disk d) = Some nms"
    and "8 * length (known (conts d) nms) \<le> MAX_MEMORY_SIZE"
  shows "checkpoint_list env mem (disk d) (Some dir) d =
    Some (Some (map (\<lambda>nm. \<lparr>che_dir = dir, che_name = nm\<rparr>) (known (conts d) nms)),
          take_refs (conts d) nms (take_refs (conts d) nms d))"
proof -
  from count_ok [OF assms(1), of "conts d" d 0 nms] obtain k where
    k: "count_checkpoints env 0 nms d = (length (known (conts d) nms), k, take_refs (conts d) nms d)" by auto
  have "new_empty_checkpoints mem (length (known (conts d) nms))"
    using assms(2,4) by (auto simp: new_empty_checkpoints_def util_common_calloc_s_def MAX_MEMORY_SIZE_def)
  moreover have "fill_checkpoints env mem dir (length (known (conts d) nms)) k nms (take_refs (conts d) nms d) [] =
      Some (map (\<lambda>nm. \<lparr>che_dir = dir, che_name = nm\<rparr>) (known (conts d) nms), take_refs (conts d) nms (take_refs (conts d) nms d))"
    by (subst fill_ok [OF assms(1,2), of "conts d"]) simp_all
  ultimately show ?thesis using k assms(3) by (simp add: checkpoint_list_def)
qed

lemma checkpoint_create_ok:
  assumes "lxc_container_new env c lcr_path = Some l" "is_defined l" "is_running l" "length (dir @ c) < path_buffer"
    "checkpoint l (dir @ c) True False (disk d) = (True, t)"
  shows "checkpoint_create env c (Some dir) d = Some (0, d\<lparr>disk := t\<rparr>)"
  using assms by (simp add: checkpoint_create_def checkpoint_path_def)

lemma known_iff: "nm \<in> set (known s nms) \<longleftrightarrow> nm \<in> set nms \<and> \<not> is_special_dir nm \<and> resolve nm s \<noteq> None"
  by (auto simp: known_def)

lemma length_known: "length (known s (''.'' # ''..'' # nms)) \<le> length nms"
proof -
  have "known s (''.'' # ''..'' # nms) = known s nms" by (simp add: is_special_dir_def)
  then show ?thesis by (simp add: known_def)
qed

lemma length_set_entry: "length (set_entry c m es) \<le> Suc (length es)"
  by (induction c m es rule: set_entry.induct) (auto split: option.split)

text \<open>C18. A checkpoint that was created is found again.  When the directory given with a request ends with a
  slash and exists, and liblxc puts the images into the directory it is given, then creating the
  checkpoint succeeds, the images are at the entry of that directory named by the container, and
  listing the directory returns the checkpoint; everything it returns names a container.\<close>

theorem checkpoint_created_listed:
  assumes "lookups_ok env" "\<And>i. mem i" "lxc_container_new env c lcr_path = Some l" "is_defined l" "is_running l"
    and "\<And>p t. checkpoint l p True False t = (True, put (at_path (cwd env) p) (Some (Dir imgs)) t)"
    and "walk (at_path (cwd env) (b @ ''/'')) (disk d) = Some (Dir es)" "opendir_ok (denv env) (b @ ''/'')"
    and "proper_comp c" "length (b @ ''/'' @ c) < path_buffer" "resolve c (conts d) \<noteq> None" "length es < 2 ^ 40"
  shows "\<exists>d1 ches d2. checkpoint_create env c (Some (b @ ''/'')) d = Some (0, d1) \<and>
    walk (at_path (cwd env) (b @ ''/'') @ [c]) (disk d1) = Some (Dir imgs) \<and>
    checkpoint_list env mem (disk d1) (Some (b @ ''/'')) d1 = Some (Some ches, d2) \<and>
    \<lparr>che_dir = b @ ''/'', che_name = c\<rparr> \<in> set ches \<and>
    (\<forall>che \<in> set ches. che_dir che = b @ ''/'' \<and> resolve (che_name che) (conts d) \<noteq> None)"
proof -
  let ?cs = "at_path (cwd env) (b @ ''/'')"
  let ?d = "d\<lparr>disk := put (?cs @ [c]) (Some (Dir imgs)) (disk d)\<rparr>"
  let ?nms = "''.'' # ''..'' # map fst (set_entry c (Some (Dir imgs)) es)"
  have create: "checkpoint_create env c (Some (b @ ''/'')) d = Some (0, ?d)"
    using assms(3-5,10) assms(6) [of "b @ ''/'' @ c" "disk d"] at_path_snoc [OF assms(9), of "cwd env" b]
    by (intro checkpoint_create_ok) simp_all
  have "read_dir (denv env) (cwd env) (b @ ''/'') (disk ?d) = Some ?nms"
    using walk_put_parent [OF assms(7)] assms(8) by (simp add: read_dir_def)
  moreover have "length (known (conts ?d) ?nms) \<le> Suc (length es)"
    using order_trans [OF length_known [of "conts ?d" "map fst (set_entry c (Some (Dir imgs)) es)"]] length_set_entry [of c "Some (Dir imgs)" es]
    by (simp only: length_map)
  then have "8 * length (known (conts ?d) ?nms) \<le> MAX_MEMORY_SIZE" using assms(12) by (simp add: MAX_MEMORY_SIZE_def)
  ultimately have ls: "checkpoint_list env mem (disk ?d) (Some (b @ ''/'')) ?d =
      Some (Some (map (\<lambda>nm. \<lparr>che_dir = b @ ''/'', che_name = nm\<rparr>) (known (conts ?d) ?nms)),
        take_refs (conts ?d) ?nms (take_refs (conts ?d) ?nms ?d))"
    by (intro checkpoint_list_ok assms(1,2))
  have cin: "c \<in> set (known (conts ?d) ?nms)"
    using assms(9,11) set_entry_names [of c "Some (Dir imgs)" es] by (simp add: known_iff proper_comp_def is_special_dir_def)
  have w: "walk (?cs @ [c]) (disk ?d) = Some (Dir imgs)" using walk_put_same [OF assms(7)] by simp
  have kn: "\<forall>nm \<in> set (known (conts ?d) ?nms). resolve nm (conts d) \<noteq> None" by (simp add: known_def)
  define K where "K = known (conts ?d) ?nms"
  have "\<lparr>che_dir = b @ ''/'', che_name = c\<rparr> \<in> set (map (\<lambda>nm. \<lparr>che_dir = b @ ''/'', che_name = nm\<rparr>) K)"
    "\<forall>che \<in> set (map (\<lambda>nm. \<lparr>che_dir = b @ ''/'', che_name = nm\<rparr>) K). che_dir che = b @ ''/'' \<and> resolve (che_name che) (conts d) \<noteq> None"
    using cin kn unfolding K_def [symmetric] by auto
  with create w ls show ?thesis unfolding K_def by blast
qed

definition ex_stopped :: chk_env where
  "ex_stopped = ex_env\<lparr>lxc_container_new := \<lambda>nm path. Some (ex_lxc\<lparr>is_running := False\<rparr>)\<rparr>"

lemma ex_resolve: "resolve ''a3f3'' (conts ex_daemon) = Some 1"
  by (simp add: ex_daemon_def) code_simp

theorem checkpoint_created_listed_witness:
  "\<exists>d1 ches d2. checkpoint_create ex_env ''a3f3'' (Some ''/ck/'') ex_daemon = Some (0, d1) \<and>
     checkpoint_list ex_env all_ok (disk d1) (Some ''/ck/'') d1 = Some (Some ches, d2) \<and>
     \<lparr>che_dir = ''/ck/'', che_name = ''a3f3''\<rparr> \<in> set ches"
proof -
  have "proper_comp ''a3f3''" by (simp add: proper_comp_def good_comp_def)
  then show ?thesis
    using checkpoint_created_listed [of ex_env all_ok "''a3f3''" ex_lxc "[(''pages-1.img'', Reg)]" "''/ck''" ex_daemon
        "[(''a3f3'', Dir [(''pages-1.img'', Reg)])]"] ex_resolve ex_paths
    by (auto simp: ex_env_def ex_lxc_def ex_daemon_def ex_disk_env_def lookups_ok_def path_buffer_def)
qed

text \<open>C21. The operations that build the path of a checkpoint put the container's name directly behind the
  directory of the request, while listing reads that directory.  When the directory does not end with a
  slash, the images of a successfully created checkpoint end up beside the directory, and listing it
  gives what it gave before.\<close>

theorem checkpoint_dir_without_slash:
  assumes "lookups_ok env" "\<And>i. mem i" "lxc_container_new env c lcr_path = Some l" "is_defined l" "is_running l"
    and "\<And>p t. checkpoint l p True False t = (True, put (at_path (cwd env) p) (Some (Dir imgs)) t)"
    and "proper_comp y" "proper_comp c" "length (b @ ''/'' @ y @ c) < path_buffer"
    and "checkpoint_list env mem (disk d) (Some (b @ ''/'' @ y)) d = Some (ches, d0)"
    and "read_dir (denv env) (cwd env) (b @ ''/'' @ y) (disk d) = Some nms" "length nms < 2 ^ 40"
  shows "\<exists>d1 d2. checkpoint_create env c (Some (b @ ''/'' @ y)) d = Some (0, d1) \<and>
    disk d1 = put (at_path (cwd env) (b @ ''/'') @ [y @ c]) (Some (Dir imgs)) (disk d) \<and>
    checkpoint_list env mem (disk d1) (Some (b @ ''/'' @ y)) d1 = Some (ches, d2)"
proof -
  let ?cs = "at_path (cwd env) (b @ ''/'')"
  let ?d = "d\<lparr>disk := put (?cs @ [y @ c]) (Some (Dir imgs)) (disk d)\<rparr>"
  have "y @ c \<noteq> ''..''" "y @ c \<noteq> ''.''"
    using assms(7,8) by (auto simp: proper_comp_def good_comp_def append_eq_Cons_conv)
  then have yc: "proper_comp (y @ c)" using assms(7,8) by (auto simp: proper_comp_def good_comp_def)
  have create: "checkpoint_create env c (Some (b @ ''/'' @ y)) d = Some (0, ?d)"
    using assms(3-5,9) assms(6) [of "b @ ''/'' @ y @ c" "disk d"] at_path_snoc [OF yc, of "cwd env" b]
    by (intro checkpoint_create_ok) simp_all
  have "y @ c \<noteq> y" using assms(8) by (simp add: proper_comp_def good_comp_def)
  then have rd: "read_dir (denv env) (cwd env) (b @ ''/'' @ y) (disk ?d) = Some nms"
    using walk_put_other [of "y @ c" y ?cs "Some (Dir imgs)" "disk d"] assms(11) at_path_snoc [OF assms(7), of "cwd env" b]
    by (simp add: read_dir_def)
  have "length (known (conts d) nms) \<le> length nms" by (simp add: known_def)
  then have m: "8 * length (known (conts d) nms) \<le> MAX_MEMORY_SIZE" using assms(12) by (simp add: MAX_MEMORY_SIZE_def)
  have "ches = Some (map (\<lambda>nm. \<lparr>che_dir = b @ ''/'' @ y, che_name = nm\<rparr>) (known (conts d) nms))"
    using checkpoint_list_ok [OF assms(1,2,11) m] assms(10) by simp
  moreover have "8 * length (known (conts ?d) nms) \<le> MAX_MEMORY_SIZE" using m by simp
  note checkpoint_list_ok [OF assms(1,2) rd this]
  ultimately show ?thesis using create by auto
qed

definition ex_daemon_empty :: daemon where
  "ex_daemon_empty = ex_daemon\<lparr>disk := Dir [(''ck'', Dir [])]\<rparr>"

theorem checkpoint_dir_without_slash_witness:
  "\<exists>d1 d2. checkpoint_create ex_env ''a3f3'' (Some ''/ck'') ex_daemon_empty = Some (0, d1) \<and>
     checkpoint_list ex_env all_ok (disk d1) (Some ''/ck'') d1 = Some (Some [], d2)"
proof -
  have rd: "read_dir (denv ex_env) (cwd ex_env) ''/ck'' (disk ex_daemon_empty) = Some [''.'', ''..'']"
    by (simp add: read_dir_def ex_env_def ex_daemon_empty_def ex_disk_env_def ex_paths)
  have kn: "known (conts ex_daemon_empty) [''.'', ''..''] = []" by (simp add: is_special_dir_def)
  have lk: "lookups_ok ex_env" by (simp add: lookups_ok_def ex_env_def)
  have "checkpoint_list ex_env all_ok (disk ex_daemon_empty) (Some ''/ck'') ex_daemon_empty = Some (Some [], ex_daemon_empty)"
    using checkpoint_list_ok [OF lk _ rd, of all_ok] kn by (simp add: is_special_dir_def)
  moreover have "proper_comp ''a3f3''" "proper_comp ''ck''" by (simp_all add: proper_comp_def good_comp_def)
  ultimately show ?thesis
    using checkpoint_dir_without_slash [of ex_env all_ok "''a3f3''" ex_lxc "[(''pages-1.img'', Reg)]" "''ck''" "[]" ex_daemon_empty
        "Some []" ex_daemon_empty "[''.'', ''..'']"] rd lk
    by (auto simp: ex_env_def ex_lxc_def path_buffer_def)
qed

subsection \<open>Restoring\<close>

lemma refinc_objs: "objs s a = Some (n, x) \<Longrightarrow> objs (container_refinc (Some a) s) a = Some (n + 1, x)"
  by (simp add: container_refinc_def)

lemma deref_take_ref:
  "objs (conts d) a = Some (n, x) \<Longrightarrow> deref (Some a) (take_ref (Some a) d) = Some x \<and>
     objs (conts (take_ref (Some a) d)) a = Some (n + 1, x)"
  by (simp add: deref_def take_ref_def refinc_objs)

lemma errmsg_objs [simp]: "objs (conts (d\<lparr>errmsg := m\<rparr>)) = objs (conts d)"
  by simp


lemma ex_not_running:
  "lookups_ok ex_stopped" "lxc_container_new ex_stopped nm path = Some (ex_lxc\<lparr>is_running := False\<rparr>)" "state_to_disk ex_stopped = 0"
  by (simp_all add: ex_stopped_def ex_env_def lookups_ok_def)


subsection \<open>References\<close>

lemma checkpoint_create_conts: "checkpoint_create env c dir d = Some (r, d') \<Longrightarrow> conts d' = conts d"
  by (auto simp: checkpoint_create_def Let_def split: option.splits if_splits prod.splits bind_splits)



end
