(* ===== verification/Regex.thy ===== *)
theory Regex
  imports Strings
begin

section \<open>Regular expressions\<close>

text \<open>
  The part of POSIX extended regular expressions that the sources use (\<open>regcomp\<close> with \<open>REG_EXTENDED\<close> in the C
  locale, and \<open>regexec\<close>), and \<open>src/src/utils/cutils/utils_regex.c\<close>.  Patterns stay the strings of the sources: they are
  compiled by the automaton below, one character at a time.  Of the extensions of glibc only the two
  ends of a word (a backslash before a less-than or a greater-than sign) are there, because wildcards can produce them; any
  other escaped character stands for itself.  Named character classes are not used by the sources and not modelled.
\<close>

subsection \<open>Expressions\<close>

datatype ere =
  Eps | AnyChar | Cls bool "(char \<times> char) list" | Bol | Eol | Bow | Eow
| Seq ere ere | Alt ere ere | Rep ere nat "nat option"

abbreviation Lit :: "char \<Rightarrow> ere" where
  "Lit c \<equiv> Cls False [(c, c)]"

definition in_cls :: "bool \<Rightarrow> (char \<times> char) list \<Rightarrow> char \<Rightarrow> bool" where
  "in_cls neg rs c \<longleftrightarrow> (list_ex (\<lambda>(a, b). code a \<le> code c \<and> code c \<le> code b) rs \<noteq> neg)"

subsection \<open>\<open>regcomp\<close>\<close>

text \<open>
  The state of the compiler: a stack of open groups, each with the alternatives that are complete and the items of the
  current one, both in reverse order, and where in the pattern it is: after a backslash, in a bracket (just opened; or with
  its complement flag, whether a first character is due, the ranges so far, a character that may start a range, and whether
  a dash followed it), or in an interval.
\<close>

type_synonym frame = "ere list \<times> ere list"

datatype re_mode = Norm | Esc | Brk0 | Brk bool bool "(char \<times> char) list" "char option" bool | Intv "nat option" bool "nat option"

type_synonym re_state = "(frame list \<times> re_mode) option"

definition RE_DUP_MAX :: nat where "RE_DUP_MAX = 32767"

fun seq_of :: "ere list \<Rightarrow> ere" where
  "seq_of [] = Eps"
| "seq_of [r] = r"
| "seq_of (r # rs) = Seq r (seq_of rs)"

fun alt_of :: "ere list \<Rightarrow> ere" where
  "alt_of [] = Eps"
| "alt_of [r] = r"
| "alt_of (r # rs) = Alt r (alt_of rs)"

definition close_frame :: "frame \<Rightarrow> ere" where
  "close_frame f = alt_of (rev (seq_of (rev (snd f)) # fst f))"

fun push :: "ere \<Rightarrow> frame list \<Rightarrow> re_state" where
  "push r ((alts, cur) # fs) = Some ((alts, r # cur) # fs, Norm)"
| "push r [] = None"

fun repeat_last :: "nat \<Rightarrow> nat option \<Rightarrow> frame list \<Rightarrow> re_state" where
  "repeat_last lo hi ((alts, r # cur) # fs) = Some ((alts, Rep r lo hi # cur) # fs, Norm)"
| "repeat_last lo hi _ = None"

definition brk_step :: "bool \<Rightarrow> bool \<Rightarrow> (char \<times> char) list \<Rightarrow> char option \<Rightarrow> bool \<Rightarrow> char \<Rightarrow> frame list \<Rightarrow> re_state" where
  "brk_step neg first rs prev dash c fs =
     (let single = (case prev of None \<Rightarrow> [] | Some a \<Rightarrow> [(a, a)]) in
      if c = CHR '']'' \<and> \<not> first then push (Cls neg (rs @ single @ (if dash then [(CHR ''-'', CHR ''-'')] else []))) fs
      else if dash then
        (case prev of
           None \<Rightarrow> None
         | Some a \<Rightarrow> if code a \<le> code c then Some (fs, Brk neg False (rs @ [(a, c)]) None False) else None)
      else if c = CHR ''-'' \<and> prev \<noteq> None then Some (fs, Brk neg False rs prev True)
      else Some (fs, Brk neg False (rs @ single) (Some c) False))"

definition add_digit :: "nat option \<Rightarrow> char \<Rightarrow> nat option" where
  "add_digit n c = Some ((case n of None \<Rightarrow> 0 | Some k \<Rightarrow> 10 * k) + (code c - 48))"

definition intv_step :: "nat option \<Rightarrow> bool \<Rightarrow> nat option \<Rightarrow> char \<Rightarrow> frame list \<Rightarrow> re_state" where
  "intv_step lo comma hi c fs =
     (if isdigit c then Some (fs, if comma then Intv lo comma (add_digit hi c) else Intv (add_digit lo c) comma hi)
      else if c = CHR '','' \<and> \<not> comma then Some (fs, Intv lo True hi)
      else if c = CHR ''}'' then
        (case lo of
           None \<Rightarrow> None
         | Some l \<Rightarrow>
             let h = (if comma then hi else lo) in
             if l > RE_DUP_MAX \<or> (case h of None \<Rightarrow> False | Some k \<Rightarrow> k < l \<or> k > RE_DUP_MAX) then None
             else repeat_last l h fs)
      else None)"

definition re_norm_step :: "char \<Rightarrow> frame list \<Rightarrow> re_state" where
  "re_norm_step c fs =
     (if c = CHR 0x5C then Some (fs, Esc)
      else if c = CHR ''['' then Some (fs, Brk0)
      else if c = CHR ''('' then Some (([], []) # fs, Norm)
      else if c = CHR '')'' then (case fs of f # p # r \<Rightarrow> push (close_frame f) (p # r) | _ \<Rightarrow> None)
      else if c = CHR ''|'' then (case fs of (alts, cur) # r \<Rightarrow> Some ((seq_of (rev cur) # alts, []) # r, Norm) | _ \<Rightarrow> None)
      else if c = CHR ''*'' then repeat_last 0 None fs
      else if c = CHR ''+'' then repeat_last 1 None fs
      else if c = CHR ''?'' then repeat_last 0 (Some 1) fs
      else if c = CHR ''{'' then Some (fs, Intv None False None)
      else if c = CHR ''^'' then push Bol fs
      else if c = CHR ''$'' then push Eol fs
      else if c = CHR ''.'' then push AnyChar fs
      else push (Lit c) fs)"

fun re_step :: "char \<Rightarrow> re_state \<Rightarrow> re_state" where
  "re_step c None = None"
| "re_step c (Some (fs, Norm)) = re_norm_step c fs"
| "re_step c (Some (fs, Esc)) = push (if c = CHR ''<'' then Bow else if c = CHR ''>'' then Eow else Lit c) fs"
| "re_step c (Some (fs, Brk0)) = (if c = CHR ''^'' then Some (fs, Brk True True [] None False) else brk_step False True [] None False c fs)"
| "re_step c (Some (fs, Brk neg first rs prev dash)) = brk_step neg first rs prev dash c fs"
| "re_step c (Some (fs, Intv lo comma hi)) = intv_step lo comma hi c fs"

definition regcomp :: "string \<Rightarrow> ere option" where
  "regcomp p = (case fold re_step p (Some ([([], [])], Norm)) of Some ([f], Norm) \<Rightarrow> Some (close_frame f) | _ \<Rightarrow> None)"

subsection \<open>\<open>regexec\<close>\<close>

text \<open>The ends of the matches of an expression that start at a position of a string.\<close>

definition word_char :: "string \<Rightarrow> nat \<Rightarrow> bool" where
  "word_char s i \<longleftrightarrow> i < length s \<and> (let c = s ! i; n = code c in isdigit c \<or> 65 \<le> n \<and> n \<le> 90 \<or> 97 \<le> n \<and> n \<le> 122 \<or> n = 95)"

definition step_all :: "(nat \<Rightarrow> nat list) \<Rightarrow> nat list \<Rightarrow> nat list" where
  "step_all f xs = remdups (concat (map f xs))"

definition grow_all :: "(nat \<Rightarrow> nat list) \<Rightarrow> nat list \<Rightarrow> nat list" where
  "grow_all f xs = remdups (xs @ concat (map f xs))"

fun ends :: "ere \<Rightarrow> string \<Rightarrow> nat \<Rightarrow> nat list" where
  "ends Eps s i = [i]"
| "ends AnyChar s i = (if i < length s then [Suc i] else [])"
| "ends (Cls neg rs) s i = (if i < length s \<and> in_cls neg rs (s ! i) then [Suc i] else [])"
| "ends Bol s i = (if i = 0 then [i] else [])"
| "ends Eol s i = (if i = length s then [i] else [])"
| "ends Bow s i = (if word_char s i \<and> (i = 0 \<or> \<not> word_char s (i - 1)) then [i] else [])"
| "ends Eow s i = (if \<not> word_char s i \<and> i \<noteq> 0 \<and> word_char s (i - 1) then [i] else [])"
| "ends (Seq a b) s i = remdups (concat (map (ends b s) (ends a s i)))"
| "ends (Alt a b) s i = remdups (ends a s i @ ends b s i)"
| "ends (Rep r m n) s i =
     (grow_all (ends r s) ^^ (case n of None \<Rightarrow> length s | Some k \<Rightarrow> k - m)) ((step_all (ends r s) ^^ m) [i])"

definition regexec :: "ere \<Rightarrow> string \<Rightarrow> bool" where
  "regexec r s = list_ex (\<lambda>i. ends r s i \<noteq> []) [0..<Suc (length s)]"

subsection \<open>\<open>utils_regex.c\<close>\<close>

text \<open>0 for a match, 1 for none, -1 for an error.\<close>

definition util_reg_match :: "string option \<Rightarrow> string option \<Rightarrow> int" where
  "util_reg_match patten str =
     (case (patten, str) of
        (Some p, Some s) \<Rightarrow> (case regcomp p of None \<Rightarrow> -1 | Some reg \<Rightarrow> if regexec reg s then 0 else 1)
      | _ \<Rightarrow> -1)"

definition escapes :: "char list" where
  "escapes = [CHR ''$'', CHR ''^'', CHR ''['', CHR '']'', CHR ''('', CHR '')'', CHR ''{'', CHR ''|'', CHR ''+'', CHR 0x5C, CHR ''.'',
     CHR ''<'', CHR ''>'', CHR ''}'']"

fun count_escapes :: "string \<Rightarrow> char list \<Rightarrow> nat \<Rightarrow> nat option" where
  "count_escapes wildcard [] sz = Some sz"
| "count_escapes wildcard (e # es) sz =
     (let tmp = util_strings_count (Some wildcard) e in
      if tmp > SIZE_MAX - sz then None else count_escapes wildcard es (sz + tmp))"

definition get_regex_size_from_wildcard :: "string \<Rightarrow> nat option" where
  "get_regex_size_from_wildcard wildcard =
     (case count_escapes wildcard escapes 0 of
        None \<Rightarrow> None
      | Some sz \<Rightarrow>
          let tmp = util_strings_count (Some wildcard) (CHR ''*'') in
          if tmp > SIZE_MAX - sz - length wildcard - 3 then None
          else Some (1 + sz + length wildcard + tmp + 1 + 1))"

definition wildcard_char :: "char \<Rightarrow> string" where
  "wildcard_char ch =
     (if ch \<in> set escapes then [CHR 0x5C, ch]
      else if ch = CHR ''*'' then ''.*'' else if ch = CHR ''?'' then ''.'' else [ch])"

definition util_wildcard_to_regex :: "bool \<Rightarrow> string option \<Rightarrow> string option" where
  "util_wildcard_to_regex mem wildcard =
     (case wildcard of
        None \<Rightarrow> None
      | Some w \<Rightarrow>
          (case get_regex_size_from_wildcard w of
             None \<Rightarrow> None
           | Some regex_size \<Rightarrow>
               if \<not> util_common_calloc_s mem regex_size then None
               else Some (''^'' @ concat (map wildcard_char w) @ ''$'')))"

end
