(* ===== verification/Regex_Lang.thy ===== *)
theory Regex_Lang
  imports Regex Strings_Props
begin

section \<open>What regular expressions match\<close>

text \<open>
  The language of an expression without anchors, and that \<open>regexec\<close> of a pattern between \<^verbatim>\<open>^\<close> and \<^verbatim>\<open>$\<close> decides it.
  With it, the correctness of the translation of wildcards.
\<close>

fun plain :: "ere \<Rightarrow> bool" where
  "plain (Seq a b) = (plain a \<and> plain b)"
| "plain (Alt a b) = (plain a \<and> plain b)"
| "plain (Rep r m n) = (plain r \<and> (case n of None \<Rightarrow> True | Some h \<Rightarrow> m \<le> h))"
| "plain r = (r \<notin> {Bol, Eol, Bow, Eow})"

definition conc :: "string set \<Rightarrow> string set \<Rightarrow> string set" where
  "conc A B = {x @ y |x y. x \<in> A \<and> y \<in> B}"

primrec lpow :: "string set \<Rightarrow> nat \<Rightarrow> string set" where
  "lpow A 0 = {[]}"
| "lpow A (Suc k) = conc A (lpow A k)"

definition turns_ok :: "nat \<Rightarrow> nat option \<Rightarrow> nat \<Rightarrow> bool" where
  "turns_ok m n k \<longleftrightarrow> m \<le> k \<and> (\<forall>h. n = Some h \<longrightarrow> k \<le> h)"

fun lang :: "ere \<Rightarrow> string set" where
  "lang Eps = {[]}"
| "lang AnyChar = {[c] |c. True}"
| "lang (Cls neg rs) = {[c] |c. in_cls neg rs c}"
| "lang (Seq a b) = conc (lang a) (lang b)"
| "lang (Alt a b) = lang a \<union> lang b"
| "lang (Rep r m n) = (\<Union>k \<in> {k. turns_ok m n k}. lpow (lang r) k)"
| "lang _ = {}"

subsection \<open>Positions of a string\<close>

definition sub_at :: "string \<Rightarrow> nat \<Rightarrow> nat \<Rightarrow> string" where
  "sub_at s i j = take (j - i) (drop i s)"

definition spans :: "string \<Rightarrow> string set \<Rightarrow> (nat \<times> nat) set" where
  "spans s A = {(i, j). i \<le> j \<and> j \<le> length s \<and> sub_at s i j \<in> A}"

lemma sub_at_append:
  assumes "i \<le> j" "j \<le> length s"
  shows "sub_at s i j = x @ y \<longleftrightarrow> i + length x \<le> j \<and> sub_at s i (i + length x) = x \<and> sub_at s (i + length x) j = y"
proof
  assume e: "sub_at s i j = x @ y"
  then have l: "length x + length y = j - i" using assms by (auto simp: sub_at_def dest: arg_cong [of _ _ length])
  have "take (length x) (sub_at s i j) = x" "drop (length x) (sub_at s i j) = y" using e by simp_all
  then show "i + length x \<le> j \<and> sub_at s i (i + length x) = x \<and> sub_at s (i + length x) j = y"
    using l assms by (auto simp: sub_at_def min_def drop_take add.commute)
next
  assume a: "i + length x \<le> j \<and> sub_at s i (i + length x) = x \<and> sub_at s (i + length x) j = y"
  then have "x = take (length x) (drop i s)" "y = take (j - i - length x) (drop (length x) (drop i s))"
    by (simp_all add: sub_at_def add.commute)
  then have "x @ y = take (length x + (j - i - length x)) (drop i s)" using take_add [of "length x" "j - i - length x" "drop i s"] by simp
  then show "sub_at s i j = x @ y" using a by (simp add: sub_at_def)
qed

lemma spans_conc: "spans s (conc A B) = spans s A O spans s B"
proof (intro equalityI subrelI)
  fix i j assume "(i, j) \<in> spans s (conc A B)"
  then obtain x y where "i \<le> j" "j \<le> length s" "sub_at s i j = x @ y" "x \<in> A" "y \<in> B" by (auto simp: spans_def conc_def)
  with sub_at_append [of i j s x y] show "(i, j) \<in> spans s A O spans s B"
    by (intro relcompI [of _ "i + length x"]) (auto simp: spans_def)
next
  fix i j assume "(i, j) \<in> spans s A O spans s B"
  then obtain k where k: "i \<le> k" "k \<le> j" "j \<le> length s" "sub_at s i k \<in> A" "sub_at s k j \<in> B" by (auto simp: spans_def)
  moreover have "length (sub_at s i k) = k - i" using k by (simp add: sub_at_def)
  then have "sub_at s i j = sub_at s i k @ sub_at s k j" using k sub_at_append [of i j s "sub_at s i k" "sub_at s k j"] by simp
  ultimately show "(i, j) \<in> spans s (conc A B)" by (auto simp: spans_def conc_def)
qed

lemma spans_Eps: "i \<le> length s \<Longrightarrow> spans s {[]} `` {i} = {i}"
  by (auto simp: spans_def sub_at_def)

lemma spans_lpow: "i \<le> length s \<Longrightarrow> spans s (lpow A k) `` {i} = (spans s A ^^ k) `` {i}"
proof (induction k arbitrary: i)
  case 0
  then show ?case using spans_Eps by auto
next
  case (Suc k)
  have "spans s (lpow A (Suc k)) `` {i} = (\<Union>j \<in> spans s A `` {i}. spans s (lpow A k) `` {j})" by (auto simp: spans_conc)
  also have "\<dots> = (\<Union>j \<in> spans s A `` {i}. (spans s A ^^ k) `` {j})"
    using Suc.IH by (intro SUP_cong) (auto simp: spans_def)
  also have "\<dots> = (spans s A O spans s A ^^ k) `` {i}" by blast
  finally show ?case by (simp only: relpow.simps(2) relpow_commute)
qed

subsection \<open>The matcher\<close>

lemma step_all_set:
  assumes "\<And>i. i \<le> L \<Longrightarrow> set (f i) = R `` {i}" "set xs \<subseteq> {..L}"
  shows "set (step_all f xs) = R `` set xs" "set (grow_all f xs) = set xs \<union> R `` set xs"
proof -
  have "(\<Union>x \<in> set xs. set (f x)) = (\<Union>x \<in> set xs. R `` {x})" using assms by (intro SUP_cong) auto
  also have "\<dots> = R `` set xs" by blast
  finally show "set (step_all f xs) = R `` set xs" "set (grow_all f xs) = set xs \<union> R `` set xs" by (simp_all add: step_all_def grow_all_def)
qed

lemma step_all_pow:
  assumes "\<And>i. i \<le> L \<Longrightarrow> set (f i) = R `` {i}" "R \<subseteq> {..L} \<times> {..L}" "set xs \<subseteq> {..L}"
  shows "set ((step_all f ^^ m) xs) = (R ^^ m) `` set xs \<and> set ((step_all f ^^ m) xs) \<subseteq> {..L}"
proof (induction m)
  case (Suc m)
  from step_all_set(1) [OF assms(1) Suc [THEN conjunct2]]
  have "set ((step_all f ^^ Suc m) xs) = R `` ((R ^^ m) `` set xs)" using Suc by simp
  then show ?case using assms(2) by (auto simp: Image_def relcomp_unfold)
qed (use assms(3) in simp)

lemma un_between: "A \<subseteq> X \<Longrightarrow> X \<subseteq> U \<Longrightarrow> U = A \<union> B \<Longrightarrow> X \<union> B = U"
  by blast

lemma grow_all_pow:
  assumes "\<And>i. i \<le> L \<Longrightarrow> set (f i) = R `` {i}" "R \<subseteq> {..L} \<times> {..L}" "set xs \<subseteq> {..L}"
  shows "set ((grow_all f ^^ m) xs) = (\<Union>k \<le> m. (R ^^ k) `` set xs) \<and> set ((grow_all f ^^ m) xs) \<subseteq> {..L}"
proof (induction m)
  case (Suc m)
  let ?X = "set ((grow_all f ^^ m) xs)"
  have X: "set ((grow_all f ^^ Suc m) xs) = ?X \<union> R `` ?X"
    using step_all_set(2) [OF assms(1) Suc [THEN conjunct2]] by simp
  also have "\<dots> = (\<Union>k \<le> Suc m. (R ^^ k) `` set xs)"
  proof -
    let ?F = "\<lambda>k. (R ^^ k) `` set xs"
    have 1: "R `` ?X = (\<Union>k \<le> m. ?F (Suc k))" using Suc by (auto simp: Image_def relcomp_unfold)
    have 2: "(\<Union>k \<le> Suc m. ?F k) = ?F 0 \<union> (\<Union>k \<le> m. ?F (Suc k))" unfolding atMost_Suc_eq_insert_0 by (simp del: relpow.simps)
    have 3: "?X = (\<Union>k \<le> m. ?F k)" using Suc by blast
    have "?F 0 \<subseteq> ?X" unfolding 3 by blast
    moreover have "?X \<subseteq> (\<Union>k \<le> Suc m. ?F k)" unfolding 3 by (rule UN_mono) auto
    ultimately show ?thesis unfolding 1 using 2 by (rule un_between)
  qed
  finally have "set ((grow_all f ^^ Suc m) xs) = (\<Union>k \<le> Suc m. (R ^^ k) `` set xs)" .
  moreover have "set ((grow_all f ^^ Suc m) xs) \<subseteq> {..L}" unfolding X using Suc assms(2) by blast
  ultimately show ?case by blast
qed (use assms(3) in simp)

text \<open>A match that moves on at each turn needs no more turns than there are characters.\<close>

lemma short_path:
  assumes "\<And>i j. (i, j) \<in> R \<Longrightarrow> i \<le> j" "(x, y) \<in> R\<^sup>*"
  shows "x \<le> y \<and> (\<exists>n \<le> y - x. (x, y) \<in> R ^^ n)"
  using assms(2)
proof (induction rule: rtrancl_induct)
  case base
  then show ?case by (intro conjI exI [of _ 0]) auto
next
  case (step y z)
  then obtain n where n: "x \<le> y" "n \<le> y - x" "(x, y) \<in> R ^^ n" by blast
  show ?case
  proof (cases "y = z")
    case False
    with assms(1) [OF step.hyps(2)] n have "Suc n \<le> z - x" "x \<le> z" by auto
    moreover have "(x, z) \<in> R ^^ Suc n" using n(3) step.hyps(2) by auto
    ultimately show ?thesis by blast
  qed (use n in auto)
qed

lemma lang_Rep_spans:
  assumes "i \<le> length s"
  shows "spans s (lang (Rep r m n)) `` {i} = (\<Union>k \<in> {k. turns_ok m n k}. (spans s (lang r) ^^ k) `` {i})"
proof -
  have "spans s (lang (Rep r m n)) `` {i} = (\<Union>k \<in> {k. turns_ok m n k}. spans s (lpow (lang r) k) `` {i})" by (auto simp: spans_def)
  then show ?thesis using spans_lpow [OF assms] by simp
qed

lemma sub_at_single:
  assumes "i \<le> length s"
  shows "i \<le> j \<and> j \<le> length s \<and> sub_at s i j = [c] \<longleftrightarrow> i < length s \<and> j = Suc i \<and> c = s ! i"
proof (cases "i < length s")
  case True
  then have d: "drop i s = s ! i # drop (Suc i) s" by (simp add: Cons_nth_drop_Suc)
  show ?thesis
  proof
    assume a: "i \<le> j \<and> j \<le> length s \<and> sub_at s i j = [c]"
    then have "j - i = 1" using assms by (auto simp: sub_at_def dest: arg_cong [of _ _ length])
    then show "i < length s \<and> j = Suc i \<and> c = s ! i" using a d True by (auto simp: sub_at_def)
  next
    assume "i < length s \<and> j = Suc i \<and> c = s ! i"
    then show "i \<le> j \<and> j \<le> length s \<and> sub_at s i j = [c]" using d by (simp add: sub_at_def)
  qed
qed (use assms in \<open>simp add: sub_at_def\<close>)

lemma turns_bounded: "m \<le> h \<Longrightarrow> (\<Union>k \<in> {k. turns_ok m (Some h) k}. F k) = (\<Union>j \<le> h - m. F (m + j))"
proof -
  assume "m \<le> h"
  then have "(\<lambda>j. m + j) ` {..h - m} = {m..h}" by (simp add: atMost_atLeast0)
  moreover have "{k. turns_ok m (Some h) k} = {m..h}" by (auto simp: turns_ok_def)
  ultimately have "{k. turns_ok m (Some h) k} = (\<lambda>j. m + j) ` {..h - m}" by simp
  then show ?thesis by simp
qed

lemma turns_unbounded:
  assumes "R \<subseteq> {..L} \<times> {..L}" "\<And>i j. (i, j) \<in> R \<Longrightarrow> i \<le> j" "(i::nat) \<le> L"
  shows "(\<Union>k \<in> {k. turns_ok m None k}. (R ^^ k) `` {i}) = (\<Union>j \<le> L. (R ^^ (m + j)) `` {i})"
proof -
  have low: "y \<le> L" if "(x, y) \<in> R ^^ k" "x \<le> L" for x y k
  proof (cases k)
    case (Suc n)
    with that(1) have "(x, y) \<in> R ^^ Suc n" by simp
    then obtain v where "(v, y) \<in> R" by (rule relpow_Suc_E)
    then show ?thesis using assms(1) by blast
  qed (use that in simp)
  have "z \<in> (\<Union>j \<le> L. (R ^^ (m + j)) `` {i})" if z: "(i, z) \<in> R ^^ (m + j)" for j z
  proof -
    from z obtain y where y: "(i, y) \<in> R ^^ m" "(y, z) \<in> R ^^ j" by (auto simp: relpow_add)
    from short_path [OF assms(2) relpow_imp_rtrancl [OF y(2)]] obtain k where k: "k \<le> z - y" "(y, z) \<in> R ^^ k" by blast
    have "k \<le> L" using k(1) low [OF z assms(3)] by simp
    moreover have "(i, z) \<in> R ^^ (m + k)" using y(1) k(2) by (auto simp: relpow_add)
    ultimately show ?thesis by blast
  qed
  then have "(\<Union>j. (R ^^ (m + j)) `` {i}) \<subseteq> (\<Union>j \<le> L. (R ^^ (m + j)) `` {i})" by blast
  moreover have "{k. turns_ok m None k} = range (\<lambda>j. m + j)" by (auto simp: turns_ok_def le_iff_add)
  then have "(\<Union>k \<in> {k. turns_ok m None k}. (R ^^ k) `` {i}) = (\<Union>j. (R ^^ (m + j)) `` {i})" by (simp del: relpow.simps)
  moreover have "(\<Union>j \<le> L. (R ^^ (m + j)) `` {i}) \<subseteq> (\<Union>j. (R ^^ (m + j)) `` {i})" by (rule UN_mono) simp_all
  ultimately show ?thesis by simp
qed

lemma ends_lang: "plain r \<Longrightarrow> i \<le> length s \<Longrightarrow> set (ends r s i) = spans s (lang r) `` {i}"
proof (induction r arbitrary: i)
  case Eps
  then show ?case using spans_Eps by simp
next
  case AnyChar
  have "spans s (lang AnyChar) `` {i} = {j. \<exists>c. i \<le> j \<and> j \<le> length s \<and> sub_at s i j = [c]}" by (auto simp: spans_def)
  then show ?case using sub_at_single [OF AnyChar(2)] by auto
next
  case (Cls neg rs)
  have "spans s (lang (Cls neg rs)) `` {i} = {j. \<exists>c. (i \<le> j \<and> j \<le> length s \<and> sub_at s i j = [c]) \<and> in_cls neg rs c}"
    by (auto simp: spans_def)
  then show ?case using sub_at_single [OF Cls(2)] by auto
next
  case (Seq a b)
  then have "set (ends (Seq a b) s i) = (\<Union>j \<in> spans s (lang a) `` {i}. set (ends b s j))" by auto
  also have "\<dots> = (\<Union>j \<in> spans s (lang a) `` {i}. spans s (lang b) `` {j})" using Seq by (intro SUP_cong) (auto simp: spans_def)
  also have "\<dots> = spans s (lang (Seq a b)) `` {i}" by (auto simp: spans_conc)
  finally show ?case .
next
  case (Alt a b)
  then show ?case by (auto simp: spans_def)
next
  case (Rep r m n)
  let ?R = "spans s (lang r)" and ?f = "ends r s"
  have f: "\<And>i. i \<le> length s \<Longrightarrow> set (?f i) = ?R `` {i}" using Rep.IH Rep.prems(1) by simp
  have R: "?R \<subseteq> {..length s} \<times> {..length s}" and mono: "\<And>i j. (i, j) \<in> ?R \<Longrightarrow> i \<le> j" by (auto simp: spans_def)
  let ?xs = "(step_all ?f ^^ m) [i]"
  have xs: "set ?xs = (?R ^^ m) `` {i}" "set ?xs \<subseteq> {..length s}" using step_all_pow [OF f R, of "[i]" m] Rep.prems(2) by auto
  have g: "set ((grow_all ?f ^^ k) ?xs) = (\<Union>j \<le> k. (?R ^^ (m + j)) `` {i})" for k
    using grow_all_pow [OF f R xs(2), of k] xs(1) by (simp add: relpow_add relcomp_Image)
  show ?case
  proof (cases n)
    case (Some h)
    then have m: "m \<le> h" using Rep.prems(1) by simp
    have "(\<Union>k \<in> {k. turns_ok m n k}. (?R ^^ k) `` {i}) = (\<Union>j \<le> h - m. (?R ^^ (m + j)) `` {i})"
      unfolding Some using m by (rule turns_bounded)
    then show ?thesis using g [of "h - m"] lang_Rep_spans [OF Rep.prems(2), of r m n] Some by simp
  next
    case None
    have "(\<Union>k \<in> {k. turns_ok m n k}. (?R ^^ k) `` {i}) = (\<Union>j \<le> length s. (?R ^^ (m + j)) `` {i})"
      unfolding None using R mono Rep.prems(2) by (rule turns_unbounded)
    then show ?thesis using g [of "length s"] lang_Rep_spans [OF Rep.prems(2), of r m n] None by simp
  qed
qed simp_all

subsection \<open>Patterns between anchors\<close>

fun strip_eol :: "ere \<Rightarrow> ere option" where
  "strip_eol (Seq a Eol) = Some a"
| "strip_eol (Seq a b) = map_option (Seq a) (strip_eol b)"
| "strip_eol Eol = Some Eps"
| "strip_eol _ = None"

lemma ends_to_eol:
  assumes "plain r" "i \<le> length s"
  shows "(\<exists>j \<in> set (ends r s i). j = length s) \<longleftrightarrow> drop i s \<in> lang r"
  using ends_lang [OF assms] assms(2) by (auto simp: spans_def sub_at_def)

lemma drop_conc:
  assumes "i \<le> length s"
  shows "drop i s \<in> conc A B \<longleftrightarrow> (\<exists>j \<in> spans s A `` {i}. drop j s \<in> B)"
proof -
  have e: "drop i s \<in> C \<longleftrightarrow> length s \<in> spans s C `` {i}" if "i \<le> length s" for C i using that by (auto simp: spans_def sub_at_def)
  show ?thesis using e [OF assms, of "conc A B"] e [of _ B] unfolding spans_conc by (auto simp: spans_def)
qed

lemma ends_strip_eol:
  "strip_eol r = Some r' \<Longrightarrow> plain r' \<Longrightarrow> i \<le> length s \<Longrightarrow> ends r s i \<noteq> [] \<longleftrightarrow> drop i s \<in> lang r'"
proof (induction r arbitrary: r' i)
  case (Seq a b)
  show ?case
  proof (cases "b = Eol")
    case True
    have "ends (Seq a Eol) s i \<noteq> [] \<longleftrightarrow> (\<exists>j \<in> set (ends a s i). j = length s)" by (auto simp: filter_empty_conv)
    then show ?thesis using ends_to_eol [of a i s] Seq.prems True by simp
  next
    case False
    with Seq.prems(1) obtain q where q: "strip_eol b = Some q" "r' = Seq a q" by (cases b) auto
    have "ends (Seq a b) s i \<noteq> [] \<longleftrightarrow> (\<exists>j \<in> set (ends a s i). ends b s j \<noteq> [])" by auto
    also have "\<dots> \<longleftrightarrow> (\<exists>j \<in> spans s (lang a) `` {i}. drop j s \<in> lang q)"
    proof -
      have "ends b s j \<noteq> [] \<longleftrightarrow> drop j s \<in> lang q" if "j \<in> spans s (lang a) `` {i}" for j
        using that Seq.IH(2) [OF q(1), of j] Seq.prems(2) q(2) by (auto simp: spans_def)
      then show ?thesis using ends_lang [of a i s] Seq.prems(2,3) q(2) by auto
    qed
    finally show ?thesis using drop_conc [OF Seq.prems(3)] q(2) by simp
  qed
qed auto

text \<open>A pattern between anchors matches the strings of its language, and no part of a longer string.\<close>

lemma reg_match_anchored:
  assumes "regcomp p = Some (Seq Bol r)" "strip_eol r = Some r'" "plain r'"
  shows "util_reg_match (Some p) (Some s) = (if s \<in> lang r' then 0 else 1)"
proof -
  have "regexec (Seq Bol r) s \<longleftrightarrow> ends r s 0 \<noteq> []"
    by (auto simp: regexec_def list_ex_iff split: if_splits intro!: bexI [of _ 0])
  then show ?thesis using ends_strip_eol [OF assms(2,3), of 0 s] assms(1) by (simp add: util_reg_match_def)
qed

subsection \<open>Wildcards\<close>

text \<open>What a wildcard stands for: a star for any string, a question mark for any character.\<close>

fun glob :: "string \<Rightarrow> string \<Rightarrow> bool" where
  "glob [] s = (s = [])"
| "glob (c # w) [] = (c = CHR ''*'' \<and> glob w [])"
| "glob (c # w) (x # s) =
     (if c = CHR ''*'' then glob w (x # s) \<or> glob (c # w) s else (c = CHR ''?'' \<or> c = x) \<and> glob w s)"

definition wildcard_item :: "char \<Rightarrow> ere" where
  "wildcard_item c =
     (if c = CHR ''*'' then Rep AnyChar 0 None else if c = CHR ''?'' then AnyChar
      else if c = CHR ''<'' then Bow else if c = CHR ''>'' then Eow else Lit c)"

lemma comp_wildcard_char:
  "fold re_step (wildcard_char c) (Some ([(alts, cur)], Norm)) = Some ([(alts, wildcard_item c # cur)], Norm)"
  by (auto simp: wildcard_char_def wildcard_item_def escapes_def re_norm_step_def)

lemma comp_wildcard:
  "fold re_step (concat (map wildcard_char w)) (Some ([(alts, cur)], Norm)) = Some ([(alts, rev (map wildcard_item w) @ cur)], Norm)"
  by (induction w arbitrary: cur) (simp_all add: comp_wildcard_char)

lemma seq_of_Cons: "rs \<noteq> [] \<Longrightarrow> seq_of (r # rs) = Seq r (seq_of rs)"
  by (cases rs) auto

lemma regcomp_wildcard:
  "regcomp (''^'' @ concat (map wildcard_char w) @ ''$'') = Some (Seq Bol (seq_of (map wildcard_item w @ [Eol])))"
  using comp_wildcard [of w "[]" "[Bol]"] seq_of_Cons [of "map wildcard_item w @ [Eol]" Bol]
  by (simp add: regcomp_def re_norm_step_def close_frame_def)

lemma strip_eol_seq_of: "strip_eol (seq_of (rs @ [Eol])) = Some (seq_of rs)"
proof (induction rs rule: seq_of.induct)
  case (3 r r' rs)
  then show ?case using seq_of_Cons [of "rs @ [Eol]" r'] by (cases "seq_of (r' # rs @ [Eol])") simp_all
qed simp_all

lemma lang_seq_of_Cons: "lang (seq_of (r # rs)) = conc (lang r) (lang (seq_of rs))"
  by (cases rs) (auto simp: conc_def)

lemma plain_seq_of: "plain (seq_of rs) \<longleftrightarrow> list_all plain rs"
  by (induction rs rule: seq_of.induct) simp_all

lemma conc_AnyChar: "conc (lang AnyChar) B = {c # y |c y. y \<in> B}"
proof (intro set_eqI iffI)
  fix s assume "s \<in> {c # y |c y. y \<in> B}"
  then obtain c y where "s = [c] @ y" "y \<in> B" by auto
  then show "s \<in> conc (lang AnyChar) B" unfolding conc_def lang.simps by blast
qed (auto simp: conc_def)

lemma lpow_AnyChar: "lpow (lang AnyChar) k = {s. length s = k}"
  by (induction k) (auto simp: conc_AnyChar length_Suc_conv simp del: lang.simps(2))

lemma glob_star: "glob (CHR ''*'' # w) s \<longleftrightarrow> (\<exists>x y. s = x @ y \<and> glob w y)"
proof (induction s)
  case (Cons a s)
  show ?case
  proof
    assume "glob (CHR ''*'' # w) (a # s)"
    then consider "glob w (a # s)" | "\<exists>x y. s = x @ y \<and> glob w y" using Cons by auto
    then show "\<exists>x y. a # s = x @ y \<and> glob w y"
    proof cases
      case 1
      then show ?thesis by (intro exI [of _ "[]"] exI [of _ "a # s"]) simp
    next
      case 2
      then obtain x y where "s = x @ y" "glob w y" by blast
      then show ?thesis by (intro exI [of _ "a # x"] exI [of _ y]) simp
    qed
  next
    assume "\<exists>x y. a # s = x @ y \<and> glob w y"
    then show "glob (CHR ''*'' # w) (a # s)" using Cons by (auto simp: Cons_eq_append_conv)
  qed
qed simp

lemma lang_star: "lang (Rep AnyChar 0 None) = UNIV"
  unfolding lang.simps(6) lpow_AnyChar turns_ok_def by auto

lemma lang_wildcard_item:
  "c \<noteq> CHR ''*'' \<Longrightarrow> c \<noteq> CHR ''<'' \<Longrightarrow> c \<noteq> CHR ''>'' \<Longrightarrow> lang (wildcard_item c) = {[x] |x. c = CHR ''?'' \<or> c = x}"
  by (simp add: wildcard_item_def in_cls_def order_antisym_conv)

lemma glob_char: "c \<noteq> CHR ''*'' \<Longrightarrow> glob (c # w) s \<longleftrightarrow> (\<exists>x y. s = [x] @ y \<and> (c = CHR ''?'' \<or> c = x) \<and> glob w y)"
  by (cases s) simp_all

lemma lang_wildcard:
  "CHR ''<'' \<notin> set w \<Longrightarrow> CHR ''>'' \<notin> set w \<Longrightarrow> s \<in> lang (seq_of (map wildcard_item w)) \<longleftrightarrow> glob w s"
proof (induction w arbitrary: s)
  case (Cons c w)
  have IH: "\<And>s. s \<in> lang (seq_of (map wildcard_item w)) \<longleftrightarrow> glob w s" using Cons by simp
  have "s \<in> lang (seq_of (map wildcard_item (c # w))) \<longleftrightarrow> (\<exists>x y. s = x @ y \<and> x \<in> lang (wildcard_item c) \<and> glob w y)"
    unfolding list.map lang_seq_of_Cons conc_def using IH by blast
  also have "\<dots> \<longleftrightarrow> glob (c # w) s"
  proof (cases "c = CHR ''*''")
    case True
    then have "lang (wildcard_item c) = UNIV" unfolding wildcard_item_def using lang_star by (simp del: lang.simps)
    with True glob_star show ?thesis by simp
  next
    case False
    with Cons.prems have "lang (wildcard_item c) = {[x] |x. c = CHR ''?'' \<or> c = x}" by (intro lang_wildcard_item) auto
    then show ?thesis unfolding glob_char [OF False] by blast
  qed
  finally show ?case .
qed simp

text \<open>The buffer of the pattern has room for it.\<close>

lemma strings_count_eq: "code c < 128 \<Longrightarrow> util_strings_count (Some w) c = count_list w c"
proof -
  assume c: "code c < 128"
  have "foldl (\<lambda>res a. if uchar_eq a c then Suc res else res) n w = n + count_list w c" for n
    by (induction w arbitrary: n) (simp_all add: uchar_eq_iff c)
  then show ?thesis by (simp add: util_strings_count_def)
qed

lemma count_escapes_eq:
  "list_all (\<lambda>c. code c < 128) es \<Longrightarrow> sz + sum_list (map (count_list w) es) \<le> SIZE_MAX \<Longrightarrow>
   count_escapes w es sz = Some (sz + sum_list (map (count_list w) es))"
  by (induction es arbitrary: sz) (simp_all add: strings_count_eq add.assoc Let_def not_less)

lemma sum_count: "distinct es \<Longrightarrow> sum_list (map (count_list w) es) = length (filter (\<lambda>c. c \<in> set es) w)"
proof (induction w)
  case Nil
  show ?case by (induction es) simp_all
next
  case (Cons a w)
  have "sum_list (map (count_list (a # w)) es) = sum_list (map (count_list w) es) + (if a \<in> set es then 1 else 0)"
    using Cons.prems by (induction es) auto
  then show ?case using Cons.IH Cons.prems by (simp del: count_list.simps)
qed

lemma length_wildcard_char:
  "length (concat (map wildcard_char w)) = length w + length (filter (\<lambda>c. c \<in> set escapes) w) + count_list w (CHR ''*'')"
  by (induction w) (simp_all add: wildcard_char_def, simp_all add: escapes_def)

lemma regex_size_eq:
  assumes "3 * length w + 3 \<le> SIZE_MAX"
  shows "get_regex_size_from_wildcard w = Some (Suc (length (''^'' @ concat (map wildcard_char w) @ ''$'')))"
proof -
  have e: "list_all (\<lambda>c. code c < 128) escapes" "distinct escapes" "code (CHR ''*'') < 128" by (simp_all add: escapes_def code_def)
  let ?n = "length (filter (\<lambda>c. c \<in> set escapes) w)"
  have l: "?n \<le> length w" "count_list w (CHR ''*'') \<le> length w" by (rule length_filter_le) (rule count_le_length)
  have "count_escapes w escapes 0 = Some ?n" using count_escapes_eq [OF e(1), of 0 w] sum_count [OF e(2), of w] l(1) assms by simp
  moreover have "\<not> count_list w (CHR ''*'') > SIZE_MAX - ?n - length w - 3" using l assms by linarith
  ultimately show ?thesis using strings_count_eq [OF e(3), of w] length_wildcard_char [of w] by (simp add: get_regex_size_from_wildcard_def)
qed



subsection \<open>Character classes\<close>

lemma conc_Cls: "conc (lang (Cls neg rs)) B = {c # y |c y. in_cls neg rs c \<and> y \<in> B}"
proof (intro set_eqI iffI)
  fix s assume "s \<in> {c # y |c y. in_cls neg rs c \<and> y \<in> B}"
  then obtain c y where "s = [c] @ y" "in_cls neg rs c" "y \<in> B" by auto
  then show "s \<in> conc (lang (Cls neg rs)) B" unfolding conc_def lang.simps by blast
qed (auto simp: conc_def)

lemma lpow_Cls: "lpow (lang (Cls neg rs)) k = {s. length s = k \<and> list_all (in_cls neg rs) s}"
proof (induction k)
  case (Suc k)
  have "lpow (lang (Cls neg rs)) (Suc k) = {c # y |c y. in_cls neg rs c \<and> length y = k \<and> list_all (in_cls neg rs) y}"
    unfolding lpow.simps Suc.IH conc_Cls by simp
  also have "\<dots> = {s. length s = Suc k \<and> list_all (in_cls neg rs) s}" by (auto simp: length_Suc_conv)
  finally show ?case .
qed auto

lemma lang_Rep_Cls: "lang (Rep (Cls neg rs) m n) = {s. turns_ok m n (length s) \<and> list_all (in_cls neg rs) s}"
  unfolding lang.simps(6) lpow_Cls by auto

lemmas regcomp_simps = regcomp_def re_norm_step_def brk_step_def intv_step_def close_frame_def code_def isdigit_def add_digit_def RE_DUP_MAX_def

end
