(* ===== verification/Local_Volume.thy ===== *)
theory Local_Volume
  imports Errors Disk Path_Resolve Regex_Lang Map_Store "HOL-Library.Monad_Syntax"
begin

section \<open>The local volume driver\<close>

text \<open>
  src/src/daemon/modules/volume/local.c.  The world the driver works in is its global \<open>g_volumes\<close>, the
  tree of files, the daemon's error message, and a count of the allocations made so far: \<open>vmem\<close> says of
  each whether it succeeds.  The mutex of \<open>g_volumes\<close> is a flag.  An operation is None where the C code
  follows the NULL pointer \<open>g_volumes\<close> or waits for a mutex that nobody will release.
\<close>

record volume =
  v_driver :: "string option"
  v_name :: string
  v_path :: string
  v_mount_point :: "string option"

record volumes_info =
  root_dir :: string
  mutex :: bool
  vols_by_name :: "volume smap"

record vworld =
  g_volumes :: "volumes_info option"
  files :: fnode
  verrmsg :: "string option"
  ticks :: nat

record vol_env =
  vmem :: alloc
  vdisk :: disk_env
  vcwd :: string
  is_lnk :: "string \<Rightarrow> bool"
  rdlink :: "string \<Rightarrow> string option"
  symlink_mem :: alloc
  rm_mem :: bool
  strerror :: string

definition LOCAL_VOLUME_DRIVER_NAME :: string where "LOCAL_VOLUME_DRIVER_NAME = ''local''"
definition LOCAL_VOLUME_ROOT_DIR_NAME :: string where "LOCAL_VOLUME_ROOT_DIR_NAME = ''volumes''"
definition LOCAL_VOLUME_DATA_DIR_NAME :: string where "LOCAL_VOLUME_DATA_DIR_NAME = ''_data''"
definition VOLUME_ERR_NOT_EXIST :: int where "VOLUME_ERR_NOT_EXIST = -2"

text \<open>One allocation of \<open>n\<close> bytes.\<close>

definition vcalloc :: "vol_env \<Rightarrow> nat \<Rightarrow> vworld \<Rightarrow> bool \<times> vworld" where
  "vcalloc env n w = (util_common_calloc_s (vmem env (ticks w)) n, w\<lparr>ticks := Suc (ticks w)\<rparr>)"

definition try_errmsg :: "string \<Rightarrow> vworld \<Rightarrow> vworld" where
  "try_errmsg m w = w\<lparr>verrmsg := isulad_try_set_error_message m (verrmsg w)\<rparr>"

definition mutex_lock :: "vworld \<Rightarrow> vworld option" where
  "mutex_lock w =
     (case g_volumes w of
        None \<Rightarrow> None
      | Some g \<Rightarrow> if mutex g then None else Some (w\<lparr>g_volumes := Some (g\<lparr>mutex := True\<rparr>)\<rparr>))"

definition mutex_unlock :: "vworld \<Rightarrow> vworld" where
  "mutex_unlock w = w\<lparr>g_volumes := map_option (\<lambda>g. g\<lparr>mutex := False\<rparr>) (g_volumes w)\<rparr>"

definition set_vols :: "volume smap \<Rightarrow> vworld \<Rightarrow> vworld" where
  "set_vols m w = w\<lparr>g_volumes := map_option (\<lambda>g. g\<lparr>vols_by_name := m\<rparr>) (g_volumes w)\<rparr>"

text \<open>\<open>map_insert\<close> on \<open>vols_by_name\<close>.\<close>

definition insert_vol :: "vol_env \<Rightarrow> string \<Rightarrow> volume \<Rightarrow> vworld \<Rightarrow> (bool \<times> vworld) option" where
  "insert_vol env nm v w = do {
     g \<leftarrow> g_volumes w;
     let (ok, w) = vcalloc env 48 w;
     let (b, m) = smap_insert ok nm v (vols_by_name g);
     Some (b, set_vols m w)
   }"

subsection \<open>Names\<close>

text \<open>src/src/utils/cutils/utils\_verify.c: a name is a letter or a digit and up to 63 more characters, at least one.\<close>

definition volume_name_pattern :: string where
  "volume_name_pattern = ''^[a-zA-Z0-9][a-zA-Z0-9_.-]{1,63}$''"

definition util_valid_volume_name :: "string \<Rightarrow> bool" where
  "util_valid_volume_name nm \<longleftrightarrow> util_reg_match (Some volume_name_pattern) (Some nm) = 0"

definition isalnum :: "char \<Rightarrow> bool" where
  "isalnum c \<longleftrightarrow> 97 \<le> code c \<and> code c \<le> 122 \<or> 65 \<le> code c \<and> code c \<le> 90 \<or> 48 \<le> code c \<and> code c \<le> 57"

lemma regcomp_volume_name:
  "regcomp volume_name_pattern = Some (Seq Bol (Seq (Cls False [(CHR ''a'', CHR ''z''), (CHR ''A'', CHR ''Z''), (CHR ''0'', CHR ''9'')])
     (Seq (Rep (Cls False [(CHR ''a'', CHR ''z''), (CHR ''A'', CHR ''Z''), (CHR ''0'', CHR ''9''), (CHR ''_'', CHR ''_''), (CHR ''.'', CHR ''.''),
        (CHR ''-'', CHR ''-'')]) 1 (Some 63)) Eol)))"
  by (simp add: volume_name_pattern_def regcomp_simps)

lemma valid_volume_name_iff:
  "util_valid_volume_name nm \<longleftrightarrow>
     2 \<le> length nm \<and> length nm \<le> 64 \<and> isalnum (hd nm) \<and>
     list_all (\<lambda>c. isalnum c \<or> c = CHR ''_'' \<or> c = CHR ''.'' \<or> c = CHR ''-'') (tl nm)"
proof -
  have a: "in_cls False [(CHR ''a'', CHR ''z''), (CHR ''A'', CHR ''Z''), (CHR ''0'', CHR ''9'')] c = isalnum c" for c
    by (simp add: in_cls_def isalnum_def) (simp add: code_def)
  have s: "code x \<le> code c \<and> code c \<le> code x \<longleftrightarrow> c = x" for x c by (metis code_inject order_antisym order_refl)
  have b: "in_cls False [(CHR ''a'', CHR ''z''), (CHR ''A'', CHR ''Z''), (CHR ''0'', CHR ''9''), (CHR ''_'', CHR ''_''), (CHR ''.'', CHR ''.''),
      (CHR ''-'', CHR ''-'')] = (\<lambda>c. isalnum c \<or> c = CHR ''_'' \<or> c = CHR ''.'' \<or> c = CHR ''-'')"
    using a s by (auto simp: in_cls_def fun_eq_iff)
  have "util_reg_match (Some volume_name_pattern) (Some nm) =
      (if nm \<in> lang (Seq (Cls False [(CHR ''a'', CHR ''z''), (CHR ''A'', CHR ''Z''), (CHR ''0'', CHR ''9'')])
         (Rep (Cls False [(CHR ''a'', CHR ''z''), (CHR ''A'', CHR ''Z''), (CHR ''0'', CHR ''9''), (CHR ''_'', CHR ''_''), (CHR ''.'', CHR ''.''),
            (CHR ''-'', CHR ''-'')]) 1 (Some 63))) then 0 else 1)"
    by (rule reg_match_anchored [OF regcomp_volume_name]) simp_all
  then show ?thesis
    unfolding util_valid_volume_name_def lang.simps(4) conc_Cls lang_Rep_Cls a b turns_ok_def by (cases nm) auto
qed

subsection \<open>Volumes\<close>

definition dup_volume :: "vol_env \<Rightarrow> string \<Rightarrow> string \<Rightarrow> vworld \<Rightarrow> volume option \<times> vworld" where
  "dup_volume env nm path w =
     (let (ok, w) = vcalloc env 32 w in
      (if ok then Some \<lparr>v_driver = Some LOCAL_VOLUME_DRIVER_NAME, v_name = nm, v_path = path, v_mount_point = Some path\<rparr> else None, w))"

definition local_volume_get :: "vol_env \<Rightarrow> string \<Rightarrow> vworld \<Rightarrow> (volume option \<times> vworld) option" where
  "local_volume_get env nm w =
     (if \<not> util_valid_volume_name nm then Some (None, try_errmsg (''failed to get volume, invalid volume name '' @ nm) w)
      else do {
        w \<leftarrow> mutex_lock w;
        g \<leftarrow> g_volumes w;
        case smap_find nm (vols_by_name g) of
          None \<Rightarrow> Some (None, mutex_unlock w)
        | Some v \<Rightarrow> let (r, w) = dup_volume env (v_name v) (v_path v) w in Some (r, mutex_unlock w)
      })"

subsection \<open>Loading the volumes at start\<close>

definition new_empty_volumes_info :: "vol_env \<Rightarrow> vworld \<Rightarrow> volumes_info option \<times> vworld" where
  "new_empty_volumes_info env w =
     (let (ok, w) = vcalloc env 64 w in
      if \<not> ok then (None, w)
      else
        let (mok, w) = vcalloc env 16 w in
        (if \<not> mok then None else Some \<lparr>root_dir = [], mutex = False, vols_by_name = []\<rparr>, w))"

definition init_volume_root_dir :: "vol_env \<Rightarrow> string \<Rightarrow> vworld \<Rightarrow> int \<times> vworld" where
  "init_volume_root_dir env dir w =
     (let (ret, t) = util_mkdir_p (vdisk env) (vcwd env) (Some dir) (files w);
          w = w\<lparr>files := t\<rparr>
      in if ret \<noteq> 0 then (ret, w)
         else (ret, w\<lparr>g_volumes := map_option (\<lambda>g. g\<lparr>root_dir := dir\<rparr>) (g_volumes w)\<rparr>))"

definition build_and_valid_data_dir :: "vol_env \<Rightarrow> string \<Rightarrow> string \<Rightarrow> vworld \<Rightarrow> string option" where
  "build_and_valid_data_dir env rdir nm w =
     (if \<not> util_valid_volume_name nm then None
      else do {
        vol_dir \<leftarrow> util_path_join (Some (vcwd env)) (Some rdir) (Some nm);
        _ \<leftarrow> util_follow_symlink_in_scope (is_lnk env) (rdlink env) (symlink_mem env) (Some (vcwd env)) (Some vol_dir) (Some rdir);
        data_dir \<leftarrow> util_path_join (Some (vcwd env)) (Some vol_dir) (Some LOCAL_VOLUME_DATA_DIR_NAME);
        tmp_dir \<leftarrow> util_follow_symlink_in_scope (is_lnk env) (rdlink env) (symlink_mem env) (Some (vcwd env)) (Some data_dir) (Some vol_dir);
        if lstat_ok (vdisk env) tmp_dir \<and> walk (at_path (vcwd env) tmp_dir) (files w) \<noteq> None then Some data_dir else None
      })"

definition load_volume :: "vol_env \<Rightarrow> string \<Rightarrow> string \<Rightarrow> vworld \<Rightarrow> (bool \<times> vworld) option" where
  "load_volume env rdir d_name w =
     (case build_and_valid_data_dir env rdir d_name w of
        None \<Rightarrow> Some (True, w)
      | Some data_dir \<Rightarrow> do {
          w \<leftarrow> mutex_lock w;
          let (vol, w) = dup_volume env d_name data_dir w;
          case vol of
            None \<Rightarrow> Some (True, mutex_unlock w)
          | Some v \<Rightarrow> do { (_, w) \<leftarrow> insert_vol env d_name v w; Some (True, mutex_unlock w) }
        })"

text \<open>src/src/utils/cutils/utils\_file.c: \<open>scan_loop\<close> is the loop over the entries.\<close>

fun scan_loop :: "(string \<Rightarrow> 'w \<Rightarrow> (bool \<times> 'w) option) \<Rightarrow> string list \<Rightarrow> 'w \<Rightarrow> (int \<times> 'w) option" where
  "scan_loop cb [] w = Some (0, w)"
| "scan_loop cb (nm # nms) w =
     (if nm = ''.'' \<or> nm = ''..'' then scan_loop cb nms w
      else do { (ok, w) \<leftarrow> cb nm w; if ok then scan_loop cb nms w else Some (-1, w) })"

definition util_scan_subdirs ::
    "disk_env \<Rightarrow> string \<Rightarrow> string \<Rightarrow> (string \<Rightarrow> string \<Rightarrow> 'w \<Rightarrow> (bool \<times> 'w) option) \<Rightarrow> fnode \<Rightarrow> 'w \<Rightarrow> (int \<times> 'w) option" where
  "util_scan_subdirs env cwd directory cb rdir w =
     (case read_dir env cwd directory rdir of
        None \<Rightarrow> Some (-1, w)
      | Some nms \<Rightarrow> scan_loop (cb directory) nms w)"

definition load_volumes :: "vol_env \<Rightarrow> vworld \<Rightarrow> (int \<times> vworld) option" where
  "load_volumes env w = do {
     g \<leftarrow> g_volumes w;
     util_scan_subdirs (vdisk env) (vcwd env) (root_dir g) (load_volume env) (files w) w
   }"

text \<open>\<open>local_volume_init\<close>: \<open>mutex_init\<close> is the result of \<open>pthread_mutex_init\<close>.\<close>

definition local_volume_init :: "vol_env \<Rightarrow> int \<Rightarrow> string option \<Rightarrow> vworld \<Rightarrow> (int \<times> vworld) option" where
  "local_volume_init env mutex_init scope w =
     (case scope of
        None \<Rightarrow> Some (-1, w)
      | Some dir \<Rightarrow>
          let (g, w) = new_empty_volumes_info env w; w = w\<lparr>g_volumes := g\<rparr> in
          if g = None then Some (-1, w)
          else if mutex_init \<noteq> 0 then Some (-1, w\<lparr>g_volumes := None\<rparr>)
          else
            let (ret, w) = init_volume_root_dir env dir w in
            if ret \<noteq> 0 then Some (ret, w\<lparr>g_volumes := None\<rparr>)
            else do {
              (ret, w) \<leftarrow> load_volumes env w;
              Some (ret, if ret \<noteq> 0 then w\<lparr>g_volumes := None\<rparr> else w)
            })"

subsection \<open>Creating\<close>

definition create_volume_meminfo :: "vol_env \<Rightarrow> string \<Rightarrow> vworld \<Rightarrow> ((int \<times> volume option) \<times> vworld) option" where
  "create_volume_meminfo env nm w =
     (let (ok, w) = vcalloc env 32 w in
      if \<not> ok then Some ((-1, None), w)
      else do {
        g \<leftarrow> g_volumes w;
        let path = root_dir g @ ''/'' @ nm @ ''/'' @ LOCAL_VOLUME_DATA_DIR_NAME;
        if length path \<ge> PATH_MAX then Some ((-1, None), w)
        else Some ((0, Some \<lparr>v_driver = None, v_name = nm, v_path = path, v_mount_point = None\<rparr>), w)
      })"

text \<open>\<open>util_recursive_rmdir\<close> at a path of the tree of files: whether it failed, and the tree.\<close>

definition rmdir_at :: "vol_env \<Rightarrow> string \<Rightarrow> vworld \<Rightarrow> bool \<times> vworld" where
  "rmdir_at env p w =
     (let cs = at_path (vcwd env) p;
          (failed, n) = util_recursive_rmdir (rm_mem env) (vdisk env) p 0 (walk cs (files w))
      in (failed, w\<lparr>files := put cs n (files w)\<rparr>))"

text \<open>The result of a failed \<open>map_insert\<close> is not returned: \<open>ret\<close> is still 0 then.\<close>

definition volume_create_nolock :: "vol_env \<Rightarrow> string \<Rightarrow> vworld \<Rightarrow> (volume option \<times> vworld) option" where
  "volume_create_nolock env nm w = do {
     g \<leftarrow> g_volumes w;
     case smap_find nm (vols_by_name g) of
       Some v \<Rightarrow> Some (Some v, w)
     | None \<Rightarrow> do {
         ((ret, vol), w) \<leftarrow> create_volume_meminfo env nm w;
         case vol of
           None \<Rightarrow> Some (None, w)
         | Some v \<Rightarrow>
             let (ret, t) = util_mkdir_p (vdisk env) (vcwd env) (Some (v_path v)) (files w);
                 w = w\<lparr>files := t\<rparr>
             in if ret \<noteq> 0 then Some (None, snd (rmdir_at env (v_path v) w))
                else do { (_, w) \<leftarrow> insert_vol env nm v w; Some (Some v, w) }
       }
   }"

definition local_volume_create :: "vol_env \<Rightarrow> string \<Rightarrow> vworld \<Rightarrow> (volume option \<times> vworld) option" where
  "local_volume_create env nm w =
     (if \<not> util_valid_volume_name nm then Some (None, try_errmsg (''failed to create volume, invalid volume name '' @ nm) w)
      else do {
        w \<leftarrow> mutex_lock w;
        (v, w) \<leftarrow> volume_create_nolock env nm w;
        case v of
          None \<Rightarrow> Some (None, mutex_unlock w)
        | Some v \<Rightarrow> let (r, w) = dup_volume env (v_name v) (v_path v) w in Some (r, mutex_unlock w)
      })"

definition local_volume_mount :: "string \<Rightarrow> vworld \<Rightarrow> (int \<times> vworld) option" where
  "local_volume_mount nm w = Some (0, w)"

definition local_volume_umount :: "string \<Rightarrow> vworld \<Rightarrow> (int \<times> vworld) option" where
  "local_volume_umount nm w = Some (0, w)"

subsection \<open>Listing\<close>

definition new_empty_volumes :: "vol_env \<Rightarrow> nat \<Rightarrow> vworld \<Rightarrow> bool \<times> vworld" where
  "new_empty_volumes env sz w =
     (let (ok, w) = vcalloc env 16 w in
      if \<not> ok then (False, w) else if sz = 0 then (True, w) else vcalloc env (8 * sz) w)"

fun copy_volumes :: "vol_env \<Rightarrow> volume list \<Rightarrow> vworld \<Rightarrow> volume list option \<times> vworld" where
  "copy_volumes env [] w = (Some [], w)"
| "copy_volumes env (v # vs) w =
     (let (r, w) = dup_volume env (v_name v) (v_path v) w in
      case r of
        None \<Rightarrow> (None, w)
      | Some d \<Rightarrow> let (rs, w) = copy_volumes env vs w in (map_option ((#) d) rs, w))"

text \<open>When the list gets no memory, the function returns with the mutex locked.\<close>

definition local_volume_list :: "vol_env \<Rightarrow> vworld \<Rightarrow> (volume list option \<times> vworld) option" where
  "local_volume_list env w = do {
     w \<leftarrow> mutex_lock w;
     g \<leftarrow> g_volumes w;
     let (ok, w) = new_empty_volumes env (length (vols_by_name g)) w;
     if \<not> ok then Some (None, w)
     else
       let (iok, w) = vcalloc env 16 w in
       if \<not> iok then Some (None, mutex_unlock w)
       else let (vs, w) = copy_volumes env (map snd (vols_by_name g)) w in Some (vs, mutex_unlock w)
   }"

subsection \<open>Removing\<close>

definition remove_volume_dir :: "vol_env \<Rightarrow> string \<Rightarrow> vworld \<Rightarrow> (int \<times> vworld) option" where
  "remove_volume_dir env path w = do {
     g \<leftarrow> g_volumes w;
     vol_dir \<leftarrow> util_path_dir (Some path);
     if \<not> util_has_prefix (Some vol_dir) (Some (root_dir g)) \<or> length vol_dir \<le> length (root_dir g) + 1 then Some (-1, w)
     else
       let (failed, w) = rmdir_at env path w in
       if failed then Some (-1, try_errmsg (''failed to remove volume data dir '' @ path @ '': '' @ strerror env) w)
       else
         let (failed, w) = rmdir_at env vol_dir w in
         if failed then Some (-1, try_errmsg (''failed to remove volume dir '' @ vol_dir @ '': '' @ strerror env) w) else Some (0, w)
   }"

definition volume_remove_nolock :: "vol_env \<Rightarrow> string \<Rightarrow> vworld \<Rightarrow> (int \<times> vworld) option" where
  "volume_remove_nolock env nm w = do {
     g \<leftarrow> g_volumes w;
     case smap_find nm (vols_by_name g) of
       None \<Rightarrow> Some (VOLUME_ERR_NOT_EXIST, try_errmsg (''No such volume: '' @ nm) w)
     | Some v \<Rightarrow> do {
         (ret, w) \<leftarrow> remove_volume_dir env (v_path v) w;
         if ret \<noteq> 0 then Some (-1, w)
         else do {
           g \<leftarrow> g_volumes w;
           let (b, m) = smap_remove nm (vols_by_name g);
           Some (if b then 0 else -1, set_vols m w)
         }
       }
   }"

definition local_volume_remove :: "vol_env \<Rightarrow> string \<Rightarrow> vworld \<Rightarrow> (int \<times> vworld) option" where
  "local_volume_remove env nm w =
     (if \<not> util_valid_volume_name nm then Some (-1, try_errmsg (''failed to remove volume, invalid volume name '' @ nm) w)
      else do {
        w \<leftarrow> mutex_lock w;
        (ret, w) \<leftarrow> volume_remove_nolock env nm w;
        Some (ret, mutex_unlock w)
      })"

end
