(* ===== verification/Volume.thy ===== *)
theory Volume
  imports Local_Volume
begin

section \<open>The registry of volumes\<close>

text \<open>
  src/src/daemon/modules/volume/volume.c and the handlers of src/src/daemon/executor/volume\_cb/volume\_cb.c:
  the drivers by name, and for every volume the containers that refer to it.  A driver is a record of
  functions on the world of the local driver, each of them possibly NULL.  The operations run under the
  mutex of \<open>g_vs\<close>, which all of them release.  None is a call of a NULL function or a driver that does not return.
\<close>

record volume_driver =
  drv_create :: "(string \<Rightarrow> vworld \<Rightarrow> (volume option \<times> vworld) option) option"
  drv_get :: "(string \<Rightarrow> vworld \<Rightarrow> (volume option \<times> vworld) option) option"
  drv_mount :: "(string \<Rightarrow> vworld \<Rightarrow> (int \<times> vworld) option) option"
  drv_umount :: "(string \<Rightarrow> vworld \<Rightarrow> (int \<times> vworld) option) option"
  drv_list :: "(vworld \<Rightarrow> (volume list option \<times> vworld) option) option"
  drv_remove :: "(string \<Rightarrow> vworld \<Rightarrow> (int \<times> vworld) option) option"

text \<open>\<open>static_driver\<close> is the static variable of \<open>lookup_driver_by_volume_name\<close>.\<close>

record volume_store =
  drivers :: "volume_driver smap option"
  name_refs :: "bool smap smap option"
  static_driver :: "volume_driver option"
  world :: vworld

definition vsalloc :: "vol_env \<Rightarrow> nat \<Rightarrow> volume_store \<Rightarrow> bool \<times> volume_store" where
  "vsalloc env n s = (let (ok, w) = vcalloc env n (world s) in (ok, s\<lparr>world := w\<rparr>))"

text \<open>\<open>map_search\<close> and \<open>map_itor_new\<close> on a map that may be NULL.\<close>

definition msearch :: "string \<Rightarrow> 'v smap option \<Rightarrow> 'v option" where
  "msearch k m = (case m of None \<Rightarrow> None | Some m \<Rightarrow> smap_find k m)"

subsection \<open>Drivers\<close>

definition valid_driver :: "volume_driver \<Rightarrow> int" where
  "valid_driver d =
     (if drv_create d = None \<or> drv_get d = None \<or> drv_mount d = None \<or> drv_umount d = None \<or> drv_list d = None \<or> drv_remove d = None
      then -1 else 0)"

definition lookup_driver :: "string option \<Rightarrow> volume_store \<Rightarrow> volume_driver option" where
  "lookup_driver nm s = (case nm of None \<Rightarrow> None | Some n \<Rightarrow> msearch n (drivers s))"

text \<open>The loop over the drivers: \<open>d\<close> is the variable \<open>driver\<close>, which keeps the last one tried.\<close>

fun find_driver :: "string \<Rightarrow> volume_driver list \<Rightarrow> volume_driver option \<Rightarrow> vworld \<Rightarrow> (volume_driver option \<times> vworld) option" where
  "find_driver nm [] d w = Some (d, w)"
| "find_driver nm (x # xs) d w = do {
     get \<leftarrow> drv_get x;
     (vol, w) \<leftarrow> get nm w;
     if vol \<noteq> None then Some (Some x, w) else find_driver nm xs (Some x) w
   }"

definition lookup_driver_by_volume_name ::
    "vol_env \<Rightarrow> string option \<Rightarrow> volume_store \<Rightarrow> (volume_driver option \<times> volume_store) option" where
  "lookup_driver_by_volume_name env nm s =
     (case nm of
        None \<Rightarrow> Some (None, s)
      | Some n \<Rightarrow>
          (case drivers s of
             None \<Rightarrow> Some (static_driver s, s)
           | Some m \<Rightarrow>
               let (ok, s) = vsalloc env 16 s in
               if \<not> ok then Some (static_driver s, s)
               else do {
                 (d, w) \<leftarrow> find_driver n (map snd m) (static_driver s) (world s);
                 Some (d, s\<lparr>static_driver := d, world := w\<rparr>)
               }))"

definition dup_driver :: "vol_env \<Rightarrow> volume_driver \<Rightarrow> volume_store \<Rightarrow> volume_driver option \<times> volume_store" where
  "dup_driver env d s = (let (ok, s) = vsalloc env 48 s in (if ok then Some d else None, s))"

definition insert_driver :: "vol_env \<Rightarrow> string \<Rightarrow> volume_driver \<Rightarrow> volume_store \<Rightarrow> int \<times> volume_store" where
  "insert_driver env nm driver s =
     (if valid_driver driver \<noteq> 0 then (-1, s)
      else
        case dup_driver env driver s of
          (None, s) \<Rightarrow> (-1, s)
        | (Some d, s) \<Rightarrow>
            (case drivers s of
               None \<Rightarrow> (-1, s)
             | Some m \<Rightarrow>
                 let (ok, s) = vsalloc env 48 s; (b, m) = smap_insert ok nm d m
                 in (if b then 0 else -1, s\<lparr>drivers := Some m\<rparr>)))"

definition register_driver :: "vol_env \<Rightarrow> string option \<Rightarrow> volume_driver option \<Rightarrow> volume_store \<Rightarrow> int \<times> volume_store" where
  "register_driver env nm driver s =
     (case (nm, driver) of
        (Some n, Some d) \<Rightarrow> if lookup_driver (Some n) s \<noteq> None then (-1, s) else insert_driver env n d s
      | _ \<Rightarrow> (-1, s))"

subsection \<open>References\<close>

text \<open>The first bytes of a \<open>map_t\<close> of type \<open>MAP_STR_BOOL\<close>, read as a string.\<close>

definition map_as_string :: string where "map_as_string = [CHR 0x04]"

definition add_name_ref :: "vol_env \<Rightarrow> string \<Rightarrow> string \<Rightarrow> volume_store \<Rightarrow> int \<times> volume_store" where
  "add_name_ref env nm ref s =
     (let (found, s) =
        (case msearch nm (name_refs s) of
           Some refs \<Rightarrow> (Some refs, s)
         | None \<Rightarrow>
             let (ok, s) = vsalloc env 16 s in
             if \<not> ok then (None, s)
             else case name_refs s of
                    None \<Rightarrow> (None, s)
                  | Some m \<Rightarrow>
                      let (ok, s) = vsalloc env 48 s; (b, m) = smap_insert ok nm [] m
                      in (if b then Some [] else None, s\<lparr>name_refs := Some m\<rparr>))
      in case found of
           None \<Rightarrow> (-1, s)
         | Some refs \<Rightarrow>
             if smap_find ref refs \<noteq> None then (0, s)
             else
               let (ok, s) = vsalloc env 48 s; (b, refs') = smap_insert ok ref True refs in
               if b then (0, s\<lparr>name_refs := map_option (store_upd rbtree_str_cmp nm refs') (name_refs s)\<rparr>)
               else if length refs = 0 then
                 (-1, s\<lparr>name_refs := map_option (\<lambda>m. snd (smap_remove map_as_string m)) (name_refs s)\<rparr>)
               else (-1, s))"

definition empty_volume_names :: "vol_env \<Rightarrow> nat \<Rightarrow> volume_store \<Rightarrow> bool \<times> volume_store" where
  "empty_volume_names env sz s =
     (let (ok, s) = vsalloc env 16 s in if \<not> ok then (False, s) else vsalloc env (8 * sz) s)"

definition get_name_refs :: "vol_env \<Rightarrow> string \<Rightarrow> volume_store \<Rightarrow> string list option \<times> volume_store" where
  "get_name_refs env nm s =
     (case msearch nm (name_refs s) of
        None \<Rightarrow> (None, s)
      | Some refs \<Rightarrow>
          let (ok, s) = empty_volume_names env (length refs) s in
          if \<not> ok then (None, s)
          else
            let (ok, s) = vsalloc env 16 s in
            (if ok then Some (map fst refs) else None, s))"

definition del_name_ref :: "string \<Rightarrow> string \<Rightarrow> volume_store \<Rightarrow> int \<times> volume_store" where
  "del_name_ref nm ref s =
     (case msearch nm (name_refs s) of
        None \<Rightarrow> (0, s)
      | Some refs \<Rightarrow>
          let (ok, refs') = (if length refs \<noteq> 0 then smap_remove ref refs else (True, refs)) in
          if \<not> ok then (-1, s)
          else
            let s = s\<lparr>name_refs := map_option (store_upd rbtree_str_cmp nm refs') (name_refs s)\<rparr> in
            if length refs' = 0 then
              (case name_refs s of
                 None \<Rightarrow> (-1, s)
               | Some m \<Rightarrow> let (b, m) = smap_remove nm m in (if b then 0 else -1, s\<lparr>name_refs := Some m\<rparr>))
            else (0, s))"

subsection \<open>Start\<close>

definition local_driver :: "vol_env \<Rightarrow> volume_driver" where
  "local_driver env = \<lparr>drv_create = Some (local_volume_create env), drv_get = Some (local_volume_get env),
     drv_mount = Some local_volume_mount, drv_umount = Some local_volume_umount, drv_list = Some (local_volume_list env),
     drv_remove = Some (local_volume_remove env)\<rparr>"

definition register_local_volume :: "vol_env \<Rightarrow> int \<Rightarrow> string option \<Rightarrow> volume_store \<Rightarrow> (int \<times> volume_store) option" where
  "register_local_volume env mutex_init rdir s =
     (case rdir of
        None \<Rightarrow> Some (-1, s)
      | Some r \<Rightarrow>
          let dir = util_path_join (Some (vcwd env)) (Some r) (Some LOCAL_VOLUME_ROOT_DIR_NAME) in
          do {
            (ret, w) \<leftarrow> local_volume_init env mutex_init dir (world s);
            let s = s\<lparr>world := w\<rparr>;
            if ret \<noteq> 0 then Some (-1, s)
            else Some (register_driver env (Some LOCAL_VOLUME_DRIVER_NAME) (Some (local_driver env)) s)
          })"

definition register_drivers :: "vol_env \<Rightarrow> int \<Rightarrow> string option \<Rightarrow> volume_store \<Rightarrow> (int \<times> volume_store) option" where
  "register_drivers env mutex_init rdir s = register_local_volume env mutex_init rdir s"

definition volume_init :: "vol_env \<Rightarrow> int \<Rightarrow> string option \<Rightarrow> volume_store \<Rightarrow> (int \<times> volume_store) option" where
  "volume_init env mutex_init rdir s = do {
     let (dok, s) = vsalloc env 16 s;
     let s = s\<lparr>drivers := if dok then Some [] else None\<rparr>;
     if \<not> dok then Some (-1, s\<lparr>name_refs := None\<rparr>)
     else do {
       let (rok, s) = vsalloc env 16 s;
       let s = s\<lparr>name_refs := if rok then Some [] else None\<rparr>;
       if \<not> rok then Some (-1, s\<lparr>drivers := None\<rparr>)
       else do {
         (ret, s) \<leftarrow> register_drivers env mutex_init rdir s;
         Some (ret, if ret \<noteq> 0 then s\<lparr>drivers := None, name_refs := None\<rparr> else s)
       }
     }
   }"

subsection \<open>Operations\<close>

text \<open>src/src/utils/cutils/utils.c: \<open>reads i\<close> is the i-th number read from \<open>/dev/urandom\<close>, None when reading fails.\<close>

definition hex_digit :: "nat \<Rightarrow> char" where
  "hex_digit n = char_of (if n < 10 then 48 + n else 87 + n)"

definition util_generate_random_str :: "bool \<Rightarrow> (nat \<Rightarrow> int option) \<Rightarrow> nat \<Rightarrow> string option" where
  "util_generate_random_str opened reads len =
     (if \<not> opened then None
      else if list_all (\<lambda>i. reads i \<noteq> None) [0..<len div 2] then
        Some (concat (map (\<lambda>i. let rs = nat (the (reads i) mod 256) in [hex_digit (rs div 16), hex_digit (rs mod 16)]) [0..<len div 2]))
      else None)"

definition VOLUME_DEFAULT_NAME_LEN :: nat where "VOLUME_DEFAULT_NAME_LEN = 64"

text \<open>\<open>volume_create\<close>: \<open>urandom\<close> says whether \<open>/dev/urandom\<close> opens and what it gives; \<open>ref\<close> is the reference in the options.\<close>

definition volume_create ::
    "vol_env \<Rightarrow> bool \<times> (nat \<Rightarrow> int option) \<Rightarrow> string option \<Rightarrow> string option \<Rightarrow> string option \<Rightarrow> volume_store \<Rightarrow> (volume option \<times> volume_store) option" where
  "volume_create env urandom driver_name nm ref s =
     (case (driver_name, ref) of
        (Some dn, Some r) \<Rightarrow>
          (case lookup_driver (Some dn) s of
             None \<Rightarrow> Some (None, s)
           | Some driver \<Rightarrow>
               (case (case nm of
                        Some n \<Rightarrow> Some n
                      | None \<Rightarrow> util_generate_random_str (fst urandom) (snd urandom) VOLUME_DEFAULT_NAME_LEN) of
                  None \<Rightarrow> Some (None, s)
                | Some n \<Rightarrow> do {
                    create \<leftarrow> drv_create driver;
                    (vol, w) \<leftarrow> create n (world s);
                    let s = s\<lparr>world := w\<rparr>;
                    if vol = None then Some (None, s)
                    else
                      let (ret, s) = add_name_ref env n r s in
                      Some (if ret \<noteq> 0 then None else vol, s)
                  }))
      | _ \<Rightarrow> Some (None, s))"

definition volume_mount :: "vol_env \<Rightarrow> string option \<Rightarrow> volume_store \<Rightarrow> (int \<times> volume_store) option" where
  "volume_mount env nm s =
     (case nm of
        None \<Rightarrow> Some (-1, s)
      | Some n \<Rightarrow> do {
          (driver, s) \<leftarrow> lookup_driver_by_volume_name env nm s;
          case driver of
            None \<Rightarrow> Some (-1, s)
          | Some d \<Rightarrow> do { mount \<leftarrow> drv_mount d; (ret, w) \<leftarrow> mount n (world s); Some (ret, s\<lparr>world := w\<rparr>) }
        })"

definition volume_umount :: "vol_env \<Rightarrow> string option \<Rightarrow> volume_store \<Rightarrow> (int \<times> volume_store) option" where
  "volume_umount env nm s =
     (case nm of
        None \<Rightarrow> Some (-1, s)
      | Some n \<Rightarrow> do {
          (driver, s) \<leftarrow> lookup_driver_by_volume_name env nm s;
          case driver of
            None \<Rightarrow> Some (-1, s)
          | Some d \<Rightarrow> do { umount \<leftarrow> drv_umount d; (ret, w) \<leftarrow> umount n (world s); Some (ret, s\<lparr>world := w\<rparr>) }
        })"

definition list_all_driver_volumes :: "vol_env \<Rightarrow> volume_store \<Rightarrow> (volume list option \<times> volume_store) option" where
  "list_all_driver_volumes env s =
     (case drivers s of
        None \<Rightarrow> Some (None, s)
      | Some m \<Rightarrow>
          let (ok, s) = vsalloc env 16 s in
          if \<not> ok then Some (None, s)
          else case m of
                 [] \<Rightarrow> Some (None, s)
               | (k, d) # r \<Rightarrow> do { list \<leftarrow> drv_list d; (vols, w) \<leftarrow> list (world s); Some (vols, s\<lparr>world := w\<rparr>) })"

definition volume_list :: "vol_env \<Rightarrow> volume_store \<Rightarrow> (volume list option \<times> volume_store) option" where
  "volume_list env s = list_all_driver_volumes env s"

definition volume_add_ref :: "vol_env \<Rightarrow> string option \<Rightarrow> string option \<Rightarrow> volume_store \<Rightarrow> int \<times> volume_store" where
  "volume_add_ref env nm ref s =
     (case (nm, ref) of (Some n, Some r) \<Rightarrow> add_name_ref env n r s | _ \<Rightarrow> (-1, s))"

definition volume_del_ref :: "string option \<Rightarrow> string option \<Rightarrow> volume_store \<Rightarrow> int \<times> volume_store" where
  "volume_del_ref nm ref s =
     (case (nm, ref) of (Some n, Some r) \<Rightarrow> del_name_ref n r s | _ \<Rightarrow> (-1, s))"

definition volume_remove :: "vol_env \<Rightarrow> string option \<Rightarrow> volume_store \<Rightarrow> (int \<times> volume_store) option" where
  "volume_remove env nm s =
     (case nm of
        None \<Rightarrow> Some (-1, s)
      | Some n \<Rightarrow> do {
          (driver, s) \<leftarrow> lookup_driver_by_volume_name env nm s;
          case driver of
            None \<Rightarrow> Some (-1, s)
          | Some d \<Rightarrow>
              (case get_name_refs env n s of
                 (Some (v # vns), s) \<Rightarrow>
                   Some (-1, s\<lparr>world := try_errmsg (''remove volume '' @ n @ '' failed: volume is used by container '' @ v) (world s)\<rparr>)
               | (_, s) \<Rightarrow> do { remove \<leftarrow> drv_remove d; (ret, w) \<leftarrow> remove n (world s); Some (ret, s\<lparr>world := w\<rparr>) })
        })"

text \<open>The loop of \<open>volume_prune\<close>: the names of the volumes that were removed.\<close>

fun prune_loop :: "vol_env \<Rightarrow> volume list \<Rightarrow> volume_store \<Rightarrow> (string list \<times> volume_store) option" where
  "prune_loop env [] s = Some ([], s)"
| "prune_loop env (v # vs) s = do {
     (ret, s) \<leftarrow> volume_remove env (Some (v_name v)) s;
     (names, s) \<leftarrow> prune_loop env vs s;
     Some (if ret \<noteq> 0 then names else v_name v # names, s)
   }"

definition volume_prune :: "vol_env \<Rightarrow> bool \<Rightarrow> volume_store \<Rightarrow> ((int \<times> string list option) \<times> volume_store) option" where
  "volume_prune env pruned_ptr s =
     (if \<not> pruned_ptr then Some ((-1, None), s)
      else
        let (ok, s) = vsalloc env 16 s in
        if \<not> ok then Some ((-1, None), s)
        else do {
          (list, s) \<leftarrow> volume_list env s;
          case list of
            None \<Rightarrow> Some ((-1, None), s)
          | Some vols \<Rightarrow>
              if length vols = 0 then Some ((0, Some []), s)
              else
                let (ok, s) = vsalloc env (8 * length vols) s in
                if \<not> ok then Some ((-1, None), s)
                else do { (names, s) \<leftarrow> prune_loop env vols s; Some ((0, Some names), s) }
        })"

subsection \<open>The request handlers\<close>

record vol_response =
  vcc :: isulad_errno_t
  vresp_errmsg :: "string option"
  vresp_volumes :: "(string option \<times> string) list"

definition vrespond :: "bool \<Rightarrow> isulad_errno_t \<Rightarrow> (string option \<times> string) list \<Rightarrow> volume_store \<Rightarrow> int \<times> vol_response option \<times> volume_store" where
  "vrespond resp c vs s =
     (if c \<noteq> ISULAD_SUCCESS then ECOMMON else 0,
      if resp then Some \<lparr>vcc = c, vresp_errmsg = verrmsg (world s), vresp_volumes = vs\<rparr> else None,
      if resp then s\<lparr>world := (world s)\<lparr>verrmsg := DAEMON_CLEAR_ERRMSG (verrmsg (world s))\<rparr>\<rparr> else s)"

definition clear_verrmsg :: "volume_store \<Rightarrow> volume_store" where
  "clear_verrmsg s = s\<lparr>world := (world s)\<lparr>verrmsg := DAEMON_CLEAR_ERRMSG (verrmsg (world s))\<rparr>\<rparr>"

fun respond_volumes :: "vol_env \<Rightarrow> volume list \<Rightarrow> volume_store \<Rightarrow> isulad_errno_t \<times> (string option \<times> string) list \<times> volume_store" where
  "respond_volumes env [] s = (ISULAD_SUCCESS, [], s)"
| "respond_volumes env (v # vs) s =
     (let (ok, s) = vsalloc env 32 s in
      if \<not> ok then (ISULAD_ERR_MEMOUT, [], s)
      else let (c, r, s) = respond_volumes env vs s in (c, (v_driver v, v_name v) # r, s))"

definition volume_list_cb :: "vol_env \<Rightarrow> bool \<Rightarrow> bool \<Rightarrow> volume_store \<Rightarrow> (int \<times> vol_response option \<times> volume_store) option" where
  "volume_list_cb env request resp_ptr s =
     (let s = clear_verrmsg s in
      if \<not> request \<or> \<not> resp_ptr then Some (EINVALIDARGS, None, s)
      else
        let (ok, s) = vsalloc env 32 s in
        if \<not> ok then Some (vrespond False ISULAD_ERR_MEMOUT [] s)
        else do {
          (list, s) \<leftarrow> volume_list env s;
          case list of
            None \<Rightarrow> Some (vrespond True ISULAD_ERR_EXEC [] s)
          | Some vols \<Rightarrow>
              if length vols = 0 then Some (vrespond True ISULAD_SUCCESS [] s)
              else
                let s' = snd (vsalloc env 8 s) in
                if \<not> util_smart_calloc_s (vmem env (ticks (world s))) 8 (length vols) then Some (vrespond True ISULAD_ERR_MEMOUT [] s')
                else let (c, vs, s) = respond_volumes env vols s' in Some (vrespond True c vs s)
        })"

definition volume_remove_cb :: "vol_env \<Rightarrow> string option option \<Rightarrow> bool \<Rightarrow> volume_store \<Rightarrow> (int \<times> vol_response option \<times> volume_store) option" where
  "volume_remove_cb env request resp_ptr s =
     (let s = clear_verrmsg s in
      case request of
        Some (Some nm) \<Rightarrow>
          if \<not> resp_ptr then Some (EINVALIDARGS, None, s)
          else
            let (ok, s) = vsalloc env 16 s in
            if \<not> ok then Some (vrespond False ISULAD_ERR_MEMOUT [] s)
            else do {
              (ret, s) \<leftarrow> volume_remove env (Some nm) s;
              Some (vrespond True (if ret \<noteq> 0 then ISULAD_ERR_EXEC else ISULAD_SUCCESS) [] s)
            }
      | _ \<Rightarrow> Some (EINVALIDARGS, None, s))"

definition volume_prune_cb :: "vol_env \<Rightarrow> bool \<Rightarrow> bool \<Rightarrow> volume_store \<Rightarrow> (int \<times> vol_response option \<times> volume_store) option" where
  "volume_prune_cb env request resp_ptr s =
     (let s = clear_verrmsg s in
      if \<not> request \<or> \<not> resp_ptr then Some (EINVALIDARGS, None, s)
      else
        let (ok, s) = vsalloc env 32 s in
        if \<not> ok then Some (vrespond False ISULAD_ERR_MEMOUT [] s)
        else do {
          ((ret, pruned), s) \<leftarrow> volume_prune env True s;
          if ret \<noteq> 0 then Some (vrespond True ISULAD_ERR_EXEC [] s)
          else do { names \<leftarrow> pruned; Some (vrespond True ISULAD_SUCCESS (map (\<lambda>n. (None, n)) names) s) }
        })"

end
