(* ===== verification/Local_Volume_Props.thy ===== *)
theory Local_Volume_Props
  imports Local_Volume
begin

section \<open>Correctness of the local volume driver\<close>

text \<open>
  The invariant of \<open>g_volumes\<close>, what each operation does to the map of volumes and to the tree of files,
  and the two failures of the driver when memory runs out.
\<close>

subsection \<open>Well-formed volumes\<close>

text \<open>A clean absolute directory other than the root of the file system.\<close>

definition root_ok :: "string \<Rightarrow> bool" where
  "root_ok r \<longleftrightarrow> (\<exists>st. st \<noteq> [] \<and> list_all proper_comp st \<and> r = join_slash st)"

definition vol_dir_of :: "volumes_info \<Rightarrow> string \<Rightarrow> string" where
  "vol_dir_of g nm = root_dir g @ ''/'' @ nm"

definition data_dir_of :: "volumes_info \<Rightarrow> string \<Rightarrow> string" where
  "data_dir_of g nm = vol_dir_of g nm @ ''/'' @ LOCAL_VOLUME_DATA_DIR_NAME"

definition vols_wf :: "volumes_info \<Rightarrow> bool" where
  "vols_wf g \<longleftrightarrow> root_ok (root_dir g) \<and> smap_ok (vols_by_name g) \<and>
     (\<forall>(k, v) \<in> set (vols_by_name g). util_valid_volume_name k \<and> v_name v = k \<and> v_path v = data_dir_of g k)"

definition local_ok :: "vworld \<Rightarrow> bool" where
  "local_ok w \<longleftrightarrow> (\<exists>g. g_volumes w = Some g \<and> \<not> mutex g \<and> vols_wf g)"

text \<open>What clients see of a volume.\<close>

definition the_volume :: "volumes_info \<Rightarrow> string \<Rightarrow> volume" where
  "the_volume g nm = \<lparr>v_driver = Some LOCAL_VOLUME_DRIVER_NAME, v_name = nm, v_path = data_dir_of g nm, v_mount_point = Some (data_dir_of g nm)\<rparr>"

lemma isalnum_not_special: "isalnum c \<Longrightarrow> c \<noteq> CHR ''/'' \<and> c \<noteq> CHR ''.'' \<and> c \<noteq> CHR 0x00"
  by (auto simp: isalnum_def code_def)

lemma valid_name_chars:
  assumes "util_valid_volume_name nm"
  shows "CHR ''/'' \<notin> set nm" "CHR 0x00 \<notin> set nm" "nm \<noteq> []" "hd nm \<noteq> CHR ''.''"
proof -
  from assms obtain c cs where nm: "nm = c # cs" "isalnum c"
    "\<forall>x \<in> set cs. isalnum x \<or> x = CHR ''_'' \<or> x = CHR ''.'' \<or> x = CHR ''-''"
    by (cases nm) (auto simp: valid_volume_name_iff list_all_iff)
  then show "CHR ''/'' \<notin> set nm" "CHR 0x00 \<notin> set nm" "nm \<noteq> []" "hd nm \<noteq> CHR ''.''"
    using isalnum_not_special by fastforce+
qed

lemma valid_name_proper: "util_valid_volume_name nm \<Longrightarrow> proper_comp nm"
  using valid_name_chars [of nm] by (auto simp: proper_comp_def good_comp_def)

lemma valid_name_c_str: "util_valid_volume_name nm \<Longrightarrow> c_str nm"
  using valid_name_chars [of nm] by (simp add: c_str_def)

lemma data_name_proper: "proper_comp LOCAL_VOLUME_DATA_DIR_NAME"
  by (simp add: proper_comp_def good_comp_def LOCAL_VOLUME_DATA_DIR_NAME_def)

lemma store_find_set: "store_find cmp k m = Some v \<Longrightarrow> \<exists>k'. (k', v) \<in> set m \<and> cmp k k' = 0"
  by (induction m) (auto split: if_splits)

lemma store_ins_set: "set (store_ins cmp k v m) = insert (k, v) (set m)"
  by (induction cmp k v m rule: store_ins.induct) auto

lemma store_del_set: "set (store_del cmp k m) \<subseteq> set m"
  by (induction m) (auto split: if_splits)

lemma vols_wf_find:
  assumes "vols_wf g" "util_valid_volume_name nm" "smap_find nm (vols_by_name g) = Some v"
  shows "v_name v = nm" "v_path v = data_dir_of g nm"
proof -
  from store_find_set [OF assms(3)] obtain k where k: "(k, v) \<in> set (vols_by_name g)" "rbtree_str_cmp nm k = 0" by blast
  with assms(1) have "util_valid_volume_name k" "v_name v = k" "v_path v = data_dir_of g k" by (auto simp: vols_wf_def)
  with str_cmp.cmp_eq [OF valid_name_c_str [OF assms(2)] valid_name_c_str [of k]] k(2)
  show "v_name v = nm" "v_path v = data_dir_of g nm" by auto
qed

lemma data_dir_of_upd [simp]:
  "data_dir_of (g\<lparr>vols_by_name := m\<rparr>) nm = data_dir_of g nm" "data_dir_of (g\<lparr>mutex := b\<rparr>) nm = data_dir_of g nm"
  by (simp_all add: data_dir_of_def vol_dir_of_def)

lemma vols_wf_insert:
  "vols_wf g \<Longrightarrow> util_valid_volume_name nm \<Longrightarrow> v_name v = nm \<Longrightarrow> v_path v = data_dir_of g nm \<Longrightarrow>
   vols_wf (g\<lparr>vols_by_name := snd (smap_insert ok nm v (vols_by_name g))\<rparr>)"
  by (auto simp: vols_wf_def spec_defs store_ins_set str_cmp.store_ins_ok valid_name_c_str)

lemma vols_wf_remove:
  "vols_wf g \<Longrightarrow> util_valid_volume_name nm \<Longrightarrow> vols_wf (g\<lparr>vols_by_name := store_del rbtree_str_cmp nm (vols_by_name g)\<rparr>)"
  using store_del_set [of rbtree_str_cmp nm "vols_by_name g"]
  by (auto simp: vols_wf_def str_cmp.store_del_ok valid_name_c_str)

subsection \<open>The operations\<close>

named_theorems vworld_simps

lemma mutex_simps [vworld_simps]:
  "g_volumes w = Some g \<Longrightarrow> \<not> mutex g \<Longrightarrow> mutex_lock w = Some (w\<lparr>g_volumes := Some (g\<lparr>mutex := True\<rparr>)\<rparr>)"
  "g_volumes (mutex_unlock w) = map_option (\<lambda>g. g\<lparr>mutex := False\<rparr>) (g_volumes w)" "files (mutex_unlock w) = files w"
  "ticks (mutex_unlock w) = ticks w"
  by (simp_all add: mutex_lock_def mutex_unlock_def)

lemma try_errmsg_simps [vworld_simps]:
  "g_volumes (try_errmsg m w) = g_volumes w" "files (try_errmsg m w) = files w" "ticks (try_errmsg m w) = ticks w"
  by (simp_all add: try_errmsg_def)

lemma set_vols_simps [vworld_simps]:
  "g_volumes (set_vols m w) = map_option (\<lambda>g. g\<lparr>vols_by_name := m\<rparr>) (g_volumes w)" "files (set_vols m w) = files w"
  by (simp_all add: set_vols_def)

lemma unlock_lock [simp]: "\<not> mutex g \<Longrightarrow> g\<lparr>mutex := False\<rparr> = g"
  by simp

lemma small_calloc: "0 < n \<Longrightarrow> n \<le> MAX_MEMORY_SIZE \<Longrightarrow> util_common_calloc_s b n = b"
  by (simp add: util_common_calloc_s_def)

lemma dup_volume_eq [vworld_simps]:
  "dup_volume env nm (data_dir_of g nm) w = (if vmem env (ticks w) then Some (the_volume g nm) else None, w\<lparr>ticks := Suc (ticks w)\<rparr>)"
  by (simp add: dup_volume_def vcalloc_def the_volume_def small_calloc MAX_MEMORY_SIZE_def)

text \<open>What \<open>local_volume_get\<close> does.\<close>

lemma local_get_spec:
  assumes "g_volumes w = Some g" "\<not> mutex g" "vols_wf g"
  shows "\<exists>r w'. local_volume_get env nm w = Some (r, w') \<and> g_volumes w' = Some g \<and> files w' = files w \<and>
    (r \<noteq> None \<longrightarrow> util_valid_volume_name nm \<and> smap_find nm (vols_by_name g) \<noteq> None \<and> r = Some (the_volume g nm)) \<and>
    ((\<forall>i. vmem env i) \<and> util_valid_volume_name nm \<and> smap_find nm (vols_by_name g) \<noteq> None \<longrightarrow> r \<noteq> None)"
proof (cases "util_valid_volume_name nm")
  case False
  then show ?thesis using assms(1) by (auto simp: local_volume_get_def vworld_simps)
next
  case True
  show ?thesis
  proof (cases "smap_find nm (vols_by_name g)")
    case None
    with True assms show ?thesis by (auto simp: local_volume_get_def vworld_simps)
  next
    case (Some v)
    with True assms vols_wf_find [OF assms(3) True Some] show ?thesis by (auto simp: local_volume_get_def vworld_simps)
  qed
qed


text \<open>A volume as \<open>create_volume_meminfo\<close> makes it.\<close>

definition new_volume :: "volumes_info \<Rightarrow> string \<Rightarrow> volume" where
  "new_volume g nm = \<lparr>v_driver = None, v_name = nm, v_path = data_dir_of g nm, v_mount_point = None\<rparr>"

lemma meminfo_eq [vworld_simps]:
  "g_volumes w = Some g \<Longrightarrow> create_volume_meminfo env nm w = Some
     (if vmem env (ticks w) \<and> length (data_dir_of g nm) < PATH_MAX then (0, Some (new_volume g nm)) else (-1, None), w\<lparr>ticks := Suc (ticks w)\<rparr>)"
  by (auto simp: create_volume_meminfo_def vcalloc_def small_calloc MAX_MEMORY_SIZE_def new_volume_def data_dir_of_def vol_dir_of_def)

lemma insert_vol_eq [vworld_simps]:
  "g_volumes w = Some g \<Longrightarrow> insert_vol env nm v w = Some
     (fst (smap_insert (vmem env (ticks w)) nm v (vols_by_name g)),
      set_vols (snd (smap_insert (vmem env (ticks w)) nm v (vols_by_name g))) (w\<lparr>ticks := Suc (ticks w)\<rparr>))"
  by (simp add: insert_vol_def vcalloc_def small_calloc MAX_MEMORY_SIZE_def case_prod_beta Let_def)

lemma root_ok_hd: "root_ok r \<Longrightarrow> r \<noteq> [] \<and> ISSLASH (hd r)"
  by (auto simp: root_ok_def neq_Nil_conv)

text \<open>Creating a volume that is not there: a directory on the way, and an entry when there is memory for it.\<close>

lemma create_new_spec:
  assumes "g_volumes w = Some g" "vols_wf g" "util_valid_volume_name nm" "smap_find nm (vols_by_name g) = None"
  shows "\<exists>r w' b. volume_create_nolock env nm w = Some (r, w') \<and>
    g_volumes w' = Some (g\<lparr>vols_by_name := snd (smap_insert b nm (new_volume g nm) (vols_by_name g))\<rparr>) \<and>
    (r \<noteq> None \<longrightarrow> r = Some (new_volume g nm) \<and> (\<exists>es. walk (at_path (vcwd env) (data_dir_of g nm)) (files w') = Some (Dir es))) \<and>
    (b \<longrightarrow> r \<noteq> None) \<and> ((\<forall>i. vmem env i) \<longrightarrow> b = (r \<noteq> None))"
proof (cases "vmem env (ticks w) \<and> length (data_dir_of g nm) < PATH_MAX")
  case False
  with assms(1,4) show ?thesis
    by (intro exI [of _ None] exI [of _ "w\<lparr>ticks := Suc (ticks w)\<rparr>"] exI [of _ False])
      (auto simp: volume_create_nolock_def vworld_simps spec_defs)
next
  case True
  let ?p = "data_dir_of g nm"
  obtain ret t where mk: "util_mkdir_p (vdisk env) (vcwd env) (Some ?p) (files w) = (ret, t)" by (rule prod.exhaust)
  let ?w = "w\<lparr>ticks := Suc (ticks w), files := t\<rparr>"
  have abs: "?p \<noteq> [] \<and> ISSLASH (hd ?p)"
    using root_ok_hd assms(2) by (auto simp: vols_wf_def data_dir_of_def vol_dir_of_def)
  have step: "volume_create_nolock env nm w = (if ret \<noteq> 0 then Some (None, snd (rmdir_at env ?p ?w))
      else do { (_, w) \<leftarrow> insert_vol env nm (new_volume g nm) ?w; Some (Some (new_volume g nm), w) })"
    using assms(1,4) True mk by (simp add: volume_create_nolock_def vworld_simps new_volume_def)
  show ?thesis
  proof (cases "ret = 0")
    case False
    with step assms(1,4) show ?thesis
      by (intro exI [of _ None] exI [of _ "snd (rmdir_at env ?p ?w)"] exI [of _ False])
        (auto simp: spec_defs rmdir_at_def Let_def case_prod_beta)
  next
    case ret0: True
    with mk abs have dir: "\<exists>es. walk (at_path (vcwd env) ?p) t = Some (Dir es)" by (auto intro: util_mkdir_p_dir)
    let ?b = "vmem env (ticks ?w)"
    let ?w' = "set_vols (snd (smap_insert ?b nm (new_volume g nm) (vols_by_name g))) (?w\<lparr>ticks := Suc (ticks ?w)\<rparr>)"
    have "volume_create_nolock env nm w = Some (Some (new_volume g nm), ?w')"
      using step ret0 assms(1) by (simp add: insert_vol_eq [where g = g])
    with dir assms(1) show ?thesis
      by (intro exI [of _ "Some (new_volume g nm)"] exI [of _ ?w'] exI [of _ ?b]) (auto simp: vworld_simps)
  qed
qed

lemma local_create_spec:
  assumes "g_volumes w = Some g" "\<not> mutex g" "vols_wf g"
  shows "\<exists>r w' m. local_volume_create env nm w = Some (r, w') \<and> g_volumes w' = Some (g\<lparr>vols_by_name := m\<rparr>) \<and>
    vols_wf (g\<lparr>vols_by_name := m\<rparr>) \<and>
    (m = vols_by_name g \<or> util_valid_volume_name nm \<and> smap_find nm (vols_by_name g) = None \<and>
       m = snd (smap_insert True nm (new_volume g nm) (vols_by_name g))) \<and>
    (r \<noteq> None \<longrightarrow> util_valid_volume_name nm \<and> r = Some (the_volume g nm)) \<and>
    (r \<noteq> None \<and> smap_find nm (vols_by_name g) = None \<longrightarrow>
       (\<exists>es. walk (at_path (vcwd env) (data_dir_of g nm)) (files w') = Some (Dir es))) \<and>
    (smap_find nm (vols_by_name g) \<noteq> None \<longrightarrow> files w' = files w \<and> ((\<forall>i. vmem env i) \<and> util_valid_volume_name nm \<longrightarrow> r \<noteq> None)) \<and>
    ((\<forall>i. vmem env i) \<and> r \<noteq> None \<longrightarrow> smap_find nm m \<noteq> None)"
proof (cases "util_valid_volume_name nm")
  case False
  then show ?thesis using assms
    by (intro exI [of _ None] exI [of _ "try_errmsg (''failed to create volume, invalid volume name '' @ nm) w"] exI [of _ "vols_by_name g"])
      (auto simp: local_volume_create_def vworld_simps)
next
  case True
  define gl where "gl = g\<lparr>mutex := True\<rparr>"
  define wl where "wl = w\<lparr>g_volumes := Some gl\<rparr>"
  have gl: "vols_by_name gl = vols_by_name g" "new_volume gl nm = new_volume g nm" "data_dir_of gl nm = data_dir_of g nm" "vols_wf gl"
    using assms(3) by (simp_all add: gl_def new_volume_def vols_wf_def)
  have wl: "g_volumes wl = Some gl" "files wl = files w" by (simp_all add: wl_def)
  have step: "local_volume_create env nm w = do {
      (v, w) \<leftarrow> volume_create_nolock env nm wl;
      case v of None \<Rightarrow> Some (None, mutex_unlock w)
      | Some v \<Rightarrow> let (r, w) = dup_volume env (v_name v) (v_path v) w in Some (r, mutex_unlock w) }"
    using True assms(1,2) by (simp add: local_volume_create_def vworld_simps wl_def gl_def)
  have unl: "map_option (\<lambda>g. g\<lparr>mutex := False\<rparr>) (Some (gl\<lparr>vols_by_name := m\<rparr>)) = Some (g\<lparr>vols_by_name := m\<rparr>)" for m
    using assms(2) by (simp add: gl_def)
  show ?thesis
  proof (cases "smap_find nm (vols_by_name g)")
    case (Some v)
    note v = vols_wf_find [OF assms(3) True Some]
    let ?r = "if vmem env (ticks wl) then Some (the_volume g nm) else None"
    let ?w = "mutex_unlock (wl\<lparr>ticks := Suc (ticks wl)\<rparr>)"
    have "local_volume_create env nm w = Some (?r, ?w)"
      using step Some wl gl(1) v by (simp add: volume_create_nolock_def dup_volume_eq)
    moreover have "g_volumes ?w = Some (g\<lparr>vols_by_name := vols_by_name g\<rparr>)"
      using wl(1) unl [of "vols_by_name g"] gl(1) by (simp add: vworld_simps gl_def)
    moreover have "files ?w = files w" using wl(2) by (simp add: vworld_simps)
    ultimately show ?thesis using True Some assms(3)
      by (intro exI [of _ ?r] exI [of _ ?w] exI [of _ "vols_by_name g"]) auto
  next
    case None
    from create_new_spec [OF wl(1) gl(4) True, of env] None gl obtain r0 w0 b where
      c: "volume_create_nolock env nm wl = Some (r0, w0)"
      "g_volumes w0 = Some (gl\<lparr>vols_by_name := snd (smap_insert b nm (new_volume g nm) (vols_by_name g))\<rparr>)"
      "r0 \<noteq> None \<longrightarrow> r0 = Some (new_volume g nm) \<and> (\<exists>es. walk (at_path (vcwd env) (data_dir_of g nm)) (files w0) = Some (Dir es))"
      "b \<longrightarrow> r0 \<noteq> None" "(\<forall>i. vmem env i) \<longrightarrow> b = (r0 \<noteq> None)" by auto
    let ?m = "snd (smap_insert b nm (new_volume g nm) (vols_by_name g))"
    have wf: "vols_wf (g\<lparr>vols_by_name := ?m\<rparr>)"
      using assms(3) True by (intro vols_wf_insert) (simp_all add: new_volume_def)
    have m: "?m = vols_by_name g \<or> util_valid_volume_name nm \<and> smap_find nm (vols_by_name g) = None \<and>
       ?m = snd (smap_insert True nm (new_volume g nm) (vols_by_name g))"
      using True None by (cases b) (simp_all add: spec_defs)
    have found: "b \<Longrightarrow> smap_find nm ?m \<noteq> None"
      using None smap.ins_find [of nm nm "vols_by_name g" True "new_volume g nm"] smap.ins_ret [of nm "vols_by_name g" True]
        valid_name_c_str [OF True] assms(3) by (simp add: vols_wf_def)
    let ?r = "if r0 \<noteq> None \<and> vmem env (ticks w0) then Some (the_volume g nm) else None"
    let ?w = "mutex_unlock (if r0 = None then w0 else w0\<lparr>ticks := Suc (ticks w0)\<rparr>)"
    have "local_volume_create env nm w = Some (?r, ?w)"
      using step c(1,3) by (cases r0) (auto simp: new_volume_def dup_volume_eq)
    moreover have "g_volumes ?w = Some (g\<lparr>vols_by_name := ?m\<rparr>)" using c(2) unl [of ?m] by (simp add: vworld_simps)
    moreover have "files ?w = files w0" by (simp add: vworld_simps)
    ultimately show ?thesis using True wf m found c(3,4,5) None
      by (intro exI [of _ ?r] exI [of _ ?w] exI [of _ ?m]) (auto split: if_splits)
  qed
qed

lemma last_slash_at: "i < length p \<Longrightarrow> 0 < i \<Longrightarrow> p ! i = CHR ''/'' \<Longrightarrow> (\<forall>j. i < j \<and> j \<le> k \<longrightarrow> p ! j \<noteq> CHR ''/'') \<Longrightarrow> i \<le> k \<Longrightarrow>
    last_slash_above_0 p k = i"
proof (induction k)
  case (Suc k)
  then show ?case by (cases "i = Suc k") auto
qed simp

lemma util_path_dir_under: "d \<noteq> [] \<Longrightarrow> CHR ''/'' \<notin> set c \<Longrightarrow> util_path_dir (Some (d @ ''/'' @ c)) = Some d"
proof -
  assume d: "d \<noteq> []" "CHR ''/'' \<notin> set c"
  let ?p = "d @ ''/'' @ c"
  have "?p ! j \<noteq> CHR ''/''" if "length d < j" "j \<le> length ?p - 1" for j
  proof -
    have "j - Suc (length d) < length c" using that by simp
    from nth_mem [OF this] d(2) have "c ! (j - Suc (length d)) \<noteq> CHR ''/''" by metis
    with that(1) show ?thesis by (simp add: nth_append nth_Cons')
  qed
  then have "last_slash_above_0 ?p (length ?p - 1) = length d"
    using d by (intro last_slash_at) (auto simp: nth_append)
  then show ?thesis using d by (simp add: util_path_dir_def)
qed

lemma volume_paths:
  assumes "vols_wf g" "util_valid_volume_name nm"
  shows "util_path_dir (Some (data_dir_of g nm)) = Some (vol_dir_of g nm)"
    and "at_path cwd (vol_dir_of g nm) = at_path cwd (root_dir g) @ [nm]"
    and "at_path cwd (data_dir_of g nm) = at_path cwd (vol_dir_of g nm) @ [LOCAL_VOLUME_DATA_DIR_NAME]"
    and "util_has_prefix (Some (vol_dir_of g nm)) (Some (root_dir g))" "length (vol_dir_of g nm) > length (root_dir g) + 1"
proof -
  have r: "root_dir g \<noteq> []" "vol_dir_of g nm \<noteq> []" using root_ok_hd assms(1) by (auto simp: vols_wf_def vol_dir_of_def)
  have n: "proper_comp nm" "CHR ''/'' \<notin> set LOCAL_VOLUME_DATA_DIR_NAME" "nm \<noteq> []"
    using valid_name_proper [OF assms(2)] valid_name_chars [OF assms(2)] by (simp_all add: LOCAL_VOLUME_DATA_DIR_NAME_def)
  show "util_path_dir (Some (data_dir_of g nm)) = Some (vol_dir_of g nm)"
    unfolding data_dir_of_def by (rule util_path_dir_under [OF r(2) n(2)])
  show "at_path cwd (vol_dir_of g nm) = at_path cwd (root_dir g) @ [nm]"
    unfolding vol_dir_of_def by (rule at_path_under [OF r(1) n(1)])
  show "at_path cwd (data_dir_of g nm) = at_path cwd (vol_dir_of g nm) @ [LOCAL_VOLUME_DATA_DIR_NAME]"
    unfolding data_dir_of_def by (rule at_path_under [OF r(2) data_name_proper])
  show "util_has_prefix (Some (vol_dir_of g nm)) (Some (root_dir g))" "length (vol_dir_of g nm) > length (root_dir g) + 1"
    using n(3) by (simp_all add: vol_dir_of_def util_has_prefix_def)
qed

lemma walk_snoc: "walk (cs @ [c]) t = Some n \<Longrightarrow> \<exists>es. walk cs t = Some (Dir es)"
  by (induction cs t rule: walk.induct) (auto split: fnode.splits option.splits)

lemma rmdir_at_eq:
  assumes "rmdir_at env p w = (failed, w')"
  shows "\<exists>n. files w' = put (at_path (vcwd env) p) n (files w)" "g_volumes w' = g_volumes w"
    and "\<forall>p n n'. rm_rf (vdisk env) p n = (True, n') \<longrightarrow> n' = None \<Longrightarrow> at_path (vcwd env) p = cs @ [c] \<Longrightarrow> \<not> failed \<Longrightarrow>
      walk (cs @ [c]) (files w) = Some (Dir es) \<Longrightarrow> walk (cs @ [c]) (files w') = None"
proof -
  let ?n = "util_recursive_rmdir (rm_mem env) (vdisk env) p 0 (walk (at_path (vcwd env) p) (files w))"
  have w': "failed = fst ?n" "w' = w\<lparr>files := put (at_path (vcwd env) p) (snd ?n) (files w)\<rparr>"
    using assms by (auto simp: rmdir_at_def Let_def case_prod_beta)
  then show "\<exists>n. files w' = put (at_path (vcwd env) p) n (files w)" "g_volumes w' = g_volumes w" by auto
  assume a: "\<forall>p n n'. rm_rf (vdisk env) p n = (True, n') \<longrightarrow> n' = None" "at_path (vcwd env) p = cs @ [c]" "\<not> failed"
    "walk (cs @ [c]) (files w) = Some (Dir es)"
  then have "?n = (False, snd ?n)" using w'(1) by (simp add: prod_eq_iff)
  then have "snd ?n = None" using recursive_rmdir_sound [OF a(1), of "rm_mem env" p 0 es "snd ?n"] a(2,4) by simp
  moreover obtain ds where "walk cs (files w) = Some (Dir ds)" using walk_snoc [OF a(4)] by blast
  ultimately show "walk (cs @ [c]) (files w') = None" using walk_put_same [of cs "files w" ds c None] w'(2) a(2) by simp
qed

text \<open>Removing the directories of a volume leaves everything beside them alone.\<close>

lemma remove_volume_dir_spec:
  assumes "g_volumes w = Some g" "vols_wf g" "util_valid_volume_name nm"
  shows "\<exists>r w'. remove_volume_dir env (data_dir_of g nm) w = Some (r, w') \<and> g_volumes w' = Some g \<and>
    (\<forall>ds. \<not> prefix (at_path (vcwd env) (vol_dir_of g nm)) ds \<and> \<not> prefix ds (at_path (vcwd env) (vol_dir_of g nm)) \<longrightarrow>
       walk ds (files w') = walk ds (files w)) \<and>
    ((\<forall>p n n'. rm_rf (vdisk env) p n = (True, n') \<longrightarrow> n' = None) \<and> r = 0 \<and>
       (\<exists>es. walk (at_path (vcwd env) (vol_dir_of g nm)) (files w) = Some (Dir es)) \<longrightarrow>
       walk (at_path (vcwd env) (vol_dir_of g nm)) (files w') = None)"
proof -
  note p = volume_paths [OF assms(2,3)]
  let ?cs = "at_path (vcwd env) (vol_dir_of g nm)"
  obtain f1 w1 where r1: "rmdir_at env (data_dir_of g nm) w = (f1, w1)" by (rule prod.exhaust)
  obtain f2 w2 where r2: "rmdir_at env (vol_dir_of g nm) w1 = (f2, w2)" by (rule prod.exhaust)
  note e1 = rmdir_at_eq [OF r1] and e2 = rmdir_at_eq [OF r2]
  have step: "\<exists>w'. remove_volume_dir env (data_dir_of g nm) w = Some (if f1 \<or> f2 then -1 else 0, w') \<and>
      g_volumes w' = Some g \<and> files w' = files (if f1 then w1 else w2)"
    using assms(1) p(1,4,5) r1 r2 e1(2) e2(2) by (auto simp: remove_volume_dir_def vworld_simps)
  have same: "walk ds (files w1) = walk ds (files w)" "walk ds (files w2) = walk ds (files w)"
    if "\<not> prefix ?cs ds" "\<not> prefix ds ?cs" for ds
  proof -
    have "\<not> prefix (?cs @ [c]) ds" "\<not> prefix ds (?cs @ [c])" for c
      using that append_prefixD by (auto simp: prefix_snoc)
    then show "walk ds (files w1) = walk ds (files w)" using e1(1) p(3) by (auto simp: walk_put_disjoint)
    with that show "walk ds (files w2) = walk ds (files w)" using e2(1) by (auto simp: walk_put_disjoint)
  qed
  have gone: "walk ?cs (files w2) = None"
    if "\<forall>p n n'. rm_rf (vdisk env) p n = (True, n') \<longrightarrow> n' = None" "\<not> f2" "walk ?cs (files w) = Some (Dir es)" for es
  proof -
    from e1(1) obtain n where "files w1 = put (?cs @ [LOCAL_VOLUME_DATA_DIR_NAME]) n (files w)" using p(3) by auto
    with walk_put_parent [OF that(3)] obtain es' where "walk ?cs (files w1) = Some (Dir es')" by auto
    with e2(3) [OF that(1), of "at_path (vcwd env) (root_dir g)" nm es'] that(2) p(2) show ?thesis by simp
  qed
  from step obtain w' where w': "remove_volume_dir env (data_dir_of g nm) w = Some (if f1 \<or> f2 then -1 else 0, w')"
    "g_volumes w' = Some g" "files w' = files (if f1 then w1 else w2)" by blast
  show ?thesis
    by (rule exI [of _ "if f1 \<or> f2 then -1 else 0"], rule exI [of _ w']) (use w' same gone in \<open>auto split: if_splits\<close>)
qed

lemma local_remove_spec:
  assumes "g_volumes w = Some g" "\<not> mutex g" "vols_wf g"
  shows "\<exists>r w' m. local_volume_remove env nm w = Some (r, w') \<and> g_volumes w' = Some (g\<lparr>vols_by_name := m\<rparr>) \<and>
    vols_wf (g\<lparr>vols_by_name := m\<rparr>) \<and> (r \<noteq> 0 \<longrightarrow> m = vols_by_name g) \<and>
    (r = 0 \<longrightarrow> util_valid_volume_name nm \<and> smap_find nm (vols_by_name g) \<noteq> None \<and> m = store_del rbtree_str_cmp nm (vols_by_name g)) \<and>
    (\<forall>ds. \<not> prefix (at_path (vcwd env) (vol_dir_of g nm)) ds \<and> \<not> prefix ds (at_path (vcwd env) (vol_dir_of g nm)) \<longrightarrow>
       walk ds (files w') = walk ds (files w)) \<and>
    ((\<forall>p n n'. rm_rf (vdisk env) p n = (True, n') \<longrightarrow> n' = None) \<and> r = 0 \<and>
       (\<exists>es. walk (at_path (vcwd env) (vol_dir_of g nm)) (files w) = Some (Dir es)) \<longrightarrow>
       walk (at_path (vcwd env) (vol_dir_of g nm)) (files w') = None)"
proof (cases "util_valid_volume_name nm \<and> smap_find nm (vols_by_name g) \<noteq> None")
  case False
  have gg: "g\<lparr>mutex := True, mutex := False\<rparr> = g" using assms(2) by simp
  have "\<exists>r w'. local_volume_remove env nm w = Some (r, w') \<and> r \<noteq> 0 \<and> g_volumes w' = Some g \<and> files w' = files w"
    using False assms(1,2) gg
    by (cases "util_valid_volume_name nm")
      (auto simp: local_volume_remove_def volume_remove_nolock_def vworld_simps VOLUME_ERR_NOT_EXIST_def)
  then obtain r w' where "local_volume_remove env nm w = Some (r, w')" "r \<noteq> 0" "g_volumes w' = Some g" "files w' = files w" by blast
  with assms(3) show ?thesis
    by (intro exI [of _ r] exI [of _ w'] exI [of _ "vols_by_name g"]) simp
next
  case True
  then obtain v where v: "smap_find nm (vols_by_name g) = Some v" by blast
  from True have nm: "util_valid_volume_name nm" by blast
  define gl where "gl = g\<lparr>mutex := True\<rparr>"
  define wl where "wl = w\<lparr>g_volumes := Some gl\<rparr>"
  have gl: "vols_by_name gl = vols_by_name g" "data_dir_of gl nm = data_dir_of g nm" "vol_dir_of gl nm = vol_dir_of g nm" "vols_wf gl"
    using assms(3) by (simp_all add: gl_def vols_wf_def vol_dir_of_def)
  have wl: "g_volumes wl = Some gl" "files wl = files w" by (simp_all add: wl_def)
  from remove_volume_dir_spec [OF wl(1) gl(4) nm, of env] obtain r0 w0 where
    r0: "remove_volume_dir env (data_dir_of g nm) wl = Some (r0, w0)" "g_volumes w0 = Some gl"
    "\<forall>ds. \<not> prefix (at_path (vcwd env) (vol_dir_of g nm)) ds \<and> \<not> prefix ds (at_path (vcwd env) (vol_dir_of g nm)) \<longrightarrow>
       walk ds (files w0) = walk ds (files w)"
    "(\<forall>p n n'. rm_rf (vdisk env) p n = (True, n') \<longrightarrow> n' = None) \<and> r0 = 0 \<and>
       (\<exists>es. walk (at_path (vcwd env) (vol_dir_of g nm)) (files w) = Some (Dir es)) \<longrightarrow>
       walk (at_path (vcwd env) (vol_dir_of g nm)) (files w0) = None"
    unfolding gl wl(2) by blast
  let ?m = "if r0 = 0 then store_del rbtree_str_cmp nm (vols_by_name g) else vols_by_name g"
  let ?w = "mutex_unlock (if r0 = 0 then set_vols ?m w0 else w0)"
  have "local_volume_remove env nm w = Some (if r0 = 0 then 0 else -1, ?w)"
    using nm assms(1,2) v gl(1) r0(1,2) vols_wf_find [OF assms(3) nm v] wl
    by (simp add: local_volume_remove_def volume_remove_nolock_def vworld_simps spec_defs wl_def [symmetric] gl_def [symmetric])
  moreover have "g_volumes ?w = Some (g\<lparr>vols_by_name := ?m\<rparr>)" "files ?w = files w0"
    using r0(2) assms(2) by (simp_all add: vworld_simps gl_def)
  moreover have "vols_wf (g\<lparr>vols_by_name := ?m\<rparr>)" using assms(3) vols_wf_remove [OF assms(3) nm] by simp
  ultimately show ?thesis using r0(3,4) nm v
    by (intro exI [of _ "if r0 = 0 then 0 else -1"] exI [of _ ?w] exI [of _ ?m]) auto
qed

lemma copy_volumes_spec:
  "(\<forall>v \<in> set vs. v_path v = data_dir_of g (v_name v)) \<Longrightarrow> \<exists>r k. copy_volumes env vs w = (r, w\<lparr>ticks := k\<rparr>) \<and>
     ((\<forall>i. vmem env i) \<longrightarrow> r \<noteq> None) \<and> (r \<noteq> None \<longrightarrow> r = Some (map (\<lambda>v. the_volume g (v_name v)) vs))"
proof (induction vs arbitrary: w)
  case Nil
  have "w = w\<lparr>ticks := ticks w\<rparr>" by simp
  then show ?case by (metis copy_volumes.simps(1) list.simps(8) option.discI)
next
  case (Cons v vs)
  have dup: "dup_volume env (v_name v) (v_path v) w =
      (if vmem env (ticks w) then Some (the_volume g (v_name v)) else None, w\<lparr>ticks := Suc (ticks w)\<rparr>)"
    using Cons.prems by (simp add: dup_volume_eq)
  show ?case
  proof (cases "vmem env (ticks w)")
    case False
    with dup show ?thesis by auto
  next
    case True
    from Cons.IH [of "w\<lparr>ticks := Suc (ticks w)\<rparr>"] Cons.prems obtain r k where
      "copy_volumes env vs (w\<lparr>ticks := Suc (ticks w)\<rparr>) = (r, w\<lparr>ticks := k\<rparr>)"
      "(\<forall>i. vmem env i) \<longrightarrow> r \<noteq> None" "r \<noteq> None \<longrightarrow> r = Some (map (\<lambda>v. the_volume g (v_name v)) vs)" by auto
    with True dup show ?thesis by auto
  qed
qed

lemma local_list_spec:
  assumes "g_volumes w = Some g" "\<not> mutex g" "vols_wf g"
  shows "\<exists>r w' b. local_volume_list env w = Some (r, w') \<and> g_volumes w' = Some (g\<lparr>mutex := b\<rparr>) \<and> files w' = files w \<and>
    (r \<noteq> None \<longrightarrow> \<not> b \<and> r = Some (map (\<lambda>(k, v). the_volume g k) (vols_by_name g))) \<and>
    ((\<forall>i. vmem env i) \<and> 8 * length (vols_by_name g) \<le> MAX_MEMORY_SIZE \<longrightarrow> r \<noteq> None) \<and>
    (b \<longleftrightarrow> \<not> fst (new_empty_volumes env (length (vols_by_name g)) w))"
proof -
  let ?sz = "length (vols_by_name g)"
  define gl where "gl = g\<lparr>mutex := True\<rparr>"
  define wl where "wl = w\<lparr>g_volumes := Some gl\<rparr>"
  have wl: "g_volumes wl = Some gl" "files wl = files w" "vols_by_name gl = vols_by_name g" by (simp_all add: wl_def gl_def)
  have "\<exists>k. new_empty_volumes env ?sz wl = (fst (new_empty_volumes env ?sz w), wl\<lparr>ticks := k\<rparr>)"
    by (auto simp: new_empty_volumes_def vcalloc_def wl_def Let_def split: if_splits)
  then obtain k where ne: "new_empty_volumes env ?sz wl = (fst (new_empty_volumes env ?sz w), wl\<lparr>ticks := k\<rparr>)" by blast
  let ?vs = "map snd (vols_by_name g)"
  have "\<forall>v \<in> set ?vs. v_path v = data_dir_of g (v_name v)" using assms(3) by (auto simp: vols_wf_def)
  from copy_volumes_spec [OF this, of env "wl\<lparr>ticks := Suc k\<rparr>"] obtain rs j where
    cp: "copy_volumes env ?vs (wl\<lparr>ticks := Suc k\<rparr>) = (rs, wl\<lparr>ticks := j\<rparr>)" "(\<forall>i. vmem env i) \<longrightarrow> rs \<noteq> None"
    "rs \<noteq> None \<longrightarrow> rs = Some (map (\<lambda>v. the_volume g (v_name v)) ?vs)" by auto
  have names: "map (\<lambda>v. the_volume g (v_name v)) ?vs = map (\<lambda>(k, v). the_volume g k) (vols_by_name g)"
    using assms(3) by (auto simp: vols_wf_def)
  let ?w = "if \<not> fst (new_empty_volumes env ?sz w) then wl\<lparr>ticks := k\<rparr>
    else mutex_unlock (if vmem env k then wl\<lparr>ticks := j\<rparr> else wl\<lparr>ticks := Suc k\<rparr>)"
  let ?r = "if fst (new_empty_volumes env ?sz w) \<and> vmem env k then rs else None"
  have "local_volume_list env w = Some (?r, ?w)"
    using assms(1,2) ne cp(1) wl
    by (simp add: local_volume_list_def vworld_simps gl_def [symmetric] wl_def [symmetric])
      (simp add: vcalloc_def small_calloc MAX_MEMORY_SIZE_def)
  moreover have "g_volumes ?w = Some (g\<lparr>mutex := \<not> fst (new_empty_volumes env ?sz w)\<rparr>)" "files ?w = files w"
    using wl by (auto simp: vworld_simps gl_def)
  moreover have "fst (new_empty_volumes env ?sz w)" if "\<forall>i. vmem env i" "8 * ?sz \<le> MAX_MEMORY_SIZE"
    using that by (simp add: new_empty_volumes_def vcalloc_def Let_def util_common_calloc_s_def MAX_MEMORY_SIZE_def)
  ultimately show ?thesis using cp(2,3) names
    by (intro exI [of _ ?r] exI [of _ ?w] exI [of _ "\<not> fst (new_empty_volumes env ?sz w)"]) auto
qed

subsection \<open>Loading\<close>

lemma util_path_join_clean:
  assumes "root_ok d" "proper_comp c" "util_path_join cwd (Some d) (Some c) = Some p"
  shows "p = d @ ''/'' @ c"
proof -
  from assms(1) obtain st where st: "st \<noteq> []" "list_all proper_comp st" "d = join_slash st" by (auto simp: root_ok_def)
  then have dc: "d @ ''/'' @ c = join_slash (st @ [c])" by simp
  have pr: "list_all proper_comp (st @ [c])" using st(2) assms(2) by simp
  have sl: "ISSLASH (hd (d @ ''/'' @ c))" "d @ ''/'' @ c \<noteq> []" using root_ok_hd [OF assms(1)] by auto
  have len: "length (d @ ''/'' @ c) < PATH_MAX" and cl: "util_clean_path cwd (Some (d @ ''/'' @ c)) (Some PATH_MAX) = Some p"
    using assms(3) by (auto simp: util_path_join_def Let_def split: if_splits)
  have "util_clean_path cwd (Some (d @ ''/'' @ c)) (Some PATH_MAX) = Some (render (foldl norm_step [] (comps (d @ ''/'' @ c))))"
    using sl len by (intro util_clean_path_normal_form) (auto simp: clean_input_def clean_room_def)
  moreover have "comps (d @ ''/'' @ c) = st @ [c]" unfolding dc by (rule comps_join_slash [OF proper_good [OF pr]])
  ultimately show ?thesis using cl foldl_norm_id [OF pr, of "[]"] dc by (simp add: render_def)
qed

lemma build_data_dir:
  assumes "root_ok (root_dir g)" "build_and_valid_data_dir env (root_dir g) nm w = Some d"
  shows "util_valid_volume_name nm \<and> d = data_dir_of g nm"
proof -
  from assms(2) obtain v where v: "util_valid_volume_name nm" "util_path_join (Some (vcwd env)) (Some (root_dir g)) (Some nm) = Some v"
    "util_path_join (Some (vcwd env)) (Some v) (Some LOCAL_VOLUME_DATA_DIR_NAME) = Some d"
    by (auto simp: build_and_valid_data_dir_def split: if_splits bind_splits)
  have "v = vol_dir_of g nm" unfolding vol_dir_of_def by (rule util_path_join_clean [OF assms(1) valid_name_proper [OF v(1)] v(2)])
  moreover have "root_ok v"
  proof -
    from assms(1) obtain st where "st \<noteq> []" "list_all proper_comp st" "root_dir g = join_slash st" by (auto simp: root_ok_def)
    then show ?thesis using valid_name_proper [OF v(1)] \<open>v = vol_dir_of g nm\<close>
      by (auto simp: root_ok_def vol_dir_of_def intro: exI [of _ "st @ [nm]"])
  qed
  ultimately show ?thesis using util_path_join_clean [OF _ data_name_proper v(3)] v(1) by (simp add: data_dir_of_def)
qed

lemma load_volume_spec:
  assumes "g_volumes w = Some g" "\<not> mutex g" "vols_wf g"
  shows "\<exists>w' m. load_volume env (root_dir g) nm w = Some (True, w') \<and> g_volumes w' = Some (g\<lparr>vols_by_name := m\<rparr>) \<and>
    vols_wf (g\<lparr>vols_by_name := m\<rparr>) \<and> files w' = files w"
proof (cases "build_and_valid_data_dir env (root_dir g) nm w")
  case None
  with assms show ?thesis by (intro exI [of _ w] exI [of _ "vols_by_name g"]) (simp add: load_volume_def)
next
  case (Some d)
  with build_data_dir [of g env nm w d] assms(3) have d: "util_valid_volume_name nm" "d = data_dir_of g nm" by (auto simp: vols_wf_def)
  have gm: "g\<lparr>mutex := False\<rparr> = g" using assms(2) by simp
  let ?b = "vmem env (ticks w)" and ?b1 = "vmem env (Suc (ticks w))"
  let ?m = "if ?b then snd (smap_insert ?b1 nm (the_volume g nm) (vols_by_name g)) else vols_by_name g"
  have "\<exists>w'. load_volume env (root_dir g) nm w = Some (True, w') \<and> g_volumes w' = Some (g\<lparr>vols_by_name := ?m\<rparr>) \<and> files w' = files w"
    using assms(1,2) Some d(2) gm
    by (auto simp: load_volume_def vworld_simps insert_vol_eq [where g = "g\<lparr>mutex := True\<rparr>"])
  moreover have "vols_wf (g\<lparr>vols_by_name := ?m\<rparr>)"
    using assms(3) vols_wf_insert [OF assms(3) d(1), of "the_volume g nm" ?b1] by (simp add: the_volume_def)
  ultimately show ?thesis by blast
qed

lemma scan_volumes_spec:
  "g_volumes w = Some g \<Longrightarrow> \<not> mutex g \<Longrightarrow> vols_wf g \<Longrightarrow>
   \<exists>w' m. scan_loop (load_volume env (root_dir g)) nms w = Some (0, w') \<and> g_volumes w' = Some (g\<lparr>vols_by_name := m\<rparr>) \<and>
     vols_wf (g\<lparr>vols_by_name := m\<rparr>) \<and> files w' = files w"
proof (induction nms arbitrary: w g)
  case Nil
  then show ?case by (intro exI [of _ w] exI [of _ "vols_by_name g"]) simp
next
  case (Cons nm nms)
  from load_volume_spec [OF Cons.prems] obtain w1 m where
    w1: "load_volume env (root_dir g) nm w = Some (True, w1)" "g_volumes w1 = Some (g\<lparr>vols_by_name := m\<rparr>)"
    "vols_wf (g\<lparr>vols_by_name := m\<rparr>)" "files w1 = files w" by blast
  from Cons.IH [OF w1(2) _ w1(3)] Cons.IH [OF Cons.prems] w1 Cons.prems(2) show ?case by auto
qed

subsection \<open>What the driver promises\<close>

lemma local_okE:
  assumes "local_ok w"
  obtains g where "g_volumes w = Some g" "\<not> mutex g" "vols_wf g"
  using assms by (auto simp: local_ok_def)

lemma local_ok_vols: "g_volumes w = Some (g\<lparr>vols_by_name := m\<rparr>) \<Longrightarrow> \<not> mutex g \<Longrightarrow> vols_wf (g\<lparr>vols_by_name := m\<rparr>) \<Longrightarrow> local_ok w"
  by (simp add: local_ok_def)

lemma local_init_ok:
  assumes "root_ok dir" "local_volume_init env mi (Some dir) w = Some (0, w')"
  shows "local_ok w'"
proof -
  obtain g0 w0 where ne: "new_empty_volumes_info env w = (g0, w0)" by (rule prod.exhaust)
  with assms(2) have g0: "g0 = Some \<lparr>root_dir = [], mutex = False, vols_by_name = []\<rparr>" "mi = 0"
    by (auto simp: local_volume_init_def new_empty_volumes_info_def Let_def split: if_splits prod.splits)
  let ?g = "\<lparr>root_dir = dir, mutex = False, vols_by_name = []\<rparr>"
  obtain ret t where mk: "util_mkdir_p (vdisk env) (vcwd env) (Some dir) (files w0) = (ret, t)" by (rule prod.exhaust)
  let ?w = "w0\<lparr>files := t, g_volumes := Some ?g\<rparr>"
  have ret: "ret = 0" "load_volumes env ?w = Some (0, w')"
    using assms(2) ne g0 mk by (auto simp: local_volume_init_def init_volume_root_dir_def Let_def split: if_splits bind_splits)
  then obtain nms where "scan_loop (load_volume env (root_dir ?g)) nms ?w = Some (0, w')"
    by (auto simp: load_volumes_def util_scan_subdirs_def split: option.splits)
  moreover have "vols_wf ?g" using assms(1) by (simp add: vols_wf_def store_ok_def)
  ultimately show ?thesis using scan_volumes_spec [of ?w ?g env nms] by (auto simp: local_ok_def)
qed


definition ex_venv :: vol_env where
  "ex_venv = \<lparr>vmem = all_ok, vdisk = ex_disk_env, vcwd = ''/'', is_lnk = (\<lambda>_. False), rdlink = (\<lambda>_. None), symlink_mem = all_ok,
     rm_mem = True, strerror = ''''\<rparr>"

definition ex_vols :: volumes_info where
  "ex_vols = \<lparr>root_dir = ''/vol'', mutex = False, vols_by_name = []\<rparr>"

definition ex_vworld :: vworld where
  "ex_vworld = \<lparr>g_volumes = Some ex_vols, files = Dir [(''vol'', Dir [])], verrmsg = None, ticks = 0\<rparr>"

lemma ex_root_ok: "root_ok ''/vol''"
  by (auto simp: root_ok_def proper_comp_def good_comp_def intro!: exI [of _ "[''vol'']"])

lemma ex_vols_wf: "vols_wf ex_vols"
  using ex_root_ok by (simp add: vols_wf_def ex_vols_def store_ok_def)

lemma ex_local_ok: "local_ok ex_vworld"
  using ex_vols_wf by (simp add: local_ok_def ex_vworld_def) (simp add: ex_vols_def)

lemma ex_name_valid: "util_valid_volume_name ''db''"
  by (simp add: valid_volume_name_iff isalnum_def code_def)


lemma local_remove_get:
  assumes "\<forall>i. vmem env i" "\<forall>p n n'. rm_rf (vdisk env) p n = (True, n') \<longrightarrow> n' = None" "g_volumes w1 = Some g" "\<not> mutex g" "vols_wf g"
    and "util_valid_volume_name nm" "smap_find nm (vols_by_name g) \<noteq> None" "walk (at_path (vcwd env) (vol_dir_of g nm)) (files w1) = Some (Dir es)"
  shows "\<exists>r w2 u w3. local_volume_remove env nm w1 = Some (r, w2) \<and> local_volume_get env nm w2 = Some (u, w3) \<and>
       (r = 0 \<longrightarrow> u = None \<and> walk (at_path (vcwd env) (vol_dir_of g nm)) (files w2) = None) \<and> (r \<noteq> 0 \<longrightarrow> u = Some (the_volume g nm)) \<and>
       (\<forall>m. util_valid_volume_name m \<and> m \<noteq> nm \<longrightarrow>
          walk (at_path (vcwd env) (data_dir_of g m)) (files w2) = walk (at_path (vcwd env) (data_dir_of g m)) (files w1))"
proof -
  from local_remove_spec [OF assms(3-5), of env nm] assms(2,8) obtain r w2 k where
    r: "local_volume_remove env nm w1 = Some (r, w2)" "g_volumes w2 = Some (g\<lparr>vols_by_name := k\<rparr>)" "vols_wf (g\<lparr>vols_by_name := k\<rparr>)"
    "r \<noteq> 0 \<longrightarrow> k = vols_by_name g" "r = 0 \<longrightarrow> k = store_del rbtree_str_cmp nm (vols_by_name g)"
    "\<forall>ds. \<not> prefix (at_path (vcwd env) (vol_dir_of g nm)) ds \<and> \<not> prefix ds (at_path (vcwd env) (vol_dir_of g nm)) \<longrightarrow>
       walk ds (files w2) = walk ds (files w1)"
    "r = 0 \<longrightarrow> walk (at_path (vcwd env) (vol_dir_of g nm)) (files w2) = None" by blast
  have "r = 0 \<longrightarrow> smap_find nm k = None"
    using r(5) assms(5) valid_name_c_str [OF assms(6)] by (simp add: str_cmp.store_find_del vols_wf_def)
  moreover have "at_path (vcwd env) (data_dir_of g m) = at_path (vcwd env) (root_dir g) @ [m, LOCAL_VOLUME_DATA_DIR_NAME]"
    if "util_valid_volume_name m" for m using volume_paths(2,3) [OF assms(5) that, of "vcwd env"] by simp
  moreover have "\<not> mutex (g\<lparr>vols_by_name := k\<rparr>)" using assms(4) by simp
  note local_get_spec [OF r(2) this r(3), of env nm]
  ultimately show ?thesis using r assms(1,6,7) volume_paths(2) [OF assms(5,6), of "vcwd env"]
    by (auto simp: the_volume_def)
qed


lemma ex_mkdir:
  "util_mkdir_p ex_disk_env ''/'' (Some ''/vol/db/_data'') (Dir [(''vol'', Dir [])]) = (0, Dir [(''vol'', Dir [(''db'', Dir [(''_data'', Dir [])])])])"
  by (simp add: util_mkdir_p_def mkdir_p_loop.simps do_mkdir_def at_path_def comps.simps seg_def seg_end_def PATH_MAX_def ex_disk_env_def Let_def)

lemma ex_created:
  "\<exists>w1. local_volume_create ex_venv ''db'' ex_vworld = Some (Some (the_volume ex_vols ''db''), w1) \<and>
     g_volumes w1 = Some (ex_vols\<lparr>vols_by_name := [(''db'', new_volume ex_vols ''db'')]\<rparr>) \<and>
     files w1 = Dir [(''vol'', Dir [(''db'', Dir [(''_data'', Dir [])])])]"
  using ex_name_valid ex_mkdir
  by (simp add: local_volume_create_def volume_create_nolock_def create_volume_meminfo_def insert_vol_def dup_volume_def vcalloc_def
      mutex_lock_def mutex_unlock_def set_vols_def ex_venv_def ex_vworld_def ex_vols_def the_volume_def new_volume_def data_dir_of_def
      vol_dir_of_def LOCAL_VOLUME_DATA_DIR_NAME_def spec_defs small_calloc MAX_MEMORY_SIZE_def PATH_MAX_def Let_def)




end
