(* ===== verification/Volume_Props.thy ===== *)
theory Volume_Props
  imports Volume Local_Volume_Props
begin

section \<open>Correctness of the registry of volumes\<close>

text \<open>
  The contract of a volume driver as a locale, what the registry guarantees over any driver that keeps it, and
  the local driver as the driver the daemon registers.  Memory is plentiful in the contract; the last
  section shows what happens without it.
\<close>

subsection \<open>References\<close>

text \<open>The container \<open>ref\<close> refers to the volume \<open>nm\<close>.\<close>

definition refers :: "volume_store \<Rightarrow> string \<Rightarrow> string \<Rightarrow> bool" where
  "refers s nm ref \<longleftrightarrow> (case msearch nm (name_refs s) of None \<Rightarrow> False | Some refs \<Rightarrow> smap_find ref refs \<noteq> None)"

text \<open>The maps of references are ordered, and no volume has more than \<open>N\<close> of them.\<close>

definition refs_ok :: "nat \<Rightarrow> volume_store \<Rightarrow> bool" where
  "refs_ok N s \<longleftrightarrow> (\<exists>m. name_refs s = Some m \<and> smap_ok m \<and> (\<forall>(k, r) \<in> set m. smap_ok r \<and> length r \<le> N))"

definition mem_ok :: "vol_env \<Rightarrow> bool" where
  "mem_ok env \<longleftrightarrow> (\<forall>i. vmem env i)"

lemma vsalloc_ok:
  "mem_ok env \<Longrightarrow> 0 < n \<Longrightarrow> n \<le> MAX_MEMORY_SIZE \<Longrightarrow> vsalloc env n s = (True, s\<lparr>world := (world s)\<lparr>ticks := Suc (ticks (world s))\<rparr>\<rparr>)"
  by (simp add: vsalloc_def vcalloc_def mem_ok_def util_common_calloc_s_def)

lemma store_upd_in: "e \<in> set (store_upd cmp k v m) \<Longrightarrow> snd e = v \<or> e \<in> set m"
  by (induction m) (auto split: if_splits)

lemma length_store_ins: "length (store_ins cmp k v m) \<le> Suc (length m)"
  by (induction cmp k v m rule: store_ins.induct) auto

lemma length_store_del: "length (store_del cmp k m) \<le> length m"
  by (induction m) auto

lemma refs_ok_find: "refs_ok N s \<Longrightarrow> msearch nm (name_refs s) = Some refs \<Longrightarrow> smap_ok refs \<and> length refs \<le> N"
  using store_find_set by (fastforce simp: refs_ok_def msearch_def)

lemma refs_ok_mono: "refs_ok N s \<Longrightarrow> N \<le> M \<Longrightarrow> refs_ok M s"
  by (fastforce simp: refs_ok_def)

lemma refs_ok_upd:
  assumes "refs_ok N s" "msearch nm (name_refs s) = Some old" "c_str nm" "smap_ok refs" "length refs \<le> M" "N \<le> M"
  shows "refs_ok M (s\<lparr>name_refs := map_option (store_upd rbtree_str_cmp nm refs) (name_refs s)\<rparr>)"
    and "c_str n \<Longrightarrow> refers (s\<lparr>name_refs := map_option (store_upd rbtree_str_cmp nm refs) (name_refs s)\<rparr>) n r \<longleftrightarrow>
      (if n = nm then smap_find r refs \<noteq> None else refers s n r)"
proof -
  from assms(1) obtain m where m: "name_refs s = Some m" "smap_ok m" "\<forall>(k, r) \<in> set m. smap_ok r \<and> length r \<le> N"
    by (auto simp: refs_ok_def)
  have "\<forall>(k, r) \<in> set (store_upd rbtree_str_cmp nm refs m). smap_ok r \<and> length r \<le> M"
    using store_upd_in [of _ rbtree_str_cmp nm refs m] m(3) assms(4-6) by fastforce
  with m str_cmp.store_upd_ok [OF m(2)] show "refs_ok M (s\<lparr>name_refs := map_option (store_upd rbtree_str_cmp nm refs) (name_refs s)\<rparr>)"
    by (auto simp: refs_ok_def)
  show "refers (s\<lparr>name_refs := map_option (store_upd rbtree_str_cmp nm refs) (name_refs s)\<rparr>) n r \<longleftrightarrow>
      (if n = nm then smap_find r refs \<noteq> None else refers s n r)" if "c_str n"
    using m assms(2,3) that str_cmp.store_find_upd [of nm n m refs] by (auto simp: refers_def msearch_def)
qed


lemma world_ticks: "\<exists>k. w = w\<lparr>ticks := k\<rparr>"
  by (rule exI [of _ "ticks w"]) simp

lemma add_name_ref_ok:
  assumes "mem_ok env" "refs_ok N s" "c_str nm" "c_str ref"
  shows "\<exists>k s'. add_name_ref env nm ref s = (0, s') \<and> refs_ok (Suc N) s' \<and> refers s' nm ref \<and>
    (\<forall>n r. c_str n \<and> c_str r \<and> refers s n r \<longrightarrow> refers s' n r) \<and> drivers s' = drivers s \<and> world s' = (world s)\<lparr>ticks := k\<rparr>"
proof -
  from assms(2) obtain m where m: "name_refs s = Some m" "smap_ok m" "\<forall>(k, r) \<in> set m. smap_ok r \<and> length r \<le> N"
    by (auto simp: refs_ok_def)
  define s1 where "s1 = (if msearch nm (name_refs s) = None then
      s\<lparr>name_refs := Some (store_ins rbtree_str_cmp nm [] m), world := (world s)\<lparr>ticks := Suc (Suc (ticks (world s)))\<rparr>\<rparr> else s)"
  have s1: "refs_ok N s1" "msearch nm (name_refs s1) \<noteq> None" "drivers s1 = drivers s" "\<exists>k. world s1 = (world s)\<lparr>ticks := k\<rparr>"
    "\<forall>n r. c_str n \<longrightarrow> refers s1 n r = refers s n r"
  proof -
    have "smap_find nm m = None \<Longrightarrow> smap_ok (store_ins rbtree_str_cmp nm [] m)" using m assms(3) by (simp add: str_cmp.store_ins_ok)
    moreover have "smap_find nm m = None \<Longrightarrow> c_str n \<Longrightarrow>
        smap_find n (store_ins rbtree_str_cmp nm [] m) = (if n = nm then Some [] else smap_find n m)" for n
      using m assms(3) by (simp add: str_cmp.store_find_ins)
    moreover have "smap_ok ([] :: bool smap)" by (simp add: store_ok_def)
    ultimately show "refs_ok N s1" "msearch nm (name_refs s1) \<noteq> None" "\<forall>n r. c_str n \<longrightarrow> refers s1 n r = refers s n r"
      using m assms(3) by (auto simp: s1_def refs_ok_def msearch_def store_ins_set refers_def split: option.splits)
    show "drivers s1 = drivers s" by (simp add: s1_def)
    show "\<exists>k. world s1 = (world s)\<lparr>ticks := k\<rparr>" using world_ticks [of "world s"] by (auto simp: s1_def)
  qed
  from s1(2) obtain refs where refs: "msearch nm (name_refs s1) = Some refs" by blast
  with refs_ok_find [OF s1(1)] have ro: "smap_ok refs" "length refs \<le> N" by blast+
  have step: "add_name_ref env nm ref s = (if smap_find ref refs \<noteq> None then (0, s1)
      else (0, s1\<lparr>world := (world s1)\<lparr>ticks := Suc (ticks (world s1))\<rparr>,
        name_refs := map_option (store_upd rbtree_str_cmp nm (store_ins rbtree_str_cmp ref True refs)) (name_refs s1)\<rparr>))"
  proof (cases "smap_find nm m")
    case None
    then have "refs = []" using refs m(1) assms(3) str_cmp.store_find_ins [of nm nm m "[]"] m(2) by (auto simp: s1_def msearch_def)
    with None m(1) show ?thesis
      by (simp add: add_name_ref_def msearch_def s1_def vsalloc_ok [OF assms(1)] MAX_MEMORY_SIZE_def spec_defs)
  next
    case (Some r)
    with refs m(1) show ?thesis
      by (auto simp: add_name_ref_def msearch_def s1_def vsalloc_ok [OF assms(1)] MAX_MEMORY_SIZE_def spec_defs)
  qed
  show ?thesis
  proof (cases "smap_find ref refs")
    case None
    let ?refs = "store_ins rbtree_str_cmp ref True refs"
    let ?s = "s1\<lparr>name_refs := map_option (store_upd rbtree_str_cmp nm ?refs) (name_refs s1)\<rparr>"
    let ?s' = "s1\<lparr>world := (world s1)\<lparr>ticks := Suc (ticks (world s1))\<rparr>,
        name_refs := map_option (store_upd rbtree_str_cmp nm ?refs) (name_refs s1)\<rparr>"
    have r': "smap_ok ?refs" "length ?refs \<le> Suc N" using ro None assms(4) length_store_ins [of rbtree_str_cmp ref True refs]
      by (simp_all add: str_cmp.store_ins_ok)
    note u = refs_ok_upd [OF s1(1) refs assms(3) r', OF le_SucI [OF order_refl]]
    have same: "refs_ok M ?s' = refs_ok M ?s" "refers ?s' n r = refers ?s n r" for M n r by (simp_all add: refs_ok_def refers_def)
    have fnd: "smap_find r ?refs = (if r = ref then Some True else smap_find r refs)" if "c_str r" for r
      using that None ro assms(4) by (simp add: str_cmp.store_find_ins)
    have "refers s1 nm r \<longleftrightarrow> smap_find r refs \<noteq> None" for r using refs by (simp add: refers_def)
    with u fnd same s1(5) have "refs_ok (Suc N) ?s'" "refers ?s' nm ref" "\<forall>n r. c_str n \<and> c_str r \<and> refers s n r \<longrightarrow> refers ?s' n r"
      using assms(3,4) by auto
    moreover have "\<exists>k. world ?s' = (world s)\<lparr>ticks := k\<rparr>" using s1(4) by auto
    moreover have "add_name_ref env nm ref s = (0, ?s')" using step None by simp
    moreover have "drivers ?s' = drivers s" using s1(3) by simp
    ultimately show ?thesis by blast
  next
    case (Some b)
    then have "refers s1 nm ref" using refs by (simp add: refers_def)
    with Some step s1 show ?thesis using refs_ok_mono [OF s1(1), of "Suc N"] by auto
  qed
qed

lemma del_name_ref_ok:
  assumes "refs_ok N s" "c_str nm" "c_str ref"
  shows "\<exists>r s'. del_name_ref nm ref s = (r, s') \<and> refs_ok N s' \<and> world s' = world s \<and> drivers s' = drivers s \<and>
    \<not> refers s' nm ref \<and> (\<forall>n r. c_str n \<and> c_str r \<and> (n, r) \<noteq> (nm, ref) \<and> refers s n r \<longrightarrow> refers s' n r)"
proof (cases "msearch nm (name_refs s)")
  case None
  with assms show ?thesis by (auto simp: del_name_ref_def refers_def)
next
  case (Some refs)
  with refs_ok_find [OF assms(1)] have ro: "smap_ok refs" "length refs \<le> N" by blast+
  have rf: "refers s nm r \<longleftrightarrow> smap_find r refs \<noteq> None" for r using Some by (simp add: refers_def)
  show ?thesis
  proof (cases "length refs \<noteq> 0 \<and> smap_find ref refs = None")
    case True
    with Some assms(1) rf show ?thesis by (auto simp: del_name_ref_def spec_defs)
  next
    case False
    let ?refs = "if length refs = 0 then refs else store_del rbtree_str_cmp ref refs"
    have r': "smap_ok ?refs" "length ?refs \<le> N" using ro assms(3) length_store_del [of rbtree_str_cmp ref refs]
      by (simp_all add: str_cmp.store_del_ok)
    define s1 where "s1 = s\<lparr>name_refs := map_option (store_upd rbtree_str_cmp nm ?refs) (name_refs s)\<rparr>"
    have u: "refs_ok N s1" "\<And>n r. c_str n \<Longrightarrow> refers s1 n r = (if n = nm then smap_find r ?refs \<noteq> None else refers s n r)"
      unfolding s1_def using refs_ok_upd [OF assms(1) Some assms(2) r' order_refl] by blast+
    have fnd: "smap_find r ?refs = (if r = ref then None else smap_find r refs)" if "c_str r" for r
      using that ro assms(3) False by (auto simp: str_cmp.store_find_del)
    from u(1) obtain m1 where m1: "name_refs s1 = Some m1" "smap_ok m1" "\<forall>(k, r) \<in> set m1. smap_ok r \<and> length r \<le> N"
      by (auto simp: refs_ok_def)
    have step: "del_name_ref nm ref s = (if length ?refs = 0 then let (b, m) = smap_remove nm m1 in (if b then 0 else -1, s1\<lparr>name_refs := Some m\<rparr>) else (0, s1))"
      using Some False m1(1) by (auto simp: del_name_ref_def spec_defs s1_def)
    have w: "world s1 = world s" "drivers s1 = drivers s" by (simp_all add: s1_def)
    show ?thesis
    proof (cases "length ?refs = 0")
      case False
      with step w u fnd rf assms(2,3) show ?thesis by auto
    next
      case True
      let ?s = "s1\<lparr>name_refs := Some (snd (smap_remove nm m1))\<rparr>"
      have "smap_find n (snd (smap_remove nm m1)) = (if n = nm then None else smap_find n m1)" if "c_str n" for n
        using that assms(2) m1(2) by (auto simp: spec_defs str_cmp.store_find_del)
      then have rs: "refers ?s n r \<longleftrightarrow> n \<noteq> nm \<and> refers s1 n r" if "c_str n" for n r
        using that m1(1) by (simp add: refers_def msearch_def)
      have "refs_ok N ?s"
        using m1 assms(2) store_del_set [of rbtree_str_cmp nm m1] by (auto simp: refs_ok_def spec_defs str_cmp.store_del_ok)
      moreover have "\<not> refers s nm r" if "c_str r" "r \<noteq> ref" for r
        using fnd [OF that(1)] that(2) rf True by auto
      moreover have "\<exists>r. del_name_ref nm ref s = (r, ?s)" using step True by (simp add: case_prod_beta)
      ultimately show ?thesis using rs u(2) w assms(2) by auto
    qed
  qed
qed

lemma get_name_refs_ok:
  assumes "mem_ok env" "refs_ok N s" "8 * N \<le> MAX_MEMORY_SIZE"
  shows "\<exists>v k. get_name_refs env nm s = (v, s\<lparr>world := (world s)\<lparr>ticks := k\<rparr>\<rparr>) \<and> ((\<exists>ref. refers s nm ref) \<longrightarrow> v \<noteq> None \<and> v \<noteq> Some [])"
proof (cases "msearch nm (name_refs s)")
  case None
  then show ?thesis by (intro exI [of _ None] exI [of _ "ticks (world s)"]) (simp add: get_name_refs_def refers_def)
next
  case (Some refs)
  with refs_ok_find [OF assms(2)] have len: "length refs \<le> N" by blast
  show ?thesis
  proof (cases refs)
    case Nil
    with Some have "\<not> refers s nm ref" for ref by (simp add: refers_def)
    then show ?thesis using Some Nil assms(1)
      by (auto simp: get_name_refs_def empty_volume_names_def vsalloc_def vcalloc_def mem_ok_def util_common_calloc_s_def MAX_MEMORY_SIZE_def)
  next
    case (Cons x xs)
    with len assms(3) have "vsalloc env (8 * length refs) t = (True, t\<lparr>world := (world t)\<lparr>ticks := Suc (ticks (world t))\<rparr>\<rparr>)" for t
      by (intro vsalloc_ok [OF assms(1)]) simp_all
    with Some Cons show ?thesis
      by (auto simp: get_name_refs_def empty_volume_names_def vsalloc_ok [OF assms(1)] MAX_MEMORY_SIZE_def)
  qed
qed

subsection \<open>The contract of a driver\<close>

text \<open>The operations of clients on the registry.\<close>

datatype vol_op =
  Create "bool \<times> (nat \<Rightarrow> int option)" string "string option" string | Mount string | Umount string | List
| Add_ref string string | Del_ref string string | Remove string | Prune

definition vol_step :: "vol_env \<Rightarrow> vol_op \<Rightarrow> volume_store \<Rightarrow> volume_store option" where
  "vol_step env x s =
     (case x of
        Create u d n r \<Rightarrow> map_option snd (volume_create env u (Some d) n (Some r) s)
      | Mount n \<Rightarrow> map_option snd (volume_mount env (Some n) s)
      | Umount n \<Rightarrow> map_option snd (volume_umount env (Some n) s)
      | List \<Rightarrow> map_option snd (volume_list env s)
      | Add_ref n r \<Rightarrow> Some (snd (volume_add_ref env (Some n) (Some r) s))
      | Del_ref n r \<Rightarrow> Some (snd (volume_del_ref (Some n) (Some r) s))
      | Remove n \<Rightarrow> map_option snd (volume_remove env (Some n) s)
      | Prune \<Rightarrow> map_option snd (volume_prune env True s))"

fun vol_run :: "vol_env \<Rightarrow> vol_op list \<Rightarrow> volume_store \<Rightarrow> volume_store option" where
  "vol_run env [] s = Some s"
| "vol_run env (x # xs) s = do { s \<leftarrow> vol_step env x s; vol_run env xs s }"

fun op_strs :: "vol_op \<Rightarrow> bool" where
  "op_strs (Create u d n r) = (c_str d \<and> (\<forall>x. n = Some x \<longrightarrow> c_str x) \<and> c_str r)"
| "op_strs (Mount n) = c_str n" | "op_strs (Umount n) = c_str n" | "op_strs List = True"
| "op_strs (Add_ref n r) = (c_str n \<and> c_str r)" | "op_strs (Del_ref n r) = (c_str n \<and> c_str r)"
| "op_strs (Remove n) = c_str n" | "op_strs Prune = True"

text \<open>
  A driver with an invariant of its world, the volumes it has and their number.  Every function is there and returns;
  only removing a volume loses one, and only that one; listing needs memory for the list.
\<close>

locale driver_laws =
  fixes drv :: volume_driver and winv :: "vworld \<Rightarrow> bool" and has :: "string \<Rightarrow> vworld \<Rightarrow> bool" and num :: "vworld \<Rightarrow> nat"
  assumes ticks_free: "winv w \<Longrightarrow> winv (w\<lparr>ticks := k\<rparr>)" "has n (w\<lparr>ticks := k\<rparr>) = has n w" "num (w\<lparr>ticks := k\<rparr>) = num w"
    and errmsg_free: "winv w \<Longrightarrow> winv (try_errmsg e w)" "has n (try_errmsg e w) = has n w" "num (try_errmsg e w) = num w"
    and get_law: "\<exists>f. drv_get drv = Some f \<and>
      (\<forall>n w. winv w \<longrightarrow> (\<exists>v w'. f n w = Some (v, w') \<and> winv w' \<and> (\<forall>m. has m w' = has m w) \<and> num w' \<le> num w))"
    and create_law: "\<exists>f. drv_create drv = Some f \<and>
      (\<forall>n w. winv w \<longrightarrow> (\<exists>v w'. f n w = Some (v, w') \<and> winv w' \<and> (\<forall>m. has m w \<longrightarrow> has m w') \<and> num w' \<le> Suc (num w)))"
    and mount_law: "\<exists>f. drv_mount drv = Some f \<and>
      (\<forall>n w. winv w \<longrightarrow> (\<exists>r w'. f n w = Some (r, w') \<and> winv w' \<and> (\<forall>m. has m w' = has m w) \<and> num w' \<le> num w))"
    and umount_law: "\<exists>f. drv_umount drv = Some f \<and>
      (\<forall>n w. winv w \<longrightarrow> (\<exists>r w'. f n w = Some (r, w') \<and> winv w' \<and> (\<forall>m. has m w' = has m w) \<and> num w' \<le> num w))"
    and list_law: "\<exists>f. drv_list drv = Some f \<and>
      (\<forall>w. winv w \<and> 8 * num w \<le> MAX_MEMORY_SIZE \<longrightarrow> (\<exists>vs w'. f w = Some (vs, w') \<and> winv w' \<and> (\<forall>m. has m w' = has m w) \<and> num w' \<le> num w \<and>
         (\<forall>l. vs = Some l \<longrightarrow> length l \<le> num w)))"
    and remove_law: "\<exists>f. drv_remove drv = Some f \<and>
      (\<forall>n w. winv w \<longrightarrow> (\<exists>r w'. f n w = Some (r, w') \<and> winv w' \<and> (\<forall>m. m \<noteq> n \<longrightarrow> has m w' = has m w) \<and> num w' \<le> num w))"

text \<open>The registry with this driver only, as the daemon starts it; \<open>N\<close> bounds volumes and references.\<close>

definition registry_ok :: "volume_driver \<Rightarrow> (vworld \<Rightarrow> bool) \<Rightarrow> (vworld \<Rightarrow> nat) \<Rightarrow> nat \<Rightarrow> volume_store \<Rightarrow> bool" where
  "registry_ok drv winv num N s \<longleftrightarrow> winv (world s) \<and> num (world s) \<le> N \<and> (\<exists>dn. drivers s = Some [(dn, drv)]) \<and> refs_ok N s"

text \<open>A volume that a container refers to, and nothing lost in a step from \<open>s\<close> to \<open>s'\<close> that is in use.\<close>

definition in_use :: "(string \<Rightarrow> vworld \<Rightarrow> bool) \<Rightarrow> string \<Rightarrow> string \<Rightarrow> volume_store \<Rightarrow> bool" where
  "in_use has nm ref s \<longleftrightarrow> has nm (world s) \<and> refers s nm ref"

lemma hex_digit_code: "n < 16 \<Longrightarrow> isalnum (hex_digit n) \<and> hex_digit n \<noteq> CHR 0x00"
proof -
  assume "n < 16"
  then consider "n < 10" | "10 \<le> n" "n < 16" by linarith
  then show ?thesis
  proof cases
    case 1
    then have "of_char (hex_digit n) = 48 + n" by (simp add: hex_digit_def)
    with 1 show ?thesis by (auto simp: isalnum_def code_def)
  next
    case 2
    then have "of_char (hex_digit n) = 87 + n" by (simp add: hex_digit_def)
    with 2 show ?thesis by (auto simp: isalnum_def code_def)
  qed
qed

text \<open>A generated name is a valid one.\<close>

lemma random_name_valid:
  assumes "util_generate_random_str b reads VOLUME_DEFAULT_NAME_LEN = Some nm"
  shows "util_valid_volume_name nm"
proof -
  let ?f = "\<lambda>i. let rs = nat (the (reads i) mod 256) in [hex_digit (rs div 16), hex_digit (rs mod 16)]"
  have nm: "nm = concat (map ?f [0..<32])"
    using assms by (auto simp: util_generate_random_str_def VOLUME_DEFAULT_NAME_LEN_def split: if_splits)
  have "nat (k mod 256) < 256" for k :: int by (simp add: nat_less_iff)
  then have "nat (k mod 256) div 16 < 16" for k :: int by (metis less_mult_imp_div_less mult_numeral_1 numeral_times_numeral semiring_norm(11,12,13))
  then have "\<forall>c \<in> set (?f i). isalnum c" for i using hex_digit_code by (simp add: Let_def)
  then have all: "\<forall>c \<in> set nm. isalnum c" unfolding nm by auto
  have "length (concat (map ?f xs)) = 2 * length xs" for xs by (induction xs) (simp_all add: Let_def)
  then have "length nm = 64" unfolding nm by simp
  with all show ?thesis by (cases nm) (auto simp: valid_volume_name_iff list_all_iff)
qed

lemma refers_cong: "name_refs s' = name_refs s \<Longrightarrow> refers s' n r = refers s n r" "name_refs s' = name_refs s \<Longrightarrow> refs_ok N s' = refs_ok N s"
  by (simp_all add: refers_def refs_ok_def)

context driver_laws
begin

lemma alloc_ok:
  assumes "mem_ok env" "registry_ok drv winv num N s" "0 < n" "n \<le> MAX_MEMORY_SIZE"
  shows "\<exists>s'. vsalloc env n s = (True, s') \<and> registry_ok drv winv num N s' \<and> name_refs s' = name_refs s \<and> drivers s' = drivers s \<and>
    (\<forall>m. has m (world s') = has m (world s))"
  using vsalloc_ok [OF assms(1,3,4), of s] assms(2) ticks_free by (auto simp: registry_ok_def refs_ok_def)

lemma get_ok: "winv w \<Longrightarrow> \<exists>f v w'. drv_get drv = Some f \<and> f n w = Some (v, w') \<and> winv w' \<and> (\<forall>m. has m w' = has m w) \<and> num w' \<le> num w"
  using get_law by blast

lemma rm_ok: "winv w \<Longrightarrow> \<exists>f r w'. drv_remove drv = Some f \<and> f n w = Some (r, w') \<and> winv w' \<and> (\<forall>m. m \<noteq> n \<longrightarrow> has m w' = has m w) \<and> num w' \<le> num w"
  using remove_law by blast

lemma ls_ok: "winv w \<Longrightarrow> 8 * num w \<le> MAX_MEMORY_SIZE \<Longrightarrow> \<exists>f vs w'. drv_list drv = Some f \<and> f w = Some (vs, w') \<and> winv w' \<and>
    (\<forall>m. has m w' = has m w) \<and> num w' \<le> num w \<and> (\<forall>l. vs = Some l \<longrightarrow> length l \<le> num w)"
  using list_law by blast

lemma lookup_ok:
  assumes "mem_ok env" "registry_ok drv winv num N s"
  shows "\<exists>s'. lookup_driver_by_volume_name env (Some n) s = Some (Some drv, s') \<and> registry_ok drv winv num N s' \<and>
    name_refs s' = name_refs s \<and> (\<forall>m. has m (world s') = has m (world s))"
proof -
  from alloc_ok [OF assms, of 16] obtain s1 where s1: "vsalloc env 16 s = (True, s1)" "registry_ok drv winv num N s1"
    "name_refs s1 = name_refs s" "drivers s1 = drivers s" "\<forall>m. has m (world s1) = has m (world s)" by (auto simp: MAX_MEMORY_SIZE_def)
  from assms(2) obtain dn where dn: "drivers s = Some [(dn, drv)]" by (auto simp: registry_ok_def)
  have "winv (world s1)" using s1(2) by (simp add: registry_ok_def)
  from get_ok [OF this, of n] obtain f v w where f: "drv_get drv = Some f" "f n (world s1) = Some (v, w)" "winv w"
    "\<forall>m. has m w = has m (world s1)" "num w \<le> num (world s1)" by blast
  have "lookup_driver_by_volume_name env (Some n) s = Some (Some drv, s1\<lparr>static_driver := Some drv, world := w\<rparr>)"
    using dn s1(1) f(1,2) by (simp add: lookup_driver_by_volume_name_def)
  then show ?thesis using s1 f(3-5) dn by (auto simp: registry_ok_def refs_ok_def)
qed

lemma remove_ok:
  assumes "mem_ok env" "registry_ok drv winv num N s" "8 * N \<le> MAX_MEMORY_SIZE"
  shows "\<exists>r s'. volume_remove env (Some n) s = Some (r, s') \<and> registry_ok drv winv num N s' \<and> name_refs s' = name_refs s \<and>
    (\<forall>m ref. in_use has m ref s \<longrightarrow> in_use has m ref s')"
proof -
  from lookup_ok [OF assms(1,2), of n] obtain s1 where s1: "lookup_driver_by_volume_name env (Some n) s = Some (Some drv, s1)"
    "registry_ok drv winv num N s1" "name_refs s1 = name_refs s" "\<forall>m. has m (world s1) = has m (world s)" by blast
  from get_name_refs_ok [OF assms(1) _ assms(3), of s1 n] s1(2) obtain v k where
    v: "get_name_refs env n s1 = (v, s1\<lparr>world := (world s1)\<lparr>ticks := k\<rparr>\<rparr>)" "(\<exists>ref. refers s1 n ref) \<longrightarrow> v \<noteq> None \<and> v \<noteq> Some []"
    by (auto simp: registry_ok_def)
  let ?s = "s1\<lparr>world := (world s1)\<lparr>ticks := k\<rparr>\<rparr>"
  have s2: "registry_ok drv winv num N ?s" using s1(2) ticks_free by (auto simp: registry_ok_def refs_ok_def)
  show ?thesis
  proof (cases "\<exists>x xs. v = Some (x # xs)")
    case True
    then obtain x xs where "v = Some (x # xs)" by blast
    then have "\<exists>m. volume_remove env (Some n) s = Some (-1, ?s\<lparr>world := try_errmsg m (world ?s)\<rparr>)"
      using s1(1) v(1) by (auto simp: volume_remove_def)
    then obtain m where m: "volume_remove env (Some n) s = Some (-1, ?s\<lparr>world := try_errmsg m (world ?s)\<rparr>)" by blast
    let ?t = "?s\<lparr>world := try_errmsg m (world ?s)\<rparr>"
    have "registry_ok drv winv num N ?t" using s2 errmsg_free by (auto simp: registry_ok_def refs_ok_def)
    moreover have "\<forall>a b. in_use has a b s \<longrightarrow> in_use has a b ?t"
      using s1(3,4) errmsg_free ticks_free by (simp add: in_use_def refers_def)
    ultimately show ?thesis using m s1(3) by (intro exI [of _ "-1"] exI [of _ ?t]) simp
  next
    case False
    then have nil: "v = None \<or> v = Some []" by (cases v; cases "the v") auto
    then have unused: "\<not> refers s n ref" for ref using v(2) refers_cong(1) [OF s1(3)] by blast
    have "winv (world ?s)" using s2 by (simp add: registry_ok_def)
    from rm_ok [OF this, of n] obtain f r w where f: "drv_remove drv = Some f" "f n (world ?s) = Some (r, w)" "winv w"
      "\<forall>m. m \<noteq> n \<longrightarrow> has m w = has m (world ?s)" "num w \<le> num (world ?s)" by blast
    have "volume_remove env (Some n) s = Some (r, ?s\<lparr>world := w\<rparr>)"
      using s1(1) v(1) nil f(1,2) by (auto simp: volume_remove_def)
    moreover have "registry_ok drv winv num N (?s\<lparr>world := w\<rparr>)" using s2 f(3,5) by (auto simp: registry_ok_def refs_ok_def)
    moreover have "\<forall>a b. in_use has a b s \<longrightarrow> in_use has a b (?s\<lparr>world := w\<rparr>)"
    proof (intro allI impI)
      fix a b assume u: "in_use has a b s"
      then have "a \<noteq> n" using unused by (auto simp: in_use_def)
      with u f(4) s1(4) show "in_use has a b (?s\<lparr>world := w\<rparr>)"
        using refers_cong(1) [of "?s\<lparr>world := w\<rparr>" s] s1(3) by (simp add: in_use_def ticks_free(2))
    qed
    ultimately show ?thesis using s1(3) by auto
  qed
qed

lemma prune_loop_ok:
  assumes "mem_ok env" "8 * N \<le> MAX_MEMORY_SIZE"
  shows "registry_ok drv winv num N s \<Longrightarrow> \<exists>ns s'. prune_loop env vs s = Some (ns, s') \<and> registry_ok drv winv num N s' \<and>
    (\<forall>m ref. in_use has m ref s \<longrightarrow> in_use has m ref s')"
proof (induction vs arbitrary: s)
  case (Cons v vs)
  from remove_ok [OF assms(1) Cons.prems assms(2), of "v_name v"] obtain r s1 where
    s1: "volume_remove env (Some (v_name v)) s = Some (r, s1)" "registry_ok drv winv num N s1"
    "\<forall>m ref. in_use has m ref s \<longrightarrow> in_use has m ref s1" by blast
  from Cons.IH [OF s1(2)] s1 show ?case by fastforce
qed simp

lemma list_ok:
  assumes "mem_ok env" "registry_ok drv winv num N s" "8 * N \<le> MAX_MEMORY_SIZE"
  shows "\<exists>vs s'. volume_list env s = Some (vs, s') \<and> registry_ok drv winv num N s' \<and>
    (\<forall>m ref. in_use has m ref s \<longrightarrow> in_use has m ref s') \<and> (\<forall>l. vs = Some l \<longrightarrow> length l \<le> N)"
proof -
  from alloc_ok [OF assms(1,2), of 16] obtain s1 where s1: "vsalloc env 16 s = (True, s1)" "registry_ok drv winv num N s1"
    "name_refs s1 = name_refs s" "\<forall>m. has m (world s1) = has m (world s)" by (auto simp: MAX_MEMORY_SIZE_def)
  from assms(2) obtain dn where dn: "drivers s = Some [(dn, drv)]" by (auto simp: registry_ok_def)
  have w: "winv (world s1)" "num (world s1) \<le> N" "8 * num (world s1) \<le> MAX_MEMORY_SIZE" using s1(2) assms(3) by (auto simp: registry_ok_def)
  from ls_ok [OF w(1,3)] obtain f vs w' where f: "drv_list drv = Some f" and w': "f (world s1) = Some (vs, w')" "winv w'" "\<forall>m. has m w' = has m (world s1)"
    "num w' \<le> num (world s1)" "\<forall>l. vs = Some l \<longrightarrow> length l \<le> num (world s1)" by blast
  have "volume_list env s = Some (vs, s1\<lparr>world := w'\<rparr>)"
    using dn s1(1) f w'(1) by (simp add: volume_list_def list_all_driver_volumes_def)
  moreover have "registry_ok drv winv num N (s1\<lparr>world := w'\<rparr>)" using s1(2) w'(2,4) by (auto simp: registry_ok_def refs_ok_def)
  ultimately show ?thesis using s1(3,4) w' w(2) by (auto simp: in_use_def refers_def)
qed

lemma prune_ok:
  assumes "mem_ok env" "registry_ok drv winv num N s" "8 * N \<le> MAX_MEMORY_SIZE"
  shows "\<exists>p s'. volume_prune env True s = Some (p, s') \<and> registry_ok drv winv num N s' \<and>
    (\<forall>m ref. in_use has m ref s \<longrightarrow> in_use has m ref s')"
proof -
  from alloc_ok [OF assms(1,2), of 16] obtain s1 where s1: "vsalloc env 16 s = (True, s1)" "registry_ok drv winv num N s1"
    "name_refs s1 = name_refs s" "\<forall>m. has m (world s1) = has m (world s)" by (auto simp: MAX_MEMORY_SIZE_def)
  then have u1: "in_use has m ref s1 = in_use has m ref s" for m ref by (simp add: in_use_def refers_def)
  from list_ok [OF assms(1) s1(2) assms(3)] obtain vs s2 where s2: "volume_list env s1 = Some (vs, s2)" "registry_ok drv winv num N s2"
    "\<forall>m ref. in_use has m ref s1 \<longrightarrow> in_use has m ref s2" "\<forall>l. vs = Some l \<longrightarrow> length l \<le> N" by blast
  show ?thesis
  proof (cases "vs = None \<or> vs = Some []")
    case True
    then have "\<exists>p. volume_prune env True s = Some (p, s2)" using s1(1) s2(1) by (auto simp: volume_prune_def)
    with s2 u1 show ?thesis by auto
  next
    case False
    then obtain l where l: "vs = Some l" "l \<noteq> []" by auto
    with s2(4) assms(3) have "8 * length l \<le> MAX_MEMORY_SIZE" by auto
    from alloc_ok [OF assms(1) s2(2) _ this] l(2) obtain s3 where s3: "vsalloc env (8 * length l) s2 = (True, s3)"
      "registry_ok drv winv num N s3" "name_refs s3 = name_refs s2" "\<forall>m. has m (world s3) = has m (world s2)" by auto
    from prune_loop_ok [OF assms(1,3) s3(2), of l] obtain ns s4 where s4: "prune_loop env l s3 = Some (ns, s4)"
      "registry_ok drv winv num N s4" "\<forall>m ref. in_use has m ref s3 \<longrightarrow> in_use has m ref s4" by blast
    have "volume_prune env True s = Some ((0, Some ns), s4)"
      using s1(1) s2(1) s3(1) s4(1) l by (simp add: volume_prune_def)
    moreover have "\<forall>m ref. in_use has m ref s \<longrightarrow> in_use has m ref s4"
    proof -
      have "in_use has m ref s3 = in_use has m ref s2" for m ref using s3(3,4) by (simp add: in_use_def refers_def)
      then show ?thesis using u1 s2(3) s4(3) by blast
    qed
    ultimately show ?thesis using s4(2) by blast
  qed
qed

lemma registry_ok_Suc: "registry_ok drv winv num N s \<Longrightarrow> registry_ok drv winv num (Suc N) s"
  using refs_ok_mono [of N s "Suc N"] by (auto simp: registry_ok_def)

text \<open>Mounting, unmounting and creating: the driver keeps what it has.\<close>

lemma call_ok:
  assumes "registry_ok drv winv num N s" "winv w" "\<forall>m. has m (world s) \<longrightarrow> has m w" "num w \<le> Suc (num (world s))"
  shows "registry_ok drv winv num (Suc N) (s\<lparr>world := w\<rparr>)" "in_use has m ref s \<Longrightarrow> in_use has m ref (s\<lparr>world := w\<rparr>)"
  using assms refs_ok_mono [of N s "Suc N"] by (auto simp: registry_ok_def in_use_def refers_def refs_ok_def)

lemma mount_ok:
  assumes "mem_ok env" "registry_ok drv winv num N s"
  shows "\<exists>r s'. volume_mount env (Some n) s = Some (r, s') \<and> registry_ok drv winv num (Suc N) s' \<and> (\<forall>m ref. in_use has m ref s \<longrightarrow> in_use has m ref s')"
    and "\<exists>r s'. volume_umount env (Some n) s = Some (r, s') \<and> registry_ok drv winv num (Suc N) s' \<and> (\<forall>m ref. in_use has m ref s \<longrightarrow> in_use has m ref s')"
proof -
  from lookup_ok [OF assms, of n] obtain s1 where s1: "lookup_driver_by_volume_name env (Some n) s = Some (Some drv, s1)"
    "registry_ok drv winv num N s1" "name_refs s1 = name_refs s" "\<forall>m. has m (world s1) = has m (world s)" by blast
  then have u: "in_use has m ref s1 = in_use has m ref s" for m ref by (simp add: in_use_def refers_def)
  have w: "winv (world s1)" using s1(2) by (simp add: registry_ok_def)
  from mount_law w obtain f r w1 where f: "drv_mount drv = Some f" "f n (world s1) = Some (r, w1)" "winv w1"
    "\<forall>m. has m w1 = has m (world s1)" "num w1 \<le> num (world s1)" by meson
  from call_ok [OF s1(2) f(3)] f(4,5) u
  show "\<exists>r s'. volume_mount env (Some n) s = Some (r, s') \<and> registry_ok drv winv num (Suc N) s' \<and> (\<forall>m ref. in_use has m ref s \<longrightarrow> in_use has m ref s')"
    using s1(1) f(1,2) by (intro exI [of _ r] exI [of _ "s1\<lparr>world := w1\<rparr>"]) (simp add: volume_mount_def)
  from umount_law w obtain f r w1 where f: "drv_umount drv = Some f" "f n (world s1) = Some (r, w1)" "winv w1"
    "\<forall>m. has m w1 = has m (world s1)" "num w1 \<le> num (world s1)" by meson
  from call_ok [OF s1(2) f(3)] f(4,5) u
  show "\<exists>r s'. volume_umount env (Some n) s = Some (r, s') \<and> registry_ok drv winv num (Suc N) s' \<and> (\<forall>m ref. in_use has m ref s \<longrightarrow> in_use has m ref s')"
    using s1(1) f(1,2) by (intro exI [of _ r] exI [of _ "s1\<lparr>world := w1\<rparr>"]) (simp add: volume_umount_def)
qed

lemma add_ref_ok:
  assumes "mem_ok env" "registry_ok drv winv num N s" "c_str n" "c_str r"
  shows "\<exists>s'. add_name_ref env n r s = (0, s') \<and> refs_ok (Suc N) s' \<and> drivers s' = drivers s \<and> winv (world s') \<and> num (world s') = num (world s) \<and>
    (\<forall>m ref. c_str m \<and> c_str ref \<and> in_use has m ref s \<longrightarrow> in_use has m ref s')"
proof -
  have "refs_ok N s" using assms(2) by (simp add: registry_ok_def)
  from add_name_ref_ok [OF assms(1) this assms(3,4)] obtain k s' where s': "add_name_ref env n r s = (0, s')" "refs_ok (Suc N) s'"
    "\<forall>n r. c_str n \<and> c_str r \<and> refers s n r \<longrightarrow> refers s' n r" "drivers s' = drivers s" "world s' = (world s)\<lparr>ticks := k\<rparr>" by blast
  then show ?thesis using assms(2) ticks_free by (auto simp: registry_ok_def in_use_def)
qed

lemma create_ok:
  assumes "mem_ok env" "registry_ok drv winv num N s" "op_strs (Create u d nm r)"
  shows "\<exists>v s'. volume_create env u (Some d) nm (Some r) s = Some (v, s') \<and> registry_ok drv winv num (Suc N) s' \<and>
    (\<forall>m ref. c_str m \<and> c_str ref \<and> in_use has m ref s \<longrightarrow> in_use has m ref s')"
proof -
  let ?n = "case nm of Some n \<Rightarrow> Some n | None \<Rightarrow> util_generate_random_str (fst u) (snd u) VOLUME_DEFAULT_NAME_LEN"
  from assms(2) obtain dn where "drivers s = Some [(dn, drv)]" by (auto simp: registry_ok_def)
  then have look: "lookup_driver (Some d) s = None \<or> lookup_driver (Some d) s = Some drv" by (simp add: lookup_driver_def msearch_def spec_defs)
  show ?thesis
  proof (cases "lookup_driver (Some d) s = None \<or> ?n = None")
    case True
    then have "volume_create env u (Some d) nm (Some r) s = Some (None, s)"
      by (auto simp: volume_create_def split: option.splits)
    then show ?thesis using registry_ok_Suc [OF assms(2)] by auto
  next
    case False
    then obtain n where n: "?n = Some n" "lookup_driver (Some d) s = Some drv" using look by auto
    then have cn: "c_str n" using assms(3) random_name_valid valid_name_c_str by (cases nm) auto
    have "winv (world s)" using assms(2) by (simp add: registry_ok_def)
    with create_law obtain f v w where f: "drv_create drv = Some f" "f n (world s) = Some (v, w)" "winv w"
      "\<forall>m. has m (world s) \<longrightarrow> has m w" "num w \<le> Suc (num (world s))" by meson
    let ?s = "s\<lparr>world := w\<rparr>"
    note c = call_ok [OF assms(2) f(3-5)]
    show ?thesis
    proof (cases v)
      case None
      then have "volume_create env u (Some d) nm (Some r) s = Some (None, ?s)"
        using n f(1,2) by (simp add: volume_create_def)
      then show ?thesis using c by auto
    next
      case (Some v')
      have r: "refs_ok N ?s" using assms(2) by (simp add: registry_ok_def refs_ok_def)
      from add_name_ref_ok [OF assms(1) r cn, of r] assms(3) obtain k s' where s': "add_name_ref env n r ?s = (0, s')" "refs_ok (Suc N) s'"
        "\<forall>n r. c_str n \<and> c_str r \<and> refers ?s n r \<longrightarrow> refers s' n r" "drivers s' = drivers s" "world s' = w\<lparr>ticks := k\<rparr>" by auto
      have "volume_create env u (Some d) nm (Some r) s = Some (v, s')"
        using n f(1,2) s'(1) Some by (simp add: volume_create_def)
      moreover have "registry_ok drv winv num (Suc N) s'" using s'(2,4,5) c(1) ticks_free by (simp add: registry_ok_def)
      moreover have "\<forall>m ref. c_str m \<and> c_str ref \<and> in_use has m ref s \<longrightarrow> in_use has m ref s'"
        using s'(3,5) f(4) ticks_free(2) by (simp add: in_use_def refers_def)
      ultimately show ?thesis by blast
    qed
  qed
qed

lemma step_ok:
  assumes "mem_ok env" "registry_ok drv winv num N s" "8 * N \<le> MAX_MEMORY_SIZE" "op_strs x"
  shows "\<exists>s'. vol_step env x s = Some s' \<and> registry_ok drv winv num (Suc N) s' \<and>
    (\<forall>m ref. c_str m \<and> c_str ref \<and> x \<noteq> Del_ref m ref \<and> in_use has m ref s \<longrightarrow> in_use has m ref s')"
proof (cases x)
  case (Create u d nm r)
  with create_ok [OF assms(1,2), of u d nm r] assms(4) show ?thesis by (auto simp: vol_step_def)
next
  case (Mount n)
  with mount_ok(1) [OF assms(1,2), of n] show ?thesis by (auto simp: vol_step_def)
next
  case (Umount n)
  with mount_ok(2) [OF assms(1,2), of n] show ?thesis by (auto simp: vol_step_def)
next
  case List
  with list_ok [OF assms(1-3)] show ?thesis by (auto simp: vol_step_def intro: registry_ok_Suc)
next
  case (Add_ref n r)
  with add_ref_ok [OF assms(1,2), of n r] assms(2,4) show ?thesis by (auto simp: vol_step_def volume_add_ref_def registry_ok_def)
next
  case (Del_ref n r)
  have "refs_ok N s" using assms(2) by (simp add: registry_ok_def)
  from del_name_ref_ok [OF this, of n r] Del_ref assms(4) obtain v s' where s': "del_name_ref n r s = (v, s')" "refs_ok N s'"
    "world s' = world s" "drivers s' = drivers s" "\<forall>m q. c_str m \<and> c_str q \<and> (m, q) \<noteq> (n, r) \<and> refers s m q \<longrightarrow> refers s' m q" by auto
  then have "registry_ok drv winv num N s'" using assms(2) by (simp add: registry_ok_def)
  then show ?thesis using s' Del_ref registry_ok_Suc by (auto simp: vol_step_def volume_del_ref_def in_use_def)
next
  case (Remove n)
  with remove_ok [OF assms(1-3), of n] show ?thesis by (auto simp: vol_step_def intro: registry_ok_Suc)
next
  case Prune
  from prune_ok [OF assms(1-3)] obtain p s' where "volume_prune env True s = Some (p, s')" "registry_ok drv winv num N s'"
    "\<forall>m ref. in_use has m ref s \<longrightarrow> in_use has m ref s'" by blast
  then show ?thesis using Prune registry_ok_Suc by (auto simp: vol_step_def)
qed

lemma run_ok:
  assumes "mem_ok env"
  shows "registry_ok drv winv num N s \<Longrightarrow> 8 * (N + length xs) \<le> MAX_MEMORY_SIZE \<Longrightarrow> list_all op_strs xs \<Longrightarrow>
    \<exists>s'. vol_run env xs s = Some s' \<and> registry_ok drv winv num (N + length xs) s' \<and>
      (\<forall>m ref. c_str m \<and> c_str ref \<and> Del_ref m ref \<notin> set xs \<and> in_use has m ref s \<longrightarrow> in_use has m ref s')"
proof (induction xs arbitrary: N s)
  case (Cons x xs)
  have b: "8 * N \<le> MAX_MEMORY_SIZE" "op_strs x" using Cons.prems(2,3) by auto
  from step_ok [OF assms Cons.prems(1) b] obtain s1 where s1: "vol_step env x s = Some s1" "registry_ok drv winv num (Suc N) s1"
    "\<forall>m ref. c_str m \<and> c_str ref \<and> x \<noteq> Del_ref m ref \<and> in_use has m ref s \<longrightarrow> in_use has m ref s1" by blast
  from Cons.IH [OF s1(2)] Cons.prems(2,3) obtain s2 where "vol_run env xs s1 = Some s2" "registry_ok drv winv num (Suc N + length xs) s2"
    "\<forall>m ref. c_str m \<and> c_str ref \<and> Del_ref m ref \<notin> set xs \<and> in_use has m ref s1 \<longrightarrow> in_use has m ref s2" by auto
  with s1 show ?case by auto
qed simp

end

subsection \<open>The local driver\<close>

definition has_volume :: "string \<Rightarrow> vworld \<Rightarrow> bool" where
  "has_volume nm w \<longleftrightarrow> util_valid_volume_name nm \<and> (\<exists>g. g_volumes w = Some g \<and> smap_find nm (vols_by_name g) \<noteq> None)"

definition num_volumes :: "vworld \<Rightarrow> nat" where
  "num_volumes w = (case g_volumes w of None \<Rightarrow> 0 | Some g \<Rightarrow> length (vols_by_name g))"

lemma local_world_cong:
  "g_volumes w' = g_volumes w \<Longrightarrow> local_ok w' = local_ok w" "g_volumes w' = g_volumes w \<Longrightarrow> has_volume n w' = has_volume n w"
  "g_volumes w' = g_volumes w \<Longrightarrow> num_volumes w' = num_volumes w"
  by (simp_all add: local_ok_def has_volume_def num_volumes_def)

lemma local_get_law:
  assumes "local_ok w"
  shows "\<exists>v w'. local_volume_get env n w = Some (v, w') \<and> local_ok w' \<and> (\<forall>m. has_volume m w' = has_volume m w) \<and> num_volumes w' \<le> num_volumes w"
proof -
  from assms obtain g where g: "g_volumes w = Some g" "\<not> mutex g" "vols_wf g" by (rule local_okE)
  from local_get_spec [OF g, of env n] obtain v w' where w': "local_volume_get env n w = Some (v, w')" "g_volumes w' = Some g" by blast
  then have e: "g_volumes w' = g_volumes w" using g(1) by simp
  from w'(1) show ?thesis using assms local_world_cong [OF e] by auto
qed

lemma local_create_law:
  assumes "local_ok w"
  shows "\<exists>v w'. local_volume_create env n w = Some (v, w') \<and> local_ok w' \<and> (\<forall>m. has_volume m w \<longrightarrow> has_volume m w') \<and>
    num_volumes w' \<le> Suc (num_volumes w)"
proof -
  from assms obtain g where g: "g_volumes w = Some g" "\<not> mutex g" "vols_wf g" by (rule local_okE)
  from local_create_spec [OF g, of env n] obtain v w' m where w': "local_volume_create env n w = Some (v, w')"
    "g_volumes w' = Some (g\<lparr>vols_by_name := m\<rparr>)" "vols_wf (g\<lparr>vols_by_name := m\<rparr>)"
    "m = vols_by_name g \<or> util_valid_volume_name n \<and> smap_find n (vols_by_name g) = None \<and> m = snd (smap_insert True n (new_volume g n) (vols_by_name g))"
    by blast
  have so: "smap_ok (vols_by_name g)" using g(3) by (simp add: vols_wf_def)
  have "smap_find k m \<noteq> None" if "util_valid_volume_name k" "smap_find k (vols_by_name g) \<noteq> None" for k
    using w'(4) that so valid_name_c_str [of n] valid_name_c_str [of k] by (auto simp: spec_defs str_cmp.store_find_ins)
  then have "\<forall>k. has_volume k w \<longrightarrow> has_volume k w'" using g(1) w'(2) by (auto simp: has_volume_def)
  moreover have "length m \<le> Suc (length (vols_by_name g))" using w'(4) length_store_ins by (auto simp: spec_defs)
  then have "num_volumes w' \<le> Suc (num_volumes w)" using g(1) w'(2) by (simp add: num_volumes_def)
  ultimately show ?thesis using w'(1) local_ok_vols [OF w'(2) g(2) w'(3)] by blast
qed

lemma local_remove_law:
  assumes "local_ok w"
  shows "\<exists>r w'. local_volume_remove env n w = Some (r, w') \<and> local_ok w' \<and> (\<forall>m. m \<noteq> n \<longrightarrow> has_volume m w' = has_volume m w) \<and>
    num_volumes w' \<le> num_volumes w"
proof -
  from assms obtain g where g: "g_volumes w = Some g" "\<not> mutex g" "vols_wf g" by (rule local_okE)
  from local_remove_spec [OF g, of env n] obtain r w' m where w': "local_volume_remove env n w = Some (r, w')"
    "g_volumes w' = Some (g\<lparr>vols_by_name := m\<rparr>)" "vols_wf (g\<lparr>vols_by_name := m\<rparr>)" "r \<noteq> 0 \<longrightarrow> m = vols_by_name g"
    "r = 0 \<longrightarrow> util_valid_volume_name n \<and> smap_find n (vols_by_name g) \<noteq> None \<and> m = store_del rbtree_str_cmp n (vols_by_name g)" by blast
  have so: "smap_ok (vols_by_name g)" using g(3) by (simp add: vols_wf_def)
  have "smap_find k m = smap_find k (vols_by_name g)" if "util_valid_volume_name k" "k \<noteq> n" for k
    using w'(4,5) that so valid_name_c_str [of n] valid_name_c_str [of k] by (cases "r = 0") (auto simp: spec_defs str_cmp.store_find_del)
  then have "\<forall>k. k \<noteq> n \<longrightarrow> has_volume k w' = has_volume k w" using g(1) w'(2) by (auto simp: has_volume_def)
  moreover have "length m \<le> length (vols_by_name g)" using w'(4,5) length_store_del by (cases "r = 0") auto
  then have "num_volumes w' \<le> num_volumes w" using g(1) w'(2) by (simp add: num_volumes_def)
  ultimately show ?thesis using w'(1) local_ok_vols [OF w'(2) g(2) w'(3)] by blast
qed

lemma local_list_law:
  assumes "local_ok w" "8 * num_volumes w \<le> MAX_MEMORY_SIZE" "mem_ok env"
  shows "\<exists>vs w'. local_volume_list env w = Some (vs, w') \<and> local_ok w' \<and> (\<forall>m. has_volume m w' = has_volume m w) \<and>
    num_volumes w' \<le> num_volumes w \<and> (\<forall>l. vs = Some l \<longrightarrow> length l \<le> num_volumes w)"
proof -
  from assms(1) obtain g where g: "g_volumes w = Some g" "\<not> mutex g" "vols_wf g" by (rule local_okE)
  from local_list_spec [OF g, of env] obtain vs w' b where w': "local_volume_list env w = Some (vs, w')" "g_volumes w' = Some (g\<lparr>mutex := b\<rparr>)"
    "vs \<noteq> None \<longrightarrow> \<not> b \<and> vs = Some (map (\<lambda>(k, v). the_volume g k) (vols_by_name g))"
    "(\<forall>i. vmem env i) \<and> 8 * length (vols_by_name g) \<le> MAX_MEMORY_SIZE \<longrightarrow> vs \<noteq> None" by blast
  have "vs \<noteq> None" using w'(4) assms(2,3) g(1) by (simp add: num_volumes_def mem_ok_def)
  with w'(3) have vs: "\<not> b" "vs = Some (map (\<lambda>(k, v). the_volume g k) (vols_by_name g))" by auto
  then have e: "g_volumes w' = g_volumes w" using w'(2) g(1,2) by simp
  from w'(1) vs(2) show ?thesis using assms(1) g(1) local_world_cong [OF e] by (auto simp: num_volumes_def)
qed

interpretation loc: driver_laws "local_driver (env\<lparr>vmem := all_ok\<rparr>)" local_ok has_volume num_volumes for env
proof unfold_locales
  fix w k e n
  show "local_ok w \<Longrightarrow> local_ok (w\<lparr>ticks := k\<rparr>)" "has_volume n (w\<lparr>ticks := k\<rparr>) = has_volume n w" "num_volumes (w\<lparr>ticks := k\<rparr>) = num_volumes w"
    using local_world_cong [of "w\<lparr>ticks := k\<rparr>" w] by simp_all
  show "local_ok w \<Longrightarrow> local_ok (try_errmsg e w)" "has_volume n (try_errmsg e w) = has_volume n w" "num_volumes (try_errmsg e w) = num_volumes w"
    using local_world_cong [of "try_errmsg e w" w] by (simp_all add: try_errmsg_simps)
qed (simp_all add: local_driver_def local_get_law local_create_law local_remove_law local_list_law mem_ok_def all_ok_def
      local_volume_mount_def local_volume_umount_def)

text \<open>Starting the registry: the local driver is there, with the volumes found on the disk, and no reference.\<close>

lemma root_ok_under: "root_ok d \<Longrightarrow> proper_comp c \<Longrightarrow> root_ok (d @ ''/'' @ c)"
proof -
  assume "root_ok d" and c: "proper_comp c"
  then obtain st where st: "st \<noteq> []" "list_all proper_comp st" "d = join_slash st" by (auto simp: root_ok_def)
  then show ?thesis using c by (intro root_ok_def [THEN iffD2] exI [of _ "st @ [c]"]) simp
qed

lemma insert_local_driver:
  assumes "insert_driver env dn (local_driver env) s = (0, s')" "drivers s = Some []"
  shows "drivers s' = Some [(dn, local_driver env)] \<and> name_refs s' = name_refs s \<and> g_volumes (world s') = g_volumes (world s)"
  using assms
  by (auto simp: insert_driver_def valid_driver_def local_driver_def dup_driver_def vsalloc_def vcalloc_def spec_defs Let_def split: if_splits prod.splits)

lemma volume_init_ok:
  assumes "root_ok rdir" "volume_init env mi (Some rdir) s0 = Some (0, s)"
  shows "registry_ok (local_driver env) local_ok num_volumes (num_volumes (world s)) s \<and> name_refs s = Some []"
proof -
  have "\<exists>w. register_local_volume env mi (Some rdir) (s0\<lparr>drivers := Some [], world := w, name_refs := Some []\<rparr>) = Some (0, s)"
    using assms(2) by (auto simp: volume_init_def register_drivers_def vsalloc_def Let_def split: if_splits prod.splits bind_splits)
  then obtain w0 where w0: "register_local_volume env mi (Some rdir) (s0\<lparr>drivers := Some [], world := w0, name_refs := Some []\<rparr>) = Some (0, s)" ..
  define s1 where "s1 = s0\<lparr>drivers := Some [], world := w0, name_refs := Some []\<rparr>"
  have s1: "drivers s1 = Some []" "name_refs s1 = Some []" "register_local_volume env mi (Some rdir) s1 = Some (0, s)"
    using w0 by (simp_all add: s1_def)
  let ?dir = "util_path_join (Some (vcwd env)) (Some rdir) (Some LOCAL_VOLUME_ROOT_DIR_NAME)"
  from s1(1,3) obtain w where w: "local_volume_init env mi ?dir (world s1) = Some (0, w)"
    "insert_driver env LOCAL_VOLUME_DRIVER_NAME (local_driver env) (s1\<lparr>world := w\<rparr>) = (0, s)"
    by (auto simp: register_local_volume_def register_driver_def lookup_driver_def msearch_def Let_def split: if_splits bind_splits)
  have p: "proper_comp LOCAL_VOLUME_ROOT_DIR_NAME" by (simp add: proper_comp_def good_comp_def LOCAL_VOLUME_ROOT_DIR_NAME_def)
  from w(1) obtain d where d: "?dir = Some d" by (cases ?dir) (auto simp: local_volume_init_def split: prod.splits if_splits)
  from util_path_join_clean [OF assms(1) p d] root_ok_under [OF assms(1) p] have "root_ok d" by simp
  with local_init_ok [of d env mi "world s1" w] w(1) d have "local_ok w" by simp
  with insert_local_driver [OF w(2)] s1(1,2) show ?thesis
    using local_world_cong(1) [of "world s" w] by (simp add: registry_ok_def refs_ok_def store_ok_def)
qed

lemma local_env: "\<forall>i. vmem env i \<Longrightarrow> env\<lparr>vmem := all_ok\<rparr> = env"
  by (cases env) (auto simp: all_ok_def fun_eq_iff)

text \<open>A volume that a container creates, or asks for, is in use by it from then on.\<close>

lemma volume_create_in_use:
  assumes "\<forall>i. vmem env i" "registry_ok (local_driver env) local_ok num_volumes N s" "c_str nm" "c_str ref"
    and "volume_create env u (Some d) (Some nm) (Some ref) s = Some (Some v, s')"
  shows "in_use has_volume nm ref s' \<and> v_name v = nm"
proof -
  from assms(2) obtain dn where "drivers s = Some [(dn, local_driver env)]" by (auto simp: registry_ok_def)
  then have "lookup_driver (Some d) s = None \<or> lookup_driver (Some d) s = Some (local_driver env)" by (simp add: lookup_driver_def msearch_def spec_defs)
  then have look: "lookup_driver (Some d) s = Some (local_driver env)" using assms(5) by (auto simp: volume_create_def)
  from assms(2) have "local_ok (world s)" by (simp add: registry_ok_def)
  then obtain g where g: "g_volumes (world s) = Some g" "\<not> mutex g" "vols_wf g" by (rule local_okE)
  from local_create_spec [OF g, of env nm] obtain r w m where r: "local_volume_create env nm (world s) = Some (r, w)"
    "g_volumes w = Some (g\<lparr>vols_by_name := m\<rparr>)" "r \<noteq> None \<longrightarrow> util_valid_volume_name nm \<and> r = Some (the_volume g nm)"
    "(\<forall>i. vmem env i) \<and> r \<noteq> None \<longrightarrow> smap_find nm m \<noteq> None" by blast
  have ro: "refs_ok N (s\<lparr>world := w\<rparr>)" using assms(2) by (simp add: registry_ok_def refs_ok_def)
  have "mem_ok env" using assms(1) by (simp add: mem_ok_def)
  from add_name_ref_ok [OF this ro assms(3,4)] obtain k s1 where s1: "add_name_ref env nm ref (s\<lparr>world := w\<rparr>) = (0, s1)"
    "refers s1 nm ref" "world s1 = w\<lparr>ticks := k\<rparr>" by auto
  have "r = Some v \<and> s' = s1" using assms(5) look r(1) s1(1) by (auto simp: volume_create_def local_driver_def Let_def split: if_splits)
  then show ?thesis using r(2-4) s1(2,3) assms(1) by (auto simp: in_use_def has_volume_def the_volume_def)
qed

subsection \<open>What the registry guarantees\<close>

text \<open>C4. A volume in use is never lost.  Starting the registry gives a state with the local driver; a volume that is
  created for a container is then in use by it; and from such a state every sequence of creations, mounts, unmounts, lists,
  removals, prunes and changes of references returns, and keeps a volume in use by a container, unless that very
  reference is deleted.  (Memory is available and the numbers of volumes and of references fit one allocation.)\<close>

theorem volume_referenced_survives:
  assumes "\<forall>i. vmem env i"
    and "registry_ok (local_driver env) local_ok num_volumes N s" "8 * (N + length xs) \<le> MAX_MEMORY_SIZE" "list_all op_strs xs"
    and "c_str nm" "c_str ref"
  shows "(root_ok rdir \<and> volume_init env mi (Some rdir) s0 = Some (0, s1) \<longrightarrow>
      registry_ok (local_driver env) local_ok num_volumes (num_volumes (world s1)) s1) \<and>
    (volume_create env u (Some d) (Some nm) (Some ref) s = Some (Some v, s2) \<longrightarrow> in_use has_volume nm ref s2) \<and>
    (\<exists>s'. vol_run env xs s = Some s' \<and> registry_ok (local_driver env) local_ok num_volumes (N + length xs) s' \<and>
      (in_use has_volume nm ref s \<and> Del_ref nm ref \<notin> set xs \<longrightarrow> in_use has_volume nm ref s'))"
proof -
  have m: "mem_ok env" using assms(1) by (simp add: mem_ok_def)
  have "\<exists>s'. vol_run env xs s = Some s' \<and> registry_ok (local_driver env) local_ok num_volumes (N + length xs) s' \<and>
      (in_use has_volume nm ref s \<and> Del_ref nm ref \<notin> set xs \<longrightarrow> in_use has_volume nm ref s')"
    using loc.run_ok [where env = env and enva = env, OF m, unfolded local_env [OF assms(1)], OF assms(2-4)] assms(5,6) by blast
  then show ?thesis using volume_init_ok volume_create_in_use [OF assms(1,2,5,6)] by blast
qed

definition ex_used :: vworld where
  "ex_used = \<lparr>g_volumes = Some (ex_vols\<lparr>vols_by_name := [(''db'', new_volume ex_vols ''db'')]\<rparr>),
     files = Dir [(''vol'', Dir [(''db'', Dir [(''_data'', Dir [])])])], verrmsg = None, ticks = 0\<rparr>"

definition ex_store :: "vol_env \<Rightarrow> volume_store" where
  "ex_store env = \<lparr>drivers = Some [(''local'', local_driver env)], name_refs = Some [(''db'', [(''c1'', True)])], static_driver = None, world = ex_used\<rparr>"

lemma ex_used_ok: "vols_wf (ex_vols\<lparr>vols_by_name := [(''db'', new_volume ex_vols ''db'')]\<rparr>)" "local_ok ex_used"
proof -
  show "vols_wf (ex_vols\<lparr>vols_by_name := [(''db'', new_volume ex_vols ''db'')]\<rparr>)"
    using vols_wf_insert [OF ex_vols_wf ex_name_valid, of "new_volume ex_vols ''db''" True] by (simp add: new_volume_def spec_defs ex_vols_def)
  then show "local_ok ex_used" by (simp add: local_ok_def ex_used_def) (simp add: ex_vols_def)
qed

lemma ex_store_ok: "registry_ok (local_driver env) local_ok num_volumes 1 (ex_store env)" "in_use has_volume ''db'' ''c1'' (ex_store env)"
  using ex_used_ok ex_name_valid str_cmp.cmp_eq [of "''db''" "''db''"] str_cmp.cmp_eq [of "''c1''" "''c1''"]
  by (simp_all add: registry_ok_def ex_store_def refs_ok_def store_ok_def c_str_def in_use_def refers_def msearch_def)
    (auto simp: ex_used_def num_volumes_def has_volume_def)

theorem volume_referenced_survives_witness:
  "\<exists>s'. vol_run ex_venv [Remove ''db'', Prune, Mount ''db''] (ex_store ex_venv) = Some s' \<and> in_use has_volume ''db'' ''c1'' s'"
proof -
  let ?xs = "[Remove ''db'', Prune, Mount ''db'']"
  have h: "\<forall>i. vmem ex_venv i" "8 * (1 + length ?xs) \<le> MAX_MEMORY_SIZE" "list_all op_strs ?xs" "c_str ''db''" "c_str ''c1''" "Del_ref ''db'' ''c1'' \<notin> set ?xs"
    by (simp_all add: c_str_def ex_venv_def MAX_MEMORY_SIZE_def)
  from volume_referenced_survives [OF h(1) ex_store_ok(1) h(2-5)] ex_store_ok(2) h(6) show ?thesis by blast
qed

text \<open>C23. Two errors of the registry.  Mounting any name succeeds, also a volume that no driver has: the search for the driver
  of a volume returns the last driver it asked.  And the references of a volume are taken for empty when there is no
  memory to copy them, so a volume in use is handed to its driver to remove, and is gone if the driver succeeds, while
  the reference stays.\<close>

theorem volume_registry_errors:
  assumes "drivers s = Some [(dn, local_driver env)]" "local_ok (world s)" "in_use has_volume nm ref s"
    and "vmem env = (\<lambda>i. i \<noteq> ticks (world s) + 2)"
  shows "(\<exists>s'. volume_mount env (Some n) s = Some (0, s') \<and> g_volumes (world s') = g_volumes (world s)) \<and>
    (\<exists>w r w'. g_volumes w = g_volumes (world s) \<and> files w = files (world s) \<and> local_volume_remove env nm w = Some (r, w') \<and>
      (\<exists>s'. volume_remove env (Some nm) s = Some (r, s') \<and> world s' = w' \<and> refers s' nm ref \<and> (r = 0 \<longrightarrow> \<not> has_volume nm (world s'))))"
proof
  obtain g where g: "g_volumes (world s) = Some g" "\<not> mutex g" "vols_wf g" using assms(2) by (rule local_okE)
  let ?s1 = "s\<lparr>world := (world s)\<lparr>ticks := Suc (ticks (world s))\<rparr>\<rparr>"
  have a: "vsalloc env 16 s = (True, ?s1)"
    using assms(4) by (simp add: vsalloc_def vcalloc_def small_calloc MAX_MEMORY_SIZE_def)
  have g1: "g_volumes (world ?s1) = Some g" using g(1) by simp
  from local_get_spec [OF g1 g(2,3), of env n] obtain v w where v: "local_volume_get env n (world ?s1) = Some (v, w)" "g_volumes w = Some g" by blast
  then show "\<exists>s'. volume_mount env (Some n) s = Some (0, s') \<and> g_volumes (world s') = g_volumes (world s)"
    using assms(1) a g(1) by (simp add: volume_mount_def lookup_driver_by_volume_name_def local_driver_def local_volume_mount_def)
  from assms(3) g(1) have nm: "util_valid_volume_name nm" "smap_find nm (vols_by_name g) \<noteq> None" by (auto simp: in_use_def has_volume_def)
  then obtain x where x: "smap_find nm (vols_by_name g) = Some x" by blast
  let ?w = "(world s)\<lparr>ticks := ticks (world s) + 2\<rparr>"
  have "local_volume_get env nm (world ?s1) = Some (Some (the_volume g nm), ?w)"
    using nm(1) x g vols_wf_find [OF g(3) nm(1) x] assms(4) by (simp add: local_volume_get_def vworld_simps mutex_unlock_def)
  then have l: "lookup_driver_by_volume_name env (Some nm) s = Some (Some (local_driver env), s\<lparr>static_driver := Some (local_driver env), world := ?w\<rparr>)"
    using assms(1) a by (simp add: lookup_driver_by_volume_name_def local_driver_def)
  let ?s2 = "s\<lparr>static_driver := Some (local_driver env), world := ?w\<lparr>ticks := ticks (world s) + 3\<rparr>\<rparr>"
  from assms(3) obtain refs where refs: "msearch nm (name_refs s) = Some refs" by (auto simp: in_use_def refers_def split: option.splits)
  have n: "get_name_refs env nm (s\<lparr>static_driver := Some (local_driver env), world := ?w\<rparr>) = (None, ?s2)"
    using refs assms(4) by (simp add: get_name_refs_def empty_volume_names_def vsalloc_def vcalloc_def util_common_calloc_s_def)
  have g2: "g_volumes (world ?s2) = Some g" using g(1) by simp
  from local_remove_spec [OF g2 g(2,3), of env nm] obtain r w' m where r: "local_volume_remove env nm (world ?s2) = Some (r, w')"
    "g_volumes w' = Some (g\<lparr>vols_by_name := m\<rparr>)" "r = 0 \<longrightarrow> m = store_del rbtree_str_cmp nm (vols_by_name g)" by blast
  have "volume_remove env (Some nm) s = Some (r, ?s2\<lparr>world := w'\<rparr>)"
    using l n r(1) by (simp add: volume_remove_def local_driver_def)
  moreover have "refers (?s2\<lparr>world := w'\<rparr>) nm ref" using assms(3) by (simp add: in_use_def refers_def)
  moreover have "smap_find nm (store_del rbtree_str_cmp nm (vols_by_name g)) = None"
    using g(3) valid_name_c_str [OF nm(1)] by (simp add: vols_wf_def str_cmp.store_find_del)
  then have "r = 0 \<longrightarrow> \<not> has_volume nm w'" using r(2,3) by (auto simp: has_volume_def)
  ultimately show "\<exists>w r w'. g_volumes w = g_volumes (world s) \<and> files w = files (world s) \<and> local_volume_remove env nm w = Some (r, w') \<and>
      (\<exists>s'. volume_remove env (Some nm) s = Some (r, s') \<and> world s' = w' \<and> refers s' nm ref \<and> (r = 0 \<longrightarrow> \<not> has_volume nm (world s')))"
    using r(1) by (intro exI [of _ "world ?s2"] exI [of _ r] exI [of _ w'] conjI exI [of _ "?s2\<lparr>world := w'\<rparr>"]) simp_all
qed

lemma ex_rmdir: "util_recursive_rmdir True ex_disk_env ''/vol/db/_data'' 0 (Some (Dir [])) = (False, None)"
  "util_recursive_rmdir True ex_disk_env ''/vol/db'' 0 (Some (Dir [])) = (False, None)"
  by (simp_all add: util_recursive_rmdir.simps recursive_rmdir_helper.simps check_dir_valid_def MAX_PATH_DEPTH_def ex_disk_env_def)

lemma ex_removed:
  assumes "g_volumes w = g_volumes ex_used" "files w = files ex_used"
  shows "\<exists>w'. local_volume_remove (ex_venv\<lparr>vmem := f\<rparr>) ''db'' w = Some (0, w')"
proof -
  have p: "data_dir_of ex_vols ''db'' = ''/vol/db/_data''" "util_path_dir (Some ''/vol/db/_data'') = Some ''/vol/db''"
    "at_path ''/'' ''/vol/db/_data'' = [''vol'', ''db'', ''_data'']" "at_path ''/'' ''/vol/db'' = [''vol'', ''db'']"
    using util_path_dir_under [of "''/vol/db''" "''_data''"]
    by (simp_all add: ex_vols_def data_dir_of_def vol_dir_of_def LOCAL_VOLUME_DATA_DIR_NAME_def at_path_def comps.simps seg_def seg_end_def)
  have c: "rbtree_str_cmp ''db'' ''db'' = 0" using str_cmp.cmp_eq [of "''db''" "''db''"] by (simp add: c_str_def)
  show ?thesis using assms ex_name_valid p c ex_rmdir
    by (simp add: local_volume_remove_def volume_remove_nolock_def remove_volume_dir_def rmdir_at_def mutex_lock_def ex_used_def new_volume_def
        ex_venv_def spec_defs) (simp add: ex_vols_def util_has_prefix_def)
qed

theorem volume_registry_errors_witness:
  "\<exists>s'. volume_remove (ex_venv\<lparr>vmem := \<lambda>i. i \<noteq> 2\<rparr>) (Some ''db'') (ex_store (ex_venv\<lparr>vmem := \<lambda>i. i \<noteq> 2\<rparr>)) = Some (0, s') \<and>
     refers s' ''db'' ''c1'' \<and> \<not> has_volume ''db'' (world s')"
proof -
  let ?e = "ex_venv\<lparr>vmem := \<lambda>i. i \<noteq> 2\<rparr>"
  have d: "drivers (ex_store ?e) = Some [(''local'', local_driver ?e)]" "local_ok (world (ex_store ?e))" "vmem ?e = (\<lambda>i. i \<noteq> ticks (world (ex_store ?e)) + 2)"
    "world (ex_store ?e) = ex_used"
    using ex_used_ok(2) by (simp_all add: ex_store_def) (simp add: ex_used_def numeral_2_eq_2)
  from volume_registry_errors [OF d(1,2) ex_store_ok(2) d(3), THEN conjunct2, unfolded d(4)] obtain w r w' s' where
    "g_volumes w = g_volumes ex_used" "files w = files ex_used" "local_volume_remove ?e ''db'' w = Some (r, w')"
    "volume_remove ?e (Some ''db'') (ex_store ?e) = Some (r, s')" "refers s' ''db'' ''c1''" "r = 0 \<longrightarrow> \<not> has_volume ''db'' (world s')" by blast
  with ex_removed [of w "\<lambda>i. i \<noteq> 2"] show ?thesis by auto
qed

end
