(* ===== verification/Spec2Isabelle.thy ===== *)
theory Spec2Isabelle
  imports Path_Resolve Strings_Props Convert Container_State Restart_Manager Containers_Store Map_Impl Checkpoint_Props Volume_Props
begin

text \<open>
  Verification of iSulad, a container engine in C.

  \<^bold>\<open>The program.\<close>  The daemon keeps its containers in two ordered maps, by id and by name
  (\<^verbatim>\<open>containers_store.c\<close>), over the red-black tree of \<^verbatim>\<open>map/rb_tree.c\<close>.  A container
  (\<^verbatim>\<open>container_unix.c\<close>) is reference counted and has a state (\<^verbatim>\<open>container_state.c\<close>) and a
  restart manager (\<^verbatim>\<open>restartmanager.c\<close>), which decides at each exit whether and when the container
  starts again.  A container may be checkpointed to a directory and restored from it
  (\<^verbatim>\<open>checkpoint.c\<close>), and may use named volumes, which a driver keeps on the disk
  (\<^verbatim>\<open>volume/local.c\<close>) and a registry protects while a container refers to them
  (\<^verbatim>\<open>volume/volume.c\<close>).  Everything rests on the helpers of \<^verbatim>\<open>utils/cutils\<close>: path cleaning and symlink
  resolution inside a container's root, number conversion, and string handling.

  \<^bold>\<open>Conventions.\<close>  A C string is a \<^typ>\<open>string\<close>, a pointer that may be NULL an option, an error
  return a negative int, None or \<open>Inl\<close>.  Allocation is a parameter: \<open>alloc\<close> says of the i-th
  allocation of a call whether it succeeds, a bool does for a single one; \<open>util_strdup_s\<close> aborts
  rather than fail and never fails here.  Every operation under a mutex is one step,
  except in the local volume driver, where the mutex is a flag and waiting for ever is None.  System calls and
  other code outside the sources (lstat, readlink, the clock, pthread results) are arguments.  The
  model is that of x86-64: \<open>size_t\<close> and \<open>long\<close> have 64 bits, plain \<open>char\<close> is signed.

  \<^bold>\<open>Theories.\<close>
  \<^item> \<open>Prelude\<close>: allocation, integer limits, character classes, generic lemmas (\<^verbatim>\<open>utils.c\<close>).
  \<^item> \<open>Path\<close>, \<open>Path_Resolve\<close>: all of \<^verbatim>\<open>path.c\<close>.  The cleaning loop refines a fold over the
    components of a path; the symlink resolver never leaves its root; \<open>util_realpath_in_scope\<close> can.
  \<^item> \<open>Map_Store\<close>: the comparators of \<^verbatim>\<open>rb_tree.c\<close>, the ordered store the maps present to their
    clients, the locale of comparators and the locale of map laws with their interpretations.
  \<^item> \<open>RB_Tree\<close>: every function of \<^verbatim>\<open>rb_tree.c\<close> on a heap of nodes; a bad pointer and an endless loop
    are None.  \<open>RB_Heap\<close> holds the representation (a tree with a hole and the path to it), its
    reads, writes and rotations; \<open>RB_Insert\<close>, \<open>RB_Search\<close>, \<open>RB_Erase\<close> and \<open>RB_Iter\<close> the
    correctness of one group of operations each; \<open>RB_Props\<close> that any run of operations refines
    the ordered store, that the height is logarithmic, that iteration ends and visits every entry in
    order, and that every value is freed once.
  \<^item> \<open>Map_Impl\<close>: \<^verbatim>\<open>map.c\<close>, the eleven key and value types over the tree.
  \<^item> \<open>Convert\<close>: \<^verbatim>\<open>utils_convert.c\<close> with strtoll and strtoull written out.
  \<^item> \<open>Strings\<close>, \<open>Strings_Props\<close>: \<^verbatim>\<open>utils_string.c\<close> and \<^verbatim>\<open>utils_array.c\<close>.
  \<^item> \<open>Regex\<close>, \<open>Regex_Lang\<close>: \<^verbatim>\<open>utils_regex.c\<close> with POSIX extended regular expressions written out: a compiler that
    reads a pattern character by character, a matcher, and its equality with the language of the
    expression; the pattern of a wildcard matches what the wildcard stands for.
  \<^item> \<open>Container_State\<close>: the state record, all its operations, and their step relation.
  \<^item> \<open>Atomic\<close>: the counters of \<^verbatim>\<open>util_atomic.h\<close> as 64 bit words.
  \<^item> \<open>Restart_Manager\<close>: \<^verbatim>\<open>restartmanager.c\<close>; sequences of exits are folded over the decision.
  \<^item> \<open>Containers_Store\<close>: \<^verbatim>\<open>containers_store.c\<close> over a heap of counted containers.
  \<^item> \<open>Disk\<close>: a tree of files, the recursive removal of \<^verbatim>\<open>utils_file.c\<close>, which deletes all of a
    tree or reports a failure, and \<open>util_mkdir_p\<close>, after which the directory is there.
  \<^item> \<open>Errors\<close>: the error message and the error codes the handlers answer with.
  \<^item> \<open>Checkpoint\<close>, \<open>Checkpoint_Props\<close>: \<^verbatim>\<open>checkpoint.c\<close> and the handlers of \<^verbatim>\<open>checkpoint_cb.c\<close>, over
    the store, the states and the tree of files: what is removed, that a created checkpoint is
    listed, the state of a restored container, and the references that are kept.
  \<^item> \<open>Local_Volume\<close>, \<open>Local_Volume_Props\<close>: \<^verbatim>\<open>local.c\<close>: the invariant of the driver, the life of a volume
    from its creation to its removal, and what a failing allocation does.
  \<^item> \<open>Volume\<close>, \<open>Volume_Props\<close>: \<^verbatim>\<open>volume.c\<close> and the handlers of \<^verbatim>\<open>volume_cb.c\<close>.  The contract of a driver is
    a locale, interpreted on the local driver; over it, a volume in use survives every sequence of
    operations.

  \<^bold>\<open>Bounds.\<close>  The symlink resolver ends because at most \<open>MAXSYMLINKS\<close> (20) links are followed and
  every other iteration shortens the rest of the path; this is its termination measure, no fuel is used.

  \<^bold>\<open>Not modelled.\<close>  The client, the RPC front ends, the image and layer stores, spec generation, the
  runtime calls and the shim are system calls, network traffic and generated JSON code.
\<close>

end
